(* ===== verification/Go_Prelude.thy ===== *)
theory Go_Prelude
  imports Main "HOL-Library.Word" "HOL-Library.Signed_Division" "HOL-Library.Sublist"
begin

text \<open>
  The Go vocabulary the components share.

  \<^item> \<^bold>\<open>Integers.\<close> An \<open>int64\<close> (and \<open>int\<close>, 64 bits wide on the supported platforms) is a HOL
    \<^typ>\<open>int\<close> kept in \<open>[-2^63, 2^63)\<close>: every Go-side operation that can leave that range is written
    with \<open>wrap64\<close>, two's complement wrap-around, and Go's truncating division is \<open>go_div\<close>.
  \<^item> \<^bold>\<open>Strings.\<close> A Go string is a byte sequence: a HOL \<^typ>\<open>string\<close>. \<open>strings.TrimSpace\<close>,
    \<open>strings.Trim\<close>, \<open>strings.Contains\<close>, \<open>strings.SplitN\<close>, \<open>hex.EncodeToString\<close> and the decimal
    rendering of integers are modelled on bytes.
  \<^item> \<^bold>\<open>Lists of rows.\<close> Generic lemmas on sums, lookups and in-place updates over the rows of a
    table, collected in \<open>row_simps\<close>.
\<close>

named_theorems int64_simps "facts that remove wrap-around where the operands are in range"
named_theorems row_simps "sums, lookups and updates over table rows"

section \<open>64-bit integers\<close>

definition wrap64 :: "int \<Rightarrow> int" where
  "wrap64 x = (x + 2 ^ 63) mod 2 ^ 64 - 2 ^ 63"

definition in64 :: "int \<Rightarrow> bool" where
  "in64 x \<longleftrightarrow> - (2 ^ 63) \<le> x \<and> x < 2 ^ 63"

definition max_int64 :: int where
  "max_int64 = 2 ^ 63 - 1"

definition go_div :: "int \<Rightarrow> int \<Rightarrow> int" where
  "go_div a b = wrap64 (a sdiv b)"

lemma wrap64_id [int64_simps]: "in64 x \<Longrightarrow> wrap64 x = x"
  by (simp add: in64_def wrap64_def)

lemma in64_wrap64 [simp, intro]: "in64 (wrap64 x)"
proof -
  have "0 \<le> (x + 2 ^ 63) mod (2 ^ 64 :: int)" and "(x + 2 ^ 63) mod (2 ^ 64 :: int) < 2 ^ 64"
    by (simp_all del: power_numeral)
  then show ?thesis by (simp add: in64_def wrap64_def)
qed

lemma wrap64_sint: "wrap64 x = sint (word_of_int x :: 64 word)"
proof -
  have "sint (word_of_int x :: 64 word) = signed_take_bit 63 x"
    by (simp add: sint_sbintrunc')
  also have "\<dots> = take_bit 64 (x + 2 ^ 63) - 2 ^ 63"
    by (simp add: signed_take_bit_eq_take_bit_shift)
  finally show ?thesis by (simp add: wrap64_def take_bit_eq_mod)
qed

lemma wrap64_above:
  assumes "2 ^ 63 \<le> x" "x < 2 ^ 63 + 2 ^ 64"
  shows "wrap64 x = x - 2 ^ 64"
proof -
  have "(x + 2 ^ 63) mod (2 ^ 64 :: int) = (x + 2 ^ 63 - 2 ^ 64) mod 2 ^ 64"
    by (simp add: mod_diff_right_eq [symmetric] del: power_numeral)
  also have "\<dots> = x + 2 ^ 63 - 2 ^ 64"
    using assms by (intro mod_pos_pos_trivial) auto
  finally show ?thesis by (simp add: wrap64_def)
qed

lemma in64_simps [int64_simps]:
  "in64 0" "in64 1" "in64 max_int64"
  by (simp_all add: in64_def max_int64_def)

lemma in64_nonneg [int64_simps]: "0 \<le> x \<Longrightarrow> in64 x \<longleftrightarrow> x \<le> max_int64"
  by (auto simp: in64_def max_int64_def)

lemma sdiv_nonneg: "0 \<le> a \<Longrightarrow> 0 < b \<Longrightarrow> a sdiv b = a div (b::int)"
  by (cases "a = 0") (simp_all add: signed_divide_int_def)

lemma go_div_nonneg [int64_simps]:
  assumes "0 \<le> a" "in64 a" "0 < b"
  shows "go_div a b = a div b"
proof -
  have "a div b \<le> a div 1" using assms by (intro zdiv_mono2) auto
  moreover have "0 \<le> a div b" using assms by (simp add: pos_imp_zdiv_nonneg_iff)
  ultimately have "in64 (a div b)" using assms(1,2) by (auto simp: in64_def)
  then show ?thesis using assms by (simp add: go_div_def sdiv_nonneg wrap64_id)
qed


section \<open>Byte strings\<close>

text \<open>
  \<open>unicode.IsSpace\<close>, as the UTF-8 encodings of its runes: tab, newline, vertical tab, form feed,
  carriage return, space, U+0085, U+00A0, U+1680, U+2000 to U+200A, U+2028, U+2029, U+202F, U+205F
  and U+3000.
\<close>

definition space_seqs :: "string list" where
  "space_seqs =
     [[CHR 0x09], [CHR 0x0A], [CHR 0x0B], [CHR 0x0C], [CHR 0x0D], [CHR 0x20],
      [CHR 0xC2, CHR 0x85], [CHR 0xC2, CHR 0xA0], [CHR 0xE1, CHR 0x9A, CHR 0x80],
      [CHR 0xE2, CHR 0x80, CHR 0x80], [CHR 0xE2, CHR 0x80, CHR 0x81],
      [CHR 0xE2, CHR 0x80, CHR 0x82], [CHR 0xE2, CHR 0x80, CHR 0x83],
      [CHR 0xE2, CHR 0x80, CHR 0x84], [CHR 0xE2, CHR 0x80, CHR 0x85],
      [CHR 0xE2, CHR 0x80, CHR 0x86], [CHR 0xE2, CHR 0x80, CHR 0x87],
      [CHR 0xE2, CHR 0x80, CHR 0x88], [CHR 0xE2, CHR 0x80, CHR 0x89],
      [CHR 0xE2, CHR 0x80, CHR 0x8A], [CHR 0xE2, CHR 0x80, CHR 0xA8],
      [CHR 0xE2, CHR 0x80, CHR 0xA9], [CHR 0xE2, CHR 0x80, CHR 0xAF],
      [CHR 0xE2, CHR 0x81, CHR 0x9F], [CHR 0xE3, CHR 0x80, CHR 0x80]]"

definition strip_one :: "string list \<Rightarrow> string \<Rightarrow> string option" where
  "strip_one seqs s =
     map_option (\<lambda>q. drop (length q) s) (find (\<lambda>q. q \<noteq> [] \<and> prefix q s) seqs)"

lemma strip_one_shorter:
  assumes "strip_one seqs s = Some t"
  shows "length t < length s"
proof -
  from assms obtain q where "q \<noteq> []" "prefix q s" "t = drop (length q) s"
    by (auto simp: strip_one_def find_Some_iff)
  moreover from this have "length q \<le> length s" by (simp add: prefix_length_le)
  ultimately show ?thesis by (cases q) auto
qed

function trim_with :: "string list \<Rightarrow> string \<Rightarrow> string" where
  "trim_with seqs s = (case strip_one seqs s of None \<Rightarrow> s | Some t \<Rightarrow> trim_with seqs t)"
  by pat_completeness auto
termination
  by (relation "measure (\<lambda>(_, s). length s)") (auto dest: strip_one_shorter)

declare trim_with.simps [simp del]

text \<open>\<open>strings.TrimSpace\<close> and \<open>bytes.TrimSpace\<close>.\<close>

definition trim_space :: "string \<Rightarrow> string" where
  "trim_space s =
     (let l = trim_with space_seqs s in rev (trim_with (map rev space_seqs) (rev l)))"

lemma trim_with_suffix: "suffix (trim_with seqs s) s"
proof (induction seqs s rule: trim_with.induct)
  case (1 seqs s)
  show ?case
  proof (cases "strip_one seqs s")
    case None
    then show ?thesis by (subst trim_with.simps) simp
  next
    case (Some t)
    then have "suffix t s" by (auto simp: strip_one_def suffix_drop)
    with 1 Some show ?thesis
      by (subst trim_with.simps) (auto intro: suffix_order.trans)
  qed
qed

lemma trim_with_fixed: "strip_one seqs (trim_with seqs s) = None"
proof (induction seqs s rule: trim_with.induct)
  case (1 seqs s)
  then show ?case
    by (cases "strip_one seqs s") (simp_all add: trim_with.simps [of seqs s])
qed

lemma trim_space_sublist: "sublist (trim_space s) s"
proof -
  define l where "l = trim_with space_seqs s"
  have "suffix (trim_with (map rev space_seqs) (rev l)) (rev l)" by (rule trim_with_suffix)
  then have "prefix (trim_space s) l" by (simp add: trim_space_def l_def suffix_to_prefix)
  moreover have "suffix l s" by (simp add: l_def trim_with_suffix)
  ultimately show ?thesis
    by (auto simp: prefix_def suffix_def sublist_def)
qed

text \<open>\<open>strings.Trim(s, "/")\<close>.\<close>

definition trim_slash :: "string \<Rightarrow> string" where
  "trim_slash s = rev (dropWhile (\<lambda>c. c = CHR ''/'') (rev (dropWhile (\<lambda>c. c = CHR ''/'') s)))"

text \<open>\<open>strings.ToLower\<close> on ASCII letters (every other byte is kept).\<close>

definition lower_char :: "char \<Rightarrow> char" where
  "lower_char c =
     (if 65 \<le> (of_char c :: nat) \<and> (of_char c :: nat) \<le> 90 then char_of ((of_char c :: nat) + 32) else c)"

text \<open>\<open>hex.EncodeToString\<close>.\<close>

definition hex_digit :: "nat \<Rightarrow> char" where
  "hex_digit n = (if n < 10 then char_of (48 + n) else char_of (87 + n))"

definition hex_val :: "char \<Rightarrow> nat" where
  "hex_val c = (let k = of_char c in if k < 58 then k - 48 else k - 87)"

definition hex_encode :: "string \<Rightarrow> string" where
  "hex_encode bs =
     concat (map (\<lambda>c. [hex_digit (of_char c div 16), hex_digit (of_char c mod 16)]) bs)"

fun hex_decode :: "string \<Rightarrow> string" where
  "hex_decode (a # b # cs) = char_of (16 * hex_val a + hex_val b) # hex_decode cs"
| "hex_decode _ = []"

lemma hex_val_digit: "n < 16 \<Longrightarrow> hex_val (hex_digit n) = n"
  by (simp add: hex_val_def hex_digit_def)

lemma hex_decode_encode [simp]: "hex_decode (hex_encode bs) = bs"
proof (induction bs)
  case Nil
  then show ?case by (simp add: hex_encode_def)
next
  case (Cons c bs)
  have lt: "(of_char c :: nat) < 256" by simp
  then have "(of_char c :: nat) div 16 < 16" by (simp add: less_mult_imp_div_less)
  then have "char_of (16 * hex_val (hex_digit (of_char c div 16)) + hex_val (hex_digit (of_char c mod 16))) = c"
    by (simp add: hex_val_digit)
  with Cons show ?case by (simp add: hex_encode_def)
qed

lemma inj_hex_encode: "inj hex_encode"
  by (rule inj_on_inverseI [of _ hex_decode]) simp

lemma length_hex_encode [simp]: "length (hex_encode bs) = 2 * length bs"
  by (induction bs) (simp_all add: hex_encode_def)

text \<open>Decimal digits (\<open>fmt.Sprint\<close> of an integer).\<close>

fun digits :: "nat \<Rightarrow> string" where
  "digits n = (if n < 10 then [] else digits (n div 10)) @ [hex_digit (n mod 10)]"

declare digits.simps [simp del]

definition undigits :: "string \<Rightarrow> nat" where
  "undigits s = fold (\<lambda>c n. 10 * n + hex_val c) s 0"

lemma undigits_snoc: "undigits (s @ [c]) = 10 * undigits s + hex_val c"
  by (simp add: undigits_def)

lemma undigits_digits: "undigits (digits n) = n"
proof (induction n rule: digits.induct)
  case (1 n)
  have "hex_val (hex_digit (n mod 10)) = n mod 10" by (simp add: hex_val_digit)
  then show ?case using 1 by (subst digits.simps) (auto simp: undigits_snoc, simp add: undigits_def)
qed

definition sprint_int :: "int \<Rightarrow> string" where
  "sprint_int n = (if n < 0 then ''-'' @ digits (nat (- n)) else digits (nat n))"

lemma digits_inj: "digits m = digits n \<Longrightarrow> m = n"
  by (metis undigits_digits)

section \<open>Rows of a table\<close>

text \<open>
  A table is the list of its rows in insertion order. \<open>SELECT ... WHERE\<close> of one row is
  \<^const>\<open>find\<close>, \<open>SUM\<close> and \<open>COUNT\<close> are \<open>sum_where\<close> and \<open>count_where\<close>, \<open>UPDATE ... WHERE\<close> is
  \<open>update_where\<close>.
\<close>

definition sum_where :: "('r \<Rightarrow> bool) \<Rightarrow> ('r \<Rightarrow> int) \<Rightarrow> 'r list \<Rightarrow> int" where
  "sum_where p f rs = sum_list (map f (filter p rs))"

definition count_where :: "('r \<Rightarrow> bool) \<Rightarrow> 'r list \<Rightarrow> nat" where
  "count_where p rs = length (filter p rs)"

definition update_where :: "('r \<Rightarrow> bool) \<Rightarrow> ('r \<Rightarrow> 'r) \<Rightarrow> 'r list \<Rightarrow> 'r list" where
  "update_where p f rs = map (\<lambda>r. if p r then f r else r) rs"

lemma sum_where_simps [simp, row_simps]:
  "sum_where p f [] = 0"
  "sum_where p f (r # rs) = (if p r then f r else 0) + sum_where p f rs"
  "sum_where p f (rs @ ss) = sum_where p f rs + sum_where p f ss"
  by (simp_all add: sum_where_def)

lemma sum_where_none: "(\<And>r. r \<in> set rs \<Longrightarrow> \<not> p r) \<Longrightarrow> sum_where p f rs = 0"
  by (induction rs) auto

lemma sum_where_abs: "\<bar>sum_where p f rs\<bar> \<le> sum_where p (\<lambda>r. \<bar>f r\<bar>) rs"
  by (induction rs) auto

lemma count_where_eq_0 [simp, row_simps]: "count_where p rs = 0 \<longleftrightarrow> (\<forall>r \<in> set rs. \<not> p r)"
  by (simp add: count_where_def filter_empty_conv)

lemma count_where_pos [simp, row_simps]: "0 < count_where p rs \<longleftrightarrow> (\<exists>r \<in> set rs. p r)"
  using count_where_eq_0 [of p rs] by (metis gr0I less_irrefl)

lemma set_update_where [row_simps]:
  "set (update_where p f rs) = (\<lambda>r. if p r then f r else r) ` set rs"
  by (simp add: update_where_def)

lemma update_where_Nil [simp]: "update_where p f [] = []"
  by (simp add: update_where_def)

lemma update_where_Cons [simp]:
  "update_where p f (r # rs) = (if p r then f r else r) # update_where p f rs"
  by (simp add: update_where_def)

lemma update_where_id: "(\<And>r. r \<in> set rs \<Longrightarrow> \<not> p r) \<Longrightarrow> update_where p f rs = rs"
  by (induction rs) auto

lemma update_where_cong:
  "(\<And>r. r \<in> set rs \<Longrightarrow> p r = q r) \<Longrightarrow> (\<And>r. r \<in> set rs \<Longrightarrow> q r \<Longrightarrow> f r = g r) \<Longrightarrow>
     update_where p f rs = update_where q g rs"
  by (simp add: update_where_def)

lemma map_update_where [row_simps]:
  "(\<And>r. g (f r) = g r) \<Longrightarrow> map g (update_where p f rs) = map g rs"
  by (induction rs) auto

lemma find_None_iff_set: "find p rs = None \<longleftrightarrow> (\<forall>r \<in> set rs. \<not> p r)"
  by (auto simp: find_None_iff)

lemma find_SomeD: "find p rs = Some r \<Longrightarrow> r \<in> set rs \<and> p r"
  by (auto simp: find_Some_iff)

lemma find_append [simp, row_simps]:
  "find p (rs @ ss) = (case find p rs of None \<Rightarrow> find p ss | Some r \<Rightarrow> Some r)"
  by (induction rs) auto

lemma find_key:
  assumes "distinct (map key rs)" "r \<in> set rs"
  shows "find (\<lambda>x. key x = key r) rs = Some r"
  using assms by (induction rs) force+

lemma key_inj: "distinct (map key rs) \<Longrightarrow> r \<in> set rs \<Longrightarrow> s \<in> set rs \<Longrightarrow> key r = key s \<Longrightarrow> r = s"
  by (metis find_key option.inject)

lemma find_update_where:
  assumes "\<And>r. key (f r) = key r"
  shows "find (\<lambda>x. key x = k) (update_where p f rs) =
         map_option (\<lambda>r. if p r then f r else r) (find (\<lambda>x. key x = k) rs)"
  using assms by (induction rs) auto

lemma sum_update_one:
  assumes "distinct rs" "r \<in> set rs" "\<And>x. x \<in> set rs \<Longrightarrow> p x \<longleftrightarrow> x = r" "q (f r) = q r"
  shows "sum_where q g (update_where p f rs) =
         sum_where q g rs + (if q r then g (f r) - g r else 0)"
  using assms
proof (induction rs)
  case Nil
  then show ?case by simp
next
  case (Cons a rs)
  show ?case
  proof (cases "r = a")
    case True
    with Cons.prems have "update_where p f rs = rs" by (intro update_where_id) auto
    with True Cons.prems show ?thesis by simp
  next
    case False
    with Cons.prems have "\<not> p a" "r \<in> set rs" by auto
    with Cons show ?thesis by auto
  qed
qed

lemma sum_update_where:
  assumes d: "distinct (map key rs)" and r: "r \<in> set rs" "p r"
    and k: "\<And>x. x \<in> set rs \<Longrightarrow> p x \<Longrightarrow> key x = key r" and q: "q (f r) = q r"
  shows "sum_where q g (update_where p f rs) =
         sum_where q g rs + (if q r then g (f r) - g r else 0)"
proof (rule sum_update_one)
  show "distinct rs" using d by (simp add: distinct_map)
  show "p x \<longleftrightarrow> x = r" if "x \<in> set rs" for x
    using key_inj [OF d that r(1)] k [OF that] r(2) by blast
qed (use r q in auto)

end
