(* ===== verification/Credit_Types.thy ===== *)
theory Credit_Types
  imports Go_Prelude
begin

text \<open>
  The shared types of package \<open>credits\<close>: the sentinel errors and \<open>Usage\<close> of \<open>src/credits/types.go\<close>, and
  the input validation of \<open>src/credits/validate.go\<close>.

  An \<open>error\<close> value of Go is a value of \<open>error\<close>; \<open>errors.Is\<close> on a sentinel is equality. \<open>ErrMsg\<close> is an
  \<open>errors.New\<close> or \<open>fmt.Errorf\<close> without identity, \<open>ErrNoRows\<close> is \<open>sql.ErrNoRows\<close>, \<open>SqlUnique c\<close> is SQLite's
  violated \<open>UNIQUE\<close> or \<open>PRIMARY KEY\<close> constraint on the columns \<open>c\<close>, \<open>SqlCheck\<close> its violated \<open>CHECK\<close>, and
  \<open>ErrDb\<close> any other failure of the driver (a lock, a cancelled context, an I/O error), with its text.
\<close>

datatype error =
    ErrInsufficientCredits
  | ErrReservationNotFound
  | ErrReservationClosed
  | ErrDuplicateGrant
  | ErrUnknownModel
  | ErrReservationExceeded
  | ErrSubscriptionNotFound
  | ErrCredentialStoreDisabled
  | ErrCredentialNotFound
  | ErrCredentialDecrypt
  | ErrNoRows
  | ErrMsg string
  | SqlUnique string
  | SqlCheck string
  | ErrDb string

text \<open>\<open>err.Error()\<close>: the text that the code stores and searches.\<close>

fun error_text :: "error \<Rightarrow> string" where
  "error_text ErrInsufficientCredits = ''credits: insufficient credits''"
| "error_text ErrReservationNotFound = ''credits: reservation not found''"
| "error_text ErrReservationClosed = ''credits: reservation already settled or released''"
| "error_text ErrDuplicateGrant = ''credits: idempotency key already used''"
| "error_text ErrUnknownModel = ''credits: unknown model in pricing table''"
| "error_text ErrReservationExceeded = ''credits: actual cost exceeds reservation''"
| "error_text ErrSubscriptionNotFound = ''credits: subscription not found''"
| "error_text ErrCredentialStoreDisabled = ''credits: byok store disabled (no sealing key)''"
| "error_text ErrCredentialNotFound = ''credits: credential not found''"
| "error_text ErrCredentialDecrypt = ''credits: credential decrypt failed''"
| "error_text ErrNoRows = ''sql: no rows in result set''"
| "error_text (ErrMsg m) = m"
| "error_text (SqlUnique c) = ''UNIQUE constraint failed: '' @ c"
| "error_text (SqlCheck c) = ''CHECK constraint failed: '' @ c"
| "error_text (ErrDb m) = m"

definition billingModeManaged :: string where "billingModeManaged = ''managed''"
definition billingModeByok :: string where "billingModeByok = ''byok''"

text \<open>\<open>Usage\<close>; \<open>CreatedAt\<close> is a time in nanoseconds since the epoch, \<^const>\<open>None\<close> for Go's zero time.\<close>

record Usage =
  u_RequestID :: string
  u_UserID :: string
  u_Provider :: string
  u_Model :: string
  u_BillingMode :: string
  u_InputTokens :: int
  u_OutputTokens :: int
  u_CachedTokens :: int
  u_ReasoningTokens :: int
  u_CostMicrounits :: int
  u_CreditsCharged :: int
  u_PricingVersion :: string
  u_CreatedAt :: "int option"

section \<open>Validation\<close>

definition maxIdentifierLength :: nat where "maxIdentifierLength = 512"

definition requireIdentifier :: "string \<Rightarrow> string \<Rightarrow> error option" where
  "requireIdentifier name value =
     (if trim_space value = [] then Some (ErrMsg (''credits: '' @ name @ '' is required''))
      else if length value > maxIdentifierLength then Some (ErrMsg (''credits: '' @ name @ '' is too long''))
      else None)"

text \<open>
  \<open>for name, value := range map[string]string{...}\<close> with an early return visits the entries in an order
  Go leaves open, so any failing entry may be the one reported. \<open>pick\<close> is that choice: the loop returns
  the error of one of the failing entries, and no error if none fails.
\<close>

definition requireAll :: "nat \<Rightarrow> (string \<times> string) list \<Rightarrow> error option" where
  "requireAll pick kvs =
     (case List.map_filter (\<lambda>(name, value). requireIdentifier name value) kvs of
        [] \<Rightarrow> None
      | es \<Rightarrow> Some (es ! (pick mod length es)))"

definition validateUsage :: "nat \<Rightarrow> Usage \<Rightarrow> error option" where
  "validateUsage pick u =
     (case requireAll pick
        [(''request_id'', u_RequestID u), (''user_id'', u_UserID u),
         (''provider'', u_Provider u), (''model'', u_Model u)] of
        Some e \<Rightarrow> Some e
      | None \<Rightarrow>
         if u_BillingMode u \<noteq> billingModeManaged \<and> u_BillingMode u \<noteq> billingModeByok
         then Some (ErrMsg ''credits: invalid billing mode'')
         else if u_InputTokens u < 0 \<or> u_OutputTokens u < 0 \<or> u_CachedTokens u < 0 \<or> u_ReasoningTokens u < 0
              \<or> u_CostMicrounits u < 0 \<or> u_CreditsCharged u < 0
         then Some (ErrMsg ''credits: usage values must be non-negative'')
         else if u_BillingMode u = billingModeByok \<and> u_CreditsCharged u \<noteq> 0
         then Some (ErrMsg ''credits: byok usage cannot charge credits'')
         else None)"

definition valid_id :: "string \<Rightarrow> bool" where
  "valid_id v \<longleftrightarrow> trim_space v \<noteq> [] \<and> length v \<le> 512"

lemma requireIdentifier_None [simp]: "requireIdentifier n v = None \<longleftrightarrow> valid_id v"
  by (simp add: requireIdentifier_def valid_id_def maxIdentifierLength_def)

lemma requireIdentifier_valid [simp]: "valid_id v \<Longrightarrow> requireIdentifier n v = None"
  by simp

lemma requireIdentifier_Some: "requireIdentifier n v = Some e \<Longrightarrow> \<not> valid_id v"
  by (metis option.distinct(1) requireIdentifier_None)

lemma requireAll_None: "requireAll pick kvs = None \<longleftrightarrow> (\<forall>(n, v) \<in> set kvs. valid_id v)"
proof -
  have "requireAll pick kvs = None \<longleftrightarrow> List.map_filter (\<lambda>(n, v). requireIdentifier n v) kvs = []"
    by (simp add: requireAll_def split: list.splits)
  also have "\<dots> \<longleftrightarrow> (\<forall>(n, v) \<in> set kvs. valid_id v)"
    by (induction kvs) (auto simp: List.map_filter_simps split: option.splits dest: requireIdentifier_Some)
  finally show ?thesis .
qed

lemma requireAll_Some:
  assumes "requireAll pick kvs = Some e"
  shows "\<exists>(n, v) \<in> set kvs. requireIdentifier n v = Some e"
proof -
  let ?es = "List.map_filter (\<lambda>(n, v). requireIdentifier n v) kvs"
  from assms have ne: "?es \<noteq> []" and "e = ?es ! (pick mod length ?es)"
    by (auto simp: requireAll_def split: list.splits)
  then have "e \<in> set ?es" by simp
  then show ?thesis by (force simp: List.map_filter_def)
qed

lemma validateUsage_None:
  "validateUsage pick u = None \<longleftrightarrow>
     valid_id (u_RequestID u) \<and> valid_id (u_UserID u) \<and> valid_id (u_Provider u) \<and> valid_id (u_Model u) \<and>
     u_BillingMode u \<in> {billingModeManaged, billingModeByok} \<and>
     0 \<le> u_InputTokens u \<and> 0 \<le> u_OutputTokens u \<and> 0 \<le> u_CachedTokens u \<and> 0 \<le> u_ReasoningTokens u \<and>
     0 \<le> u_CostMicrounits u \<and> 0 \<le> u_CreditsCharged u \<and>
     (u_BillingMode u = billingModeByok \<longrightarrow> u_CreditsCharged u = 0)"
proof (cases "requireAll pick [(''request_id'', u_RequestID u), (''user_id'', u_UserID u),
         (''provider'', u_Provider u), (''model'', u_Model u)]")
  case None
  then have "valid_id (u_RequestID u) \<and> valid_id (u_UserID u) \<and> valid_id (u_Provider u) \<and> valid_id (u_Model u)"
    by (simp add: requireAll_None)
  then show ?thesis unfolding validateUsage_def None by auto
next
  case (Some e)
  then have "\<not> (valid_id (u_RequestID u) \<and> valid_id (u_UserID u) \<and> valid_id (u_Provider u) \<and> valid_id (u_Model u))"
    using requireAll_Some [OF Some] by (auto dest: requireIdentifier_Some)
  then show ?thesis unfolding validateUsage_def Some by auto
qed

end
