(* ===== verification/Pricing.thy ===== *)
theory Pricing
  imports Credit_Types
begin

text \<open>
  The pricing engine of \<open>src/credits/pricing.go\<close>: \<open>newPricer\<close>, \<open>cost\<close>, \<open>Cost\<close>, \<open>Credits\<close>,
  \<open>creditsFromMicrounits\<close>, \<open>EstimateMax\<close>, and the part of \<open>Config\<close>/\<open>Service\<close> (\<open>src/credits/credits.go\<close>) the
  other components read. All arithmetic is \<open>int64\<close> with wrap-around. The lemmas compare the engine with the
  exact price: the ceiling of the exact sum of tokens times price.
\<close>

record modelPrices =
  InputPerMtok :: int
  OutputPerMtok :: int
  CachedInputPerMtok :: int
  ReasoningPerMtok :: int

record pricingFile =
  pf_Version :: string
  pf_MicrounitsPerCredit :: int
  pf_Models :: "(string \<rightharpoonup> modelPrices) option"

record pricerEngine =
  version :: string
  microunitsPerCredit :: int
  models :: "string \<rightharpoonup> modelPrices"

definition testMiniModel :: string where "testMiniModel = ''gpt-4o-mini''"

definition defaultModels :: "string \<rightharpoonup> modelPrices" where
  "defaultModels =
     [testMiniModel \<mapsto> \<lparr>InputPerMtok = 150000, OutputPerMtok = 600000, CachedInputPerMtok = 150000, ReasoningPerMtok = 0\<rparr>,
      ''gpt-4o'' \<mapsto> \<lparr>InputPerMtok = 2500000, OutputPerMtok = 10000000, CachedInputPerMtok = 1250000, ReasoningPerMtok = 0\<rparr>,
      ''claude-3-5-haiku'' \<mapsto> \<lparr>InputPerMtok = 800000, OutputPerMtok = 4000000, CachedInputPerMtok = 80000, ReasoningPerMtok = 0\<rparr>,
      ''claude-3-5-sonnet'' \<mapsto> \<lparr>InputPerMtok = 3000000, OutputPerMtok = 15000000, CachedInputPerMtok = 300000, ReasoningPerMtok = 0\<rparr>]"

definition defaultMicrounitsPerCredit :: int where "defaultMicrounitsPerCredit = 1000"
definition microUnitsPerMTok :: int where "microUnitsPerMTok = 1000000"
definition reserveMarginNum :: int where "reserveMarginNum = 6"
definition reserveMarginDen :: int where "reserveMarginDen = 5"

text \<open>
  \<open>newPricer\<close>. The reader is \<^const>\<open>None\<close> for \<open>nil\<close>, otherwise the outcome of decoding its JSON:
  the decoder's error or the file (absent fields are Go's zero values, an absent \<open>models\<close> is \<^const>\<open>None\<close>).
\<close>

definition newPricer :: "(error + pricingFile) option \<Rightarrow> string \<Rightarrow> error + pricerEngine" where
  "newPricer r ver =
     (let p = \<lparr>version = ver, microunitsPerCredit = defaultMicrounitsPerCredit, models = defaultModels\<rparr>
      in case r of
           None \<Rightarrow> Inr p
         | Some (Inl e) \<Rightarrow> Inl e
         | Some (Inr f) \<Rightarrow>
             (let p = (if pf_Version f \<noteq> [] then p\<lparr>version := pf_Version f\<rparr> else p);
                  p = (if pf_MicrounitsPerCredit f > 0 then p\<lparr>microunitsPerCredit := pf_MicrounitsPerCredit f\<rparr> else p);
                  p = (case pf_Models f of Some ms \<Rightarrow> p\<lparr>models := ms\<rparr> | None \<Rightarrow> p)
              in Inr p))"

definition intDivCeil :: "int \<Rightarrow> int \<Rightarrow> int" where
  "intDivCeil a b = (if a \<le> 0 then 0 else go_div (wrap64 (wrap64 (a + b) - 1)) b)"

text \<open>The loop of \<open>cost\<close> over the (tokens, price) pairs, with the running numerator.\<close>

fun cost_loop :: "(int \<times> int) list \<Rightarrow> int \<Rightarrow> error + int" where
  "cost_loop [] numerator = Inr numerator"
| "cost_loop ((t, p) # vs) numerator =
     (if t < 0 \<or> p < 0 \<or> (t \<noteq> 0 \<and> p > go_div max_int64 t)
      then Inl (ErrMsg ''credits: pricing overflow or negative token count'')
      else let product = wrap64 (t * p)
           in if numerator > wrap64 (max_int64 - product)
              then Inl (ErrMsg ''credits: pricing overflow'')
              else cost_loop vs (wrap64 (numerator + product)))"

definition cost :: "pricerEngine \<Rightarrow> string \<Rightarrow> int \<Rightarrow> int \<Rightarrow> int \<Rightarrow> int \<Rightarrow> error + int" where
  "cost p model input output cached reasoning =
     (case models p model of
        None \<Rightarrow> Inl ErrUnknownModel
      | Some m \<Rightarrow>
         (case cost_loop [(input, InputPerMtok m), (output, OutputPerMtok m),
                          (cached, CachedInputPerMtok m), (reasoning, ReasoningPerMtok m)] 0 of
            Inl e \<Rightarrow> Inl e
          | Inr numerator \<Rightarrow> Inr (intDivCeil numerator microUnitsPerMTok)))"

definition pCost :: "modelPrices \<Rightarrow> int \<Rightarrow> int \<Rightarrow> error + int" where
  "pCost m input output =
     cost \<lparr>version = [], microunitsPerCredit = 0, models = [''estimate'' \<mapsto> m]\<rparr> ''estimate'' input output 0 0"

definition creditsFromMicrounits :: "int \<Rightarrow> int \<Rightarrow> int" where
  "creditsFromMicrounits mu perCredit =
     (let perCredit = (if perCredit \<le> 0 then defaultMicrounitsPerCredit else perCredit)
      in if mu \<le> 0 then 0 else go_div (wrap64 (wrap64 (mu + perCredit) - 1)) perCredit)"

text \<open>
  \<open>Service\<close>, as far as its methods read it: the configured monthly credits (a nil plan map is the empty
  map), the reservation timeout in nanoseconds, and the pricing engine. The database and the clock are
  part of the world the operations run in.
\<close>

record Service =
  MonthlyCredits :: int
  PlanMonthlyCredits :: "string \<rightharpoonup> int"
  ReservationTimeout :: int
  pricer :: pricerEngine

definition Cost :: "Service \<Rightarrow> Usage \<Rightarrow> error + int" where
  "Cost s u = cost (pricer s) (u_Model u) (u_InputTokens u) (u_OutputTokens u) (u_CachedTokens u) (u_ReasoningTokens u)"

definition Credits :: "Service \<Rightarrow> Usage \<Rightarrow> error + int" where
  "Credits s u =
     (case Cost s u of Inl e \<Rightarrow> Inl e
      | Inr mu \<Rightarrow> Inr (creditsFromMicrounits mu (microunitsPerCredit (pricer s))))"

definition EstimateMax :: "Service \<Rightarrow> string \<Rightarrow> int \<Rightarrow> int \<Rightarrow> error + int" where
  "EstimateMax s model inputTokens maxOutputTokens =
     (if inputTokens < 0 \<or> maxOutputTokens < 0 then Inl (ErrMsg ''credits: token counts must be non-negative'')
      else case models (pricer s) model of
        None \<Rightarrow> Inl ErrUnknownModel
      | Some m \<Rightarrow>
         (case pCost m inputTokens maxOutputTokens of
            Inl e \<Rightarrow> Inl e
          | Inr mu \<Rightarrow>
             if mu > go_div max_int64 reserveMarginNum then Inl (ErrMsg ''credits: reserve estimate overflow'')
             else let mu = intDivCeil (wrap64 (mu * reserveMarginNum)) reserveMarginDen;
                      credits = creditsFromMicrounits mu (microunitsPerCredit (pricer s))
                  in Inr (max credits 1)))"

text \<open>\<open>EstimateTokens\<close> of \<open>src/credits/helpers.go\<close>.\<close>

definition EstimateTokens :: "string \<Rightarrow> int" where
  "EstimateTokens s = go_div (int (length s)) 4"


section \<open>The exact price\<close>

text \<open>The reference: the least integer \<open>c\<close> with \<open>a \<le> c * b\<close>, and the exact sum of a call's token charges.\<close>

definition ceil_div :: "int \<Rightarrow> int \<Rightarrow> int" where
  "ceil_div a b = - ((- a) div b)"

definition exact_numerator :: "modelPrices \<Rightarrow> int \<Rightarrow> int \<Rightarrow> int \<Rightarrow> int \<Rightarrow> int" where
  "exact_numerator m i out c r =
     i * InputPerMtok m + out * OutputPerMtok m + c * CachedInputPerMtok m + r * ReasoningPerMtok m"

definition nonneg_prices :: "modelPrices \<Rightarrow> bool" where
  "nonneg_prices m \<longleftrightarrow>
     0 \<le> InputPerMtok m \<and> 0 \<le> OutputPerMtok m \<and> 0 \<le> CachedInputPerMtok m \<and> 0 \<le> ReasoningPerMtok m"

definition prices64 :: "modelPrices \<Rightarrow> bool" where
  "prices64 m \<longleftrightarrow>
     in64 (InputPerMtok m) \<and> in64 (OutputPerMtok m) \<and> in64 (CachedInputPerMtok m) \<and> in64 (ReasoningPerMtok m)"

lemma ceil_div_bounds:
  assumes "0 < b"
  shows "a \<le> ceil_div a b * b" "ceil_div a b * b < a + b"
proof -
  have "(- a) div b * b + (- a) mod b = - a" by (rule div_mult_mod_eq)
  moreover have "0 \<le> (- a) mod b" "(- a) mod b < b" using assms by simp_all
  moreover have "ceil_div a b * b = - ((- a) div b * b)" by (simp add: ceil_div_def)
  ultimately show "a \<le> ceil_div a b * b" "ceil_div a b * b < a + b" by linarith+
qed

lemma ceil_div_unique:
  assumes b: "0 < b" and "a \<le> c * b" "c * b < a + b"
  shows "ceil_div a b = c"
proof -
  have "ceil_div a b * b < (c + 1) * b" "c * b < (ceil_div a b + 1) * b"
    using assms ceil_div_bounds [OF b, of a] by (simp_all add: algebra_simps)
  then have "ceil_div a b < c + 1" "c < ceil_div a b + 1"
    using b by (simp_all only: mult_less_cancel_right_pos)
  then show ?thesis by simp
qed

lemma ceil_div_alt:
  assumes b: "0 < b"
  shows "ceil_div a b = (a + b - 1) div b"
proof (rule ceil_div_unique [OF b])
  have "(a + b - 1) div b * b + (a + b - 1) mod b = a + b - 1" by (rule div_mult_mod_eq)
  moreover have "0 \<le> (a + b - 1) mod b" "(a + b - 1) mod b < b" using b by simp_all
  ultimately show "a \<le> (a + b - 1) div b * b" "(a + b - 1) div b * b < a + b" by linarith+
qed

lemma ceil_div_mono:
  assumes b: "0 < b" and "a \<le> a'"
  shows "ceil_div a b \<le> ceil_div a' b"
  using assms by (simp add: ceil_div_def zdiv_mono1)

lemma ceil_div_nonneg: "0 < b \<Longrightarrow> 0 \<le> a \<Longrightarrow> 0 \<le> ceil_div a b"
  by (simp add: ceil_div_alt pos_imp_zdiv_nonneg_iff)

lemma ceil_div_pos: "0 < b \<Longrightarrow> 0 < a \<Longrightarrow> 1 \<le> ceil_div a b"
  using zdiv_mono1 [of b "a + b - 1" b] by (simp add: ceil_div_alt)

lemma ceil_div_le_self: "0 < b \<Longrightarrow> 0 \<le> a \<Longrightarrow> ceil_div a b \<le> a"
proof (cases "a = 0")
  case False
  assume b: "0 < b" "0 \<le> a"
  with False have "a + b - 1 \<le> a * b"
    using mult_nonneg_nonneg [of "a - 1" "b - 1"] by (simp add: algebra_simps)
  then have "(a + b - 1) div b \<le> (a * b) div b" using b by (intro zdiv_mono1)
  with b show ?thesis by (simp add: ceil_div_alt)
qed (simp add: ceil_div_def)

text \<open>Go's \<open>(a + b - 1) / b\<close> is the ceiling as long as the sum stays in range.\<close>

lemma go_ceil:
  assumes "0 < a" "0 < b" "a + b - 1 \<le> max_int64"
  shows "go_div (wrap64 (wrap64 (a + b) - 1)) b = ceil_div a b"
proof -
  have "wrap64 (wrap64 (a + b) - 1) = a + b - 1"
  proof (cases "a + b \<le> max_int64")
    case True
    then show ?thesis using assms by (simp add: int64_simps)
  next
    case False
    with assms have "a + b = 2 ^ 63" by (simp add: max_int64_def)
    then show ?thesis by (simp add: wrap64_def)
  qed
  then show ?thesis using assms by (simp add: int64_simps ceil_div_alt)
qed

lemma intDivCeil_eq:
  assumes "0 \<le> a" "0 < b" "a + b - 1 \<le> max_int64"
  shows "intDivCeil a b = ceil_div a b"
  using assms by (cases "a = 0") (simp_all add: intDivCeil_def go_ceil ceil_div_def)

lemma creditsFromMicrounits_eq:
  assumes "0 \<le> mu" "0 < per" "mu + per - 1 \<le> max_int64"
  shows "creditsFromMicrounits mu per = ceil_div mu per"
  using assms by (cases "mu = 0") (simp_all add: creditsFromMicrounits_def go_ceil ceil_div_def)


section \<open>The overflow checks of \<open>cost\<close>\<close>

abbreviation pair_nonneg :: "int \<times> int \<Rightarrow> bool" where
  "pair_nonneg v \<equiv> 0 \<le> fst v \<and> 0 \<le> snd v"

definition charge_sum :: "(int \<times> int) list \<Rightarrow> int" where
  "charge_sum vs = sum_list (map (\<lambda>(t, p). t * p) vs)"

lemma charge_sum_simps [simp]:
  "charge_sum [] = 0" "charge_sum ((t, p) # vs) = t * p + charge_sum vs"
  by (simp_all add: charge_sum_def)

lemma charge_sum_nonneg: "\<forall>v \<in> set vs. pair_nonneg v \<Longrightarrow> 0 \<le> charge_sum vs"
  by (induction vs) auto

lemma zdiv_less_iff:
  assumes t: "0 < (t::int)"
  shows "a div t < p \<longleftrightarrow> a < p * t"
proof
  have eq: "a div t * t + a mod t = a" by (rule div_mult_mod_eq)
  have m: "0 \<le> a mod t" "a mod t < t" using t by simp_all
  show "a < p * t" if "a div t < p"
  proof -
    have "(a div t + 1) * t \<le> p * t" using that t by (intro mult_right_mono) auto
    then have "a div t * t + t \<le> p * t" by (simp add: distrib_right)
    with eq m show ?thesis by linarith
  qed
  show "a div t < p" if "a < p * t"
  proof (rule ccontr)
    assume "\<not> a div t < p"
    then have "p * t \<le> a div t * t" using t by (intro mult_right_mono) auto
    with that eq m show False by linarith
  qed
qed

lemma product_check:
  assumes "0 \<le> t" "in64 t" "0 \<le> p"
  shows "(t \<noteq> 0 \<and> p > go_div max_int64 t) \<longleftrightarrow> t * p > max_int64"
proof (cases "t = 0")
  case False
  with assms have t: "0 < t" by simp
  then have "go_div max_int64 t = max_int64 div t"
    by (intro go_div_nonneg) (simp_all add: in64_def max_int64_def)
  moreover have "max_int64 div t < p \<longleftrightarrow> max_int64 < p * t"
    using t by (rule zdiv_less_iff)
  ultimately show ?thesis using False by (simp add: mult.commute)
qed (simp add: max_int64_def)

lemma cost_loop_Inr:
  assumes "\<forall>v \<in> set vs. in64 (fst v) \<and> in64 (snd v)" "0 \<le> n" "n \<le> max_int64"
  shows "cost_loop vs n = Inr m \<longleftrightarrow>
         (\<forall>v \<in> set vs. pair_nonneg v) \<and> n + charge_sum vs \<le> max_int64 \<and> m = n + charge_sum vs"
  using assms
proof (induction vs n rule: cost_loop.induct)
  case (1 n)
  then show ?case by auto
next
  case (2 t p vs n)
  consider (neg) "t < 0 \<or> p < 0" | (big) "0 \<le> t" "0 \<le> p" "t * p > max_int64"
    | (ok) "0 \<le> t" "0 \<le> p" "t * p \<le> max_int64" by linarith
  then show ?case
  proof cases
    case neg
    then show ?thesis by auto
  next
    case big
    then have "cost_loop ((t, p) # vs) n \<noteq> Inr m" using product_check [of t p] "2.prems" by auto
    moreover have "\<not> ((\<forall>v \<in> set vs. pair_nonneg v) \<and> n + charge_sum ((t, p) # vs) \<le> max_int64)"
      using big "2.prems"(2) charge_sum_nonneg [of vs] by auto
    ultimately show ?thesis by auto
  next
    case ok
    have w: "wrap64 (t * p) = t * p" "wrap64 (max_int64 - t * p) = max_int64 - t * p"
      using ok mult_nonneg_nonneg [OF ok(1,2)] unfolding max_int64_def
      by (intro wrap64_id; unfold in64_def; linarith)+
    have guard: "\<not> (t < 0 \<or> p < 0 \<or> (t \<noteq> 0 \<and> p > go_div max_int64 t))"
      using ok product_check [of t p] "2.prems"(1) by auto
    show ?thesis
    proof (cases "n + t * p \<le> max_int64")
      case True
      then have "wrap64 (n + t * p) = n + t * p" "0 \<le> n + t * p"
        using ok "2.prems"(2) by (simp_all add: int64_simps)
      with True guard w ok 2 show ?thesis by (auto simp: algebra_simps)
    next
      case False
      then have "cost_loop ((t, p) # vs) n \<noteq> Inr m" using guard w by auto
      moreover have "\<not> ((\<forall>v \<in> set vs. pair_nonneg v) \<and> n + charge_sum ((t, p) # vs) \<le> max_int64)"
        using False charge_sum_nonneg [of vs] by auto
      ultimately show ?thesis by auto
    qed
  qed
qed


lemma ceil_div_le_iff:
  assumes "0 < b"
  shows "ceil_div a b \<le> c \<longleftrightarrow> a \<le> c * b"
  using zdiv_less_iff [OF assms, of "a + b - 1" "c + 1"] assms
  by (simp add: ceil_div_alt distrib_right) linarith

lemma ceil_div_ceil_div:
  assumes "0 < b" "0 < d"
  shows "ceil_div (ceil_div a b) d = ceil_div a (b * d)"
proof (rule antisym)
  have "0 < b * d" using assms by simp
  then have "a \<le> ceil_div a (b * d) * d * b"
    using ceil_div_bounds(1) [of "b * d" a] by (simp add: algebra_simps)
  then show "ceil_div (ceil_div a b) d \<le> ceil_div a (b * d)"
    using assms by (simp add: ceil_div_le_iff)
  have "a \<le> ceil_div a b * b" "ceil_div a b \<le> ceil_div (ceil_div a b) d * d"
    using ceil_div_bounds(1) assms by auto
  then have "a \<le> ceil_div (ceil_div a b) d * d * b"
    using assms by (meson mult_right_mono order.trans less_imp_le)
  then show "ceil_div a (b * d) \<le> ceil_div (ceil_div a b) d"
    using \<open>0 < b * d\<close> by (simp add: ceil_div_le_iff algebra_simps)
qed

section \<open>Behaviour of the engine\<close>

abbreviation nonneg4 :: "int \<Rightarrow> int \<Rightarrow> int \<Rightarrow> int \<Rightarrow> bool" where
  "nonneg4 i out c r \<equiv> 0 \<le> i \<and> 0 \<le> out \<and> 0 \<le> c \<and> 0 \<le> r"

abbreviation four64 :: "int \<Rightarrow> int \<Rightarrow> int \<Rightarrow> int \<Rightarrow> bool" where
  "four64 i out c r \<equiv> in64 i \<and> in64 out \<and> in64 c \<and> in64 r"

text \<open>The largest numerator whose rounding division does not wrap around: \<open>MaxInt64 - 999999\<close>.\<close>

definition max_numerator :: int where
  "max_numerator = max_int64 - (microUnitsPerMTok - 1)"

lemma cost_Inr:
  assumes "models p model = Some m" "prices64 m" "four64 i out c r"
  shows "cost p model i out c r = Inr v \<longleftrightarrow>
         nonneg_prices m \<and> nonneg4 i out c r \<and> exact_numerator m i out c r \<le> max_int64 \<and>
         v = intDivCeil (exact_numerator m i out c r) microUnitsPerMTok"
proof -
  let ?vs = "[(i, InputPerMtok m), (out, OutputPerMtok m), (c, CachedInputPerMtok m), (r, ReasoningPerMtok m)]"
  have "cost_loop ?vs 0 = Inr n \<longleftrightarrow> (\<forall>v \<in> set ?vs. pair_nonneg v) \<and>
        0 + charge_sum ?vs \<le> max_int64 \<and> n = 0 + charge_sum ?vs" for n
    using assms by (intro cost_loop_Inr) (auto simp: prices64_def max_int64_def)
  then have loop: "cost_loop ?vs 0 = Inr n \<longleftrightarrow> nonneg_prices m \<and> nonneg4 i out c r \<and>
        exact_numerator m i out c r \<le> max_int64 \<and> n = exact_numerator m i out c r" for n
    by (auto simp: nonneg_prices_def exact_numerator_def)
  have "cost p model i out c r = Inr v \<longleftrightarrow>
        (\<exists>n. cost_loop ?vs 0 = Inr n \<and> v = intDivCeil n microUnitsPerMTok)"
    using assms(1) by (auto simp: cost_def simp del: cost_loop.simps split: sum.splits)
  then show ?thesis unfolding loop by blast
qed

lemma exact_numerator_nonneg:
  "nonneg_prices m \<Longrightarrow> nonneg4 i out c r \<Longrightarrow> 0 \<le> exact_numerator m i out c r"
  by (simp add: exact_numerator_def nonneg_prices_def)

lemma cost_eq_ceil:
  assumes "models p model = Some m" "prices64 m" "four64 i out c r"
    and "nonneg_prices m" "nonneg4 i out c r" "exact_numerator m i out c r \<le> max_numerator"
  shows "cost p model i out c r = Inr (ceil_div (exact_numerator m i out c r) microUnitsPerMTok)"
proof -
  have "intDivCeil (exact_numerator m i out c r) microUnitsPerMTok =
        ceil_div (exact_numerator m i out c r) microUnitsPerMTok"
    using assms exact_numerator_nonneg [of m i out c r]
    by (intro intDivCeil_eq) (auto simp: max_numerator_def microUnitsPerMTok_def)
  then show ?thesis using assms by (simp add: cost_Inr max_numerator_def microUnitsPerMTok_def)
qed

lemma ceil_numerator_bound:
  "x \<le> max_numerator \<Longrightarrow> ceil_div x microUnitsPerMTok \<le> 9223372036854"
  by (simp add: ceil_div_le_iff microUnitsPerMTok_def max_numerator_def max_int64_def)

lemma Credits_eq_ceil:
  assumes "models (pricer s) (u_Model u) = Some m" "prices64 m" "nonneg_prices m"
    and "four64 (u_InputTokens u) (u_OutputTokens u) (u_CachedTokens u) (u_ReasoningTokens u)"
    and "nonneg4 (u_InputTokens u) (u_OutputTokens u) (u_CachedTokens u) (u_ReasoningTokens u)"
    and x: "x = exact_numerator m (u_InputTokens u) (u_OutputTokens u) (u_CachedTokens u) (u_ReasoningTokens u)"
    and "x \<le> max_numerator" "0 < microunitsPerCredit (pricer s)" "microunitsPerCredit (pricer s) \<le> 2 ^ 62"
  shows "Credits s u = Inr (ceil_div (ceil_div x microUnitsPerMTok) (microunitsPerCredit (pricer s)))"
proof -
  have "0 \<le> ceil_div x microUnitsPerMTok"
    using assms exact_numerator_nonneg by (auto simp: microUnitsPerMTok_def intro!: ceil_div_nonneg)
  moreover have "ceil_div x microUnitsPerMTok \<le> 9223372036854"
    using assms by (intro ceil_numerator_bound)
  ultimately show ?thesis
    using assms by (simp add: Credits_def Cost_def cost_eq_ceil creditsFromMicrounits_eq max_int64_def)
qed

lemma EstimateMax_eq_ceil:
  assumes "models (pricer s) model = Some m" "prices64 m" "nonneg_prices m"
    and "in64 i" "in64 out" "0 \<le> i" "0 \<le> out"
    and x: "x = exact_numerator m i out 0 0" "x \<le> max_numerator"
    and "0 < microunitsPerCredit (pricer s)" "microunitsPerCredit (pricer s) \<le> 2 ^ 62"
  shows "EstimateMax s model i out =
         Inr (max (ceil_div (ceil_div (6 * ceil_div x microUnitsPerMTok) 5) (microunitsPerCredit (pricer s))) 1)"
proof -
  let ?mu = "ceil_div x microUnitsPerMTok"
  have mu: "0 \<le> ?mu" "?mu \<le> 9223372036854"
    using assms exact_numerator_nonneg [of m i out 0 0] ceil_numerator_bound [OF x(2)]
    by (auto simp: microUnitsPerMTok_def intro!: ceil_div_nonneg)
  have "ceil_div (6 * ?mu) 5 \<le> 6 * ?mu" "0 \<le> ceil_div (6 * ?mu) 5"
    using mu by (auto intro: ceil_div_le_self ceil_div_nonneg)
  moreover have "go_div max_int64 6 = 1537228672809129301"
    by (simp add: int64_simps max_int64_def)
  moreover have "wrap64 (?mu * 6) = 6 * ?mu"
    using mu by (simp add: int64_simps max_int64_def)
  moreover have "pCost m i out = Inr ?mu"
    using assms by (simp add: pCost_def cost_eq_ceil int64_simps)
  ultimately show ?thesis
    using assms mu by (simp add: EstimateMax_def reserveMarginNum_def reserveMarginDen_def
        intDivCeil_eq creditsFromMicrounits_eq max_int64_def)
qed


section \<open>Properties\<close>

text \<open>C18: for a priced model and 64-bit inputs, \<open>cost\<close> decides exactly. It returns an error if and only if
  a token count or a price is negative or the exact sum of charges exceeds \<open>MaxInt64\<close>; and when the sum is at
  most \<open>MaxInt64 - 999999\<close> it returns the exact cost rounded up to a whole micro-unit.\<close>

theorem cost_exact:
  assumes "models p model = Some m" "prices64 m" "four64 i out c r"
  shows "((\<exists>e. cost p model i out c r = Inl e) \<longleftrightarrow>
            \<not> (nonneg_prices m \<and> nonneg4 i out c r \<and> exact_numerator m i out c r \<le> max_int64)) \<and>
         (nonneg_prices m \<and> nonneg4 i out c r \<and> exact_numerator m i out c r \<le> max_numerator \<longrightarrow>
            cost p model i out c r = Inr (ceil_div (exact_numerator m i out c r) 1000000))"
proof (intro conjI impI)
  show "(\<exists>e. cost p model i out c r = Inl e) \<longleftrightarrow>
          \<not> (nonneg_prices m \<and> nonneg4 i out c r \<and> exact_numerator m i out c r \<le> max_int64)"
    using cost_Inr [OF assms] by (cases "cost p model i out c r") auto
  show "cost p model i out c r = Inr (ceil_div (exact_numerator m i out c r) 1000000)"
    if "nonneg_prices m \<and> nonneg4 i out c r \<and> exact_numerator m i out c r \<le> max_numerator"
    using cost_eq_ceil [OF assms] that by (simp add: microUnitsPerMTok_def)
qed

definition sample_pricer :: pricerEngine where
  "sample_pricer = \<lparr>version = ''v'', microunitsPerCredit = 1000, models = defaultModels\<rparr>"

definition sample_prices :: modelPrices where
  "sample_prices = \<lparr>InputPerMtok = 150000, OutputPerMtok = 600000, CachedInputPerMtok = 150000, ReasoningPerMtok = 0\<rparr>"

lemma sample_pricer_facts:
  "models sample_pricer ''gpt-4o-mini'' = Some sample_prices" "microunitsPerCredit sample_pricer = 1000"
  "prices64 sample_prices" "nonneg_prices sample_prices"
  by (simp_all add: sample_pricer_def sample_prices_def defaultModels_def testMiniModel_def prices64_def
      nonneg_prices_def in64_def)

theorem cost_exact_witness:
  "cost sample_pricer ''gpt-4o-mini'' 1500 412 0 0 = Inr 473"
  using cost_exact [OF sample_pricer_facts(1,3), of 1500 412 0 0] sample_pricer_facts(4)
  by (simp add: exact_numerator_def sample_prices_def max_numerator_def max_int64_def microUnitsPerMTok_def
      in64_def ceil_div_def)

text \<open>C39: the rounding division after the overflow checks is itself unchecked: when the exact sum of charges
  lies above \<open>MaxInt64 - 999999\<close> (and at most \<open>MaxInt64\<close>), \<open>cost\<close> reports success with a negative cost, which
  \<open>Credits\<close> turns into zero credits.\<close>

theorem cost_gap_negative:
  assumes "models (pricer s) (u_Model u) = Some m" "prices64 m" "nonneg_prices m"
    and "four64 (u_InputTokens u) (u_OutputTokens u) (u_CachedTokens u) (u_ReasoningTokens u)"
    and "nonneg4 (u_InputTokens u) (u_OutputTokens u) (u_CachedTokens u) (u_ReasoningTokens u)"
    and x: "x = exact_numerator m (u_InputTokens u) (u_OutputTokens u) (u_CachedTokens u) (u_ReasoningTokens u)"
    and "max_numerator < x" "x \<le> max_int64"
  shows "(\<exists>mu < 0. Cost s u = Inr mu) \<and> Credits s u = Inr 0"
proof -
  have rng: "9223372036853775808 < x" "x \<le> 9223372036854775807"
    using assms by (simp_all add: max_numerator_def max_int64_def microUnitsPerMTok_def)
  have "wrap64 (wrap64 (x + 1000000) - 1) = x + 1000000 - 1 - 2 ^ 64"
  proof -
    have "wrap64 (x + 1000000) = x + 1000000 - 2 ^ 64"
      using rng by (intro wrap64_above) auto
    then show ?thesis using rng by (simp add: wrap64_id in64_def)
  qed
  moreover have "go_div (x + 1000000 - 1 - 2 ^ 64) 1000000 < 0"
  proof -
    define y where "y = 2 ^ 64 - (x + 1000000 - 1)"
    have y: "1000000 \<le> y" "y \<le> 2 ^ 63" using rng by (simp_all add: y_def)
    then have "1 \<le> y div 1000000" "y div 1000000 \<le> y"
      using zdiv_mono1 [of 1000000 y 1000000] zdiv_mono2 [of y 1 1000000] by auto
    moreover have "(- y) sdiv 1000000 = - (y div 1000000)"
      using y by (simp add: signed_divide_int_def)
    ultimately have "go_div (- y) 1000000 < 0"
      using y by (simp add: go_div_def wrap64_id in64_def)
    then show ?thesis by (simp add: y_def)
  qed
  ultimately have neg: "intDivCeil x microUnitsPerMTok < 0"
    using rng by (simp add: intDivCeil_def microUnitsPerMTok_def)
  have c: "Cost s u = Inr (intDivCeil x microUnitsPerMTok)"
    using cost_Inr [OF assms(1,2,4)] assms by (simp add: Cost_def)
  then show ?thesis using neg by (simp add: Credits_def creditsFromMicrounits_def)
qed

definition sample_service :: Service where
  "sample_service = \<lparr>MonthlyCredits = 1000, PlanMonthlyCredits = [''pro'' \<mapsto> 5000],
                     ReservationTimeout = 300000000000, pricer = sample_pricer\<rparr>"

definition sample_usage :: "int \<Rightarrow> int \<Rightarrow> Usage" where
  "sample_usage i out =
     \<lparr>u_RequestID = ''req-1'', u_UserID = ''u1'', u_Provider = ''openai'', u_Model = ''gpt-4o-mini'',
      u_BillingMode = ''managed'', u_InputTokens = i, u_OutputTokens = out, u_CachedTokens = 0, u_ReasoningTokens = 0,
      u_CostMicrounits = 0, u_CreditsCharged = 0, u_PricingVersion = [], u_CreatedAt = None\<rparr>"

lemma sample_service_simps [simp]:
  "pricer sample_service = sample_pricer" "u_Model (sample_usage i out) = ''gpt-4o-mini''"
  "u_InputTokens (sample_usage i out) = i" "u_OutputTokens (sample_usage i out) = out"
  "u_CachedTokens (sample_usage i out) = 0" "u_ReasoningTokens (sample_usage i out) = 0"
  by (simp_all add: sample_service_def sample_usage_def)

theorem cost_gap_negative_witness:
  "(\<exists>mu < 0. Cost sample_service (sample_usage 61489146912365 0) = Inr mu) \<and>
   Credits sample_service (sample_usage 61489146912365 0) = Inr 0"
  by (rule cost_gap_negative [where m = sample_prices and x = 9223372036854750000])
    (use sample_pricer_facts in \<open>auto simp: exact_numerator_def sample_prices_def in64_def
        max_numerator_def max_int64_def microUnitsPerMTok_def\<close>)

text \<open>C19: within range, \<open>Credits\<close> is the least whole number of credits that covers the exact price: the
  two roundings up (to micro-units, then to credits) lose nothing against rounding once.\<close>

theorem Credits_least:
  assumes "models (pricer s) (u_Model u) = Some m" "prices64 m" "nonneg_prices m"
    and "four64 (u_InputTokens u) (u_OutputTokens u) (u_CachedTokens u) (u_ReasoningTokens u)"
    and "nonneg4 (u_InputTokens u) (u_OutputTokens u) (u_CachedTokens u) (u_ReasoningTokens u)"
    and x: "x = exact_numerator m (u_InputTokens u) (u_OutputTokens u) (u_CachedTokens u) (u_ReasoningTokens u)"
    and "x \<le> max_numerator" "0 < microunitsPerCredit (pricer s)" "microunitsPerCredit (pricer s) \<le> 2 ^ 62"
  shows "\<exists>n. Credits s u = Inr n \<and> (\<forall>k. n \<le> k \<longleftrightarrow> x \<le> k * (1000000 * microunitsPerCredit (pricer s)))"
  using Credits_eq_ceil [OF assms] assms(8)
  by (simp add: ceil_div_ceil_div microUnitsPerMTok_def ceil_div_le_iff)

theorem Credits_least_witness:
  "\<exists>n. Credits sample_service (sample_usage 1500 412) = Inr n \<and>
       (\<forall>k. n \<le> k \<longleftrightarrow> 472200000 \<le> k * (1000000 * microunitsPerCredit (pricer sample_service)))"
proof (rule Credits_least [where m = sample_prices])
  show "(472200000 :: int) \<le> max_numerator"
    by (simp add: max_numerator_def max_int64_def microUnitsPerMTok_def)
qed (use sample_pricer_facts in \<open>auto simp: exact_numerator_def sample_prices_def in64_def\<close>)

text \<open>C23: the reserve estimate covers what it is made for. \<open>EstimateMax\<close> and \<open>Credits\<close> succeed, and the charge does not exceed
  the estimate, for every usage with at most the estimated input and output tokens whose cached and reasoning tokens,
  which the estimate leaves out, cost at most a fifth of the estimated call (the margin of 1.2).\<close>

theorem EstimateMax_covers:
  assumes "models (pricer s) (u_Model u) = Some m" "prices64 m" "nonneg_prices m"
    and "four64 (u_InputTokens u) (u_OutputTokens u) (u_CachedTokens u) (u_ReasoningTokens u)"
    and "nonneg4 (u_InputTokens u) (u_OutputTokens u) (u_CachedTokens u) (u_ReasoningTokens u)"
    and "in64 i" "in64 out" and tokens: "u_InputTokens u \<le> i" "u_OutputTokens u \<le> out"
    and extra: "5 * exact_numerator m 0 0 (u_CachedTokens u) (u_ReasoningTokens u) \<le> exact_numerator m i out 0 0"
    and range: "6 * exact_numerator m i out 0 0 \<le> 5 * max_numerator"
    and per: "0 < microunitsPerCredit (pricer s)" "microunitsPerCredit (pricer s) \<le> 2 ^ 62"
  shows "\<exists>est c. EstimateMax s (u_Model u) i out = Inr est \<and> Credits s u = Inr c \<and> c \<le> est"
proof -
  let ?per = "microunitsPerCredit (pricer s)"
  let ?n = "exact_numerator m i out 0 0"
  let ?x = "exact_numerator m (u_InputTokens u) (u_OutputTokens u) (u_CachedTokens u) (u_ReasoningTokens u)"
  let ?b = "ceil_div (6 * ceil_div ?n 1000000) 5"
  have io: "0 \<le> i" "0 \<le> out" using assms(5) tokens by auto
  have n: "0 \<le> ?n" "?n \<le> max_numerator"
    using assms io exact_numerator_nonneg [of m i out 0 0] by auto
  have "u_InputTokens u * InputPerMtok m \<le> i * InputPerMtok m" "u_OutputTokens u * OutputPerMtok m \<le> out * OutputPerMtok m"
    using tokens assms(3) by (auto simp: nonneg_prices_def intro: mult_right_mono)
  then have margin: "5 * ?x \<le> 6 * ?n" using extra by (simp add: exact_numerator_def)
  have "?n \<le> ceil_div ?n 1000000 * 1000000" "6 * ceil_div ?n 1000000 \<le> ?b * 5"
    by (simp_all add: ceil_div_bounds(1))
  then have "?x \<le> ?b * 1000000" using margin by linarith
  then have "ceil_div ?x 1000000 \<le> ?b" by (simp add: ceil_div_le_iff)
  then have "ceil_div (ceil_div ?x 1000000) ?per \<le> ceil_div ?b ?per"
    using per(1) by (intro ceil_div_mono)
  moreover have "?x \<le> max_numerator" using margin range by linarith
  then have "Credits s u = Inr (ceil_div (ceil_div ?x 1000000) ?per)"
    using Credits_eq_ceil [OF assms(1-5) refl _ per] by (simp add: microUnitsPerMTok_def)
  moreover have "EstimateMax s (u_Model u) i out = Inr (max (ceil_div ?b ?per) 1)"
    using EstimateMax_eq_ceil [OF assms(1-3,6,7) io refl n(2) per] by (simp add: microUnitsPerMTok_def)
  ultimately show ?thesis by auto
qed

theorem EstimateMax_covers_witness:
  "\<exists>est c. EstimateMax sample_service ''gpt-4o-mini'' 1500 800 = Inr est \<and>
           Credits sample_service (sample_usage 1500 412) = Inr c \<and> c \<le> est"
proof -
  have "\<exists>est c. EstimateMax sample_service (u_Model (sample_usage 1500 412)) 1500 800 = Inr est \<and>
           Credits sample_service (sample_usage 1500 412) = Inr c \<and> c \<le> est"
    by (rule EstimateMax_covers [where m = sample_prices])
      (use sample_pricer_facts in \<open>auto simp: exact_numerator_def sample_prices_def in64_def
          max_numerator_def max_int64_def microUnitsPerMTok_def\<close>)
  then show ?thesis by simp
qed

text \<open>C24: the estimate does not bound the charge of every usage within its token counts. It leaves cached and reasoning tokens
  out, which \<open>Cost\<close> charges on top of the input: for a usage with exactly the estimated input and output tokens, the
  charge exceeds the estimate as soon as its cached and reasoning tokens cost more than a fifth of the estimated call
  (and what the roundings can make up for). So a reservation of the estimate can fall short of the settlement.\<close>

theorem EstimateMax_falls_short:
  assumes "models (pricer s) (u_Model u) = Some m" "prices64 m" "nonneg_prices m"
    and "four64 (u_InputTokens u) (u_OutputTokens u) (u_CachedTokens u) (u_ReasoningTokens u)"
    and "nonneg4 (u_InputTokens u) (u_OutputTokens u) (u_CachedTokens u) (u_ReasoningTokens u)"
    and extra: "exact_numerator m (u_InputTokens u) (u_OutputTokens u) 0 0 + 11000000 + 5000000 * microunitsPerCredit (pricer s) <
      5 * exact_numerator m 0 0 (u_CachedTokens u) (u_ReasoningTokens u)"
    and range: "exact_numerator m (u_InputTokens u) (u_OutputTokens u) (u_CachedTokens u) (u_ReasoningTokens u) \<le> max_numerator"
    and per: "0 < microunitsPerCredit (pricer s)" "microunitsPerCredit (pricer s) \<le> 2 ^ 62"
  shows "\<exists>est c. EstimateMax s (u_Model u) (u_InputTokens u) (u_OutputTokens u) = Inr est \<and> Credits s u = Inr c \<and> est < c"
proof -
  let ?per = "microunitsPerCredit (pricer s)"
  let ?n = "exact_numerator m (u_InputTokens u) (u_OutputTokens u) 0 0"
  let ?e = "exact_numerator m 0 0 (u_CachedTokens u) (u_ReasoningTokens u)"
  let ?x = "exact_numerator m (u_InputTokens u) (u_OutputTokens u) (u_CachedTokens u) (u_ReasoningTokens u)"
  let ?b = "ceil_div (6 * ceil_div ?n 1000000) 5"
  have x: "?x = ?n + ?e" by (simp add: exact_numerator_def)
  have n: "0 \<le> ?n" "0 \<le> ?e"
    using assms(3,5) exact_numerator_nonneg [of m _ _ 0 0] exact_numerator_nonneg [of m 0 0] by auto
  have b: "5 * ?b < 6 * ceil_div ?n 1000000 + 5" "1000000 * ceil_div ?n 1000000 < ?n + 1000000"
    using ceil_div_bounds(2) [of 5 "6 * ceil_div ?n 1000000"] ceil_div_bounds(2) [of 1000000 ?n] by (simp_all add: algebra_simps)
  have big: "(?b + ?per) * 1000000 < ?x" using b extra x by (simp add: algebra_simps)
  have "k < ceil_div (ceil_div ?x 1000000) ?per" if "k * ?per \<le> ?b + ?per" for k
  proof (rule ccontr)
    assume "\<not> k < ceil_div (ceil_div ?x 1000000) ?per"
    then have "?x \<le> k * ?per * 1000000" using per(1) by (simp add: not_less ceil_div_le_iff)
    moreover have "k * ?per * 1000000 \<le> (?b + ?per) * 1000000" using that by simp
    ultimately show False using big by linarith
  qed
  note short = this
  have "ceil_div ?b ?per * ?per < ?b + ?per" using ceil_div_bounds(2) [OF per(1), of ?b] by (simp add: algebra_simps)
  then have "ceil_div ?b ?per < ceil_div (ceil_div ?x 1000000) ?per" by (intro short) simp
  moreover have "0 \<le> ?b" using n by (simp add: ceil_div_nonneg)
  then have "1 < ceil_div (ceil_div ?x 1000000) ?per" by (intro short) simp
  moreover have "Credits s u = Inr (ceil_div (ceil_div ?x 1000000) ?per)"
    using Credits_eq_ceil [OF assms(1-5) refl range per] by (simp add: microUnitsPerMTok_def)
  moreover have "EstimateMax s (u_Model u) (u_InputTokens u) (u_OutputTokens u) = Inr (max (ceil_div ?b ?per) 1)"
    using EstimateMax_eq_ceil [OF assms(1-3) _ _ _ _ refl _ per, of "u_InputTokens u" "u_OutputTokens u"] assms(4,5) n x range
    by (simp add: microUnitsPerMTok_def)
  ultimately show ?thesis by auto
qed

theorem EstimateMax_falls_short_witness:
  "EstimateMax sample_service ''gpt-4o-mini'' 1000000 0 = Inr 180 \<and>
   (\<exists>c. Credits sample_service ((sample_usage 1000000 0)\<lparr>u_CachedTokens := 1000000\<rparr>) = Inr c \<and> 180 < c)"
proof -
  let ?u = "(sample_usage 1000000 0)\<lparr>u_CachedTokens := 1000000\<rparr>"
  have e: "EstimateMax sample_service ''gpt-4o-mini'' 1000000 0 = Inr 180" by code_simp
  have "\<exists>est c. EstimateMax sample_service (u_Model ?u) (u_InputTokens ?u) (u_OutputTokens ?u) = Inr est \<and>
      Credits sample_service ?u = Inr c \<and> est < c"
    by (rule EstimateMax_falls_short [where m = sample_prices])
      (use sample_pricer_facts in \<open>auto simp: exact_numerator_def sample_prices_def in64_def max_numerator_def max_int64_def
         microUnitsPerMTok_def\<close>)
  then show ?thesis using e by simp
qed

end
