(* ===== verification/Store.thy ===== *)
theory Store
  imports Pricing
begin

text \<open>
  The SQLite database and the way the code talks to it.

  \<^item> The tables of \<open>src/credits/schema.go\<close> and \<open>src/payments/schema.sql\<close>: one record per row type, a table is
    the list of its rows, \<open>database\<close> is all of them. A nullable column is an \<^typ>\<open>'a option\<close>. Integers computed
    by SQL are unbounded here; \<open>Credits_System\<close> bounds every balance by the ledger's turnover.
  \<^item> The \<open>world\<close> an operation runs in: the database, the random bytes \<open>crypto/rand\<close> will deliver, the two
    clocks in nanoseconds (\<open>cfg.Now\<close> and \<open>time.Now\<close>), and \<open>faults\<close>, which decides for each statement in turn
    whether the driver fails (a lock, a cancelled context, an I/O error; the string is the error's text) or executes
    it; an empty list means no further fault. \<open>pick\<close> is the order Go's map iteration happens to take.
  \<^item> An operation is a function from worlds to a result (\<^const>\<open>Inl\<close> an error, \<^const>\<open>Inr\<close> a value) and a
    world: \<open>stmt\<close> runs one statement, \<open>transaction\<close> is \<open>BeginTx ... defer Rollback ... Commit\<close>. A world may
    carry further fields (the caller's struct in \<open>Reservations\<close>), hence the record schemes.
\<close>

named_theorems io_defs "definitions of the operation combinators"

section \<open>Tables\<close>

record account_row =
  a_user_id :: string
  a_balance :: int
  a_updated_at :: int

record ledger_row =
  t_id :: string
  t_user_id :: string
  t_amount :: int
  t_type :: string
  t_source :: string
  t_reference_id :: "string option"
  t_idempotency_key :: "string option"
  t_metadata :: "(string \<times> string) list option"
  t_created_at :: int

text \<open>\<open>Reservation\<close> of \<open>src/credits/reservation.go\<close>, which has exactly the columns of \<open>credit_reservations\<close>.\<close>

record Reservation =
  r_ID :: string
  r_UserID :: string
  r_RequestID :: string
  r_Amount :: int
  r_Captured :: int
  r_Released :: int
  r_Status :: string
  r_CreatedAt :: int
  r_UpdatedAt :: int

record usage_row =
  l_id :: string
  l_request_id :: string
  l_user_id :: string
  l_provider :: string
  l_model :: string
  l_billing_mode :: string
  l_input_tokens :: int
  l_output_tokens :: int
  l_cached_input_tokens :: int
  l_reasoning_tokens :: int
  l_estimated_cost_microunits :: "int option"
  l_actual_cost_microunits :: "int option"
  l_credits_charged :: int
  l_pricing_version :: string
  l_created_at :: int

record credential_row =
  k_user_id :: string
  k_provider :: string
  k_encrypted_key :: string
  k_version :: int
  k_previous_key :: "string option"
  k_created_at :: int
  k_updated_at :: int

text \<open>\<open>Subscription\<close> of \<open>src/credits/subscription.go\<close>, with the columns of \<open>subscriptions\<close>.\<close>

record Subscription =
  s_UserID :: string
  s_Plan :: string
  s_Status :: string
  s_CreatedAt :: int
  s_UpdatedAt :: int

record outbox_row =
  o_request_id :: string
  o_user_id :: string
  o_reservation_id :: string
  o_provider :: string
  o_model :: string
  o_status :: string
  o_attempt_count :: int
  o_last_error :: "string option"
  o_created_at :: int
  o_updated_at :: int

record purchase_row =
  p_id :: string
  p_provider :: string
  p_user_id :: string
  p_sku :: string
  p_credits :: int
  p_currency :: string
  p_amount_minor :: int
  p_payment_id :: "string option"
  p_status :: string
  p_created_at :: int
  p_updated_at :: int
  p_fulfilled_at :: "int option"
  p_reversed_at :: "int option"
  p_reversed_credits :: int

record event_row =
  e_provider :: string
  e_event_id :: string
  e_purchase_id :: string
  e_payment_id :: string
  e_status :: string
  e_payload_hash :: "string option"
  e_process_status :: string
  e_attempt_count :: int
  e_last_error :: "string option"
  e_received_at :: int
  e_processed_at :: "int option"
  e_lease_until :: "int option"
  e_reversed_minor :: int

record psub_row =
  q_provider :: string
  q_subscription_id :: string
  q_user_id :: string
  q_plan :: string
  q_status :: string
  q_period_start :: int
  q_period_end :: int
  q_last_event_created :: int
  q_updated_at :: int
  q_trial_start :: int
  q_trial_end :: int
  q_cancel_at :: int
  q_cancel_at_period_end :: int
  q_canceled_at :: int

record database =
  credit_accounts :: "account_row list"
  credit_transactions :: "ledger_row list"
  credit_reservations :: "Reservation list"
  llm_usage :: "usage_row list"
  byok_credentials :: "credential_row list"
  subscriptions :: "Subscription list"
  settlement_outbox :: "outbox_row list"
  payment_purchases :: "purchase_row list"
  payment_events :: "event_row list"
  payment_subscriptions :: "psub_row list"
  table_columns :: "(string \<times> string list) list"
  table_indexes :: "string list"
  credits_schema_migrations :: "(int \<times> int) list"
  payments_schema_migrations :: "(int \<times> int) list"

text \<open>
  A new database file: no rows, and a catalogue (\<open>table_columns\<close> and \<open>table_indexes\<close>, SQLite's \<open>sqlite_schema\<close>) that
  the migrations of \<open>Migrations\<close> fill. The statements of the other theories run after the migrations.
\<close>

definition empty_db :: database where
  "empty_db = \<lparr>credit_accounts = [], credit_transactions = [], credit_reservations = [], llm_usage = [],
     byok_credentials = [], subscriptions = [], settlement_outbox = [], payment_purchases = [],
     payment_events = [], payment_subscriptions = [], table_columns = [], table_indexes = [],
     credits_schema_migrations = [], payments_schema_migrations = []\<rparr>"

section \<open>The world and its statements\<close>

record world =
  db :: database
  rnd :: string
  clk :: int
  wall :: int
  faults :: "string option list"
  pick :: nat

text \<open>\<open>Unix()\<close>: whole seconds, rounding towards minus infinity.\<close>

definition unix :: "int \<Rightarrow> int" where
  "unix ns = ns div 1000000000"

abbreviation now :: "'z world_scheme \<Rightarrow> int" where
  "now w \<equiv> unix (clk w)"

definition return_io :: "'a \<Rightarrow> 'w \<Rightarrow> (error + 'a) \<times> 'w" where
  [io_defs]: "return_io x w = (Inr x, w)"

definition throw_io :: "error \<Rightarrow> 'w \<Rightarrow> (error + 'a) \<times> 'w" where
  [io_defs]: "throw_io e w = (Inl e, w)"

definition bind_io :: "('w \<Rightarrow> (error + 'a) \<times> 'w) \<Rightarrow> ('a \<Rightarrow> 'w \<Rightarrow> (error + 'b) \<times> 'w) \<Rightarrow> 'w \<Rightarrow> (error + 'b) \<times> 'w" where
  [io_defs]: "bind_io m f w = (case m w of (Inl e, w') \<Rightarrow> (Inl e, w') | (Inr x, w') \<Rightarrow> f x w')"

text \<open>\<open>if err := ...; err != nil { return err }\<close> around a pure check.\<close>

definition check_io :: "error option \<Rightarrow> 'w \<Rightarrow> (error + unit) \<times> 'w" where
  [io_defs]: "check_io c w = (case c of Some e \<Rightarrow> (Inl e, w) | None \<Rightarrow> (Inr (), w))"

text \<open>Reading a component of the world, such as the clock.\<close>

definition read_io :: "('w \<Rightarrow> 'a) \<Rightarrow> 'w \<Rightarrow> (error + 'a) \<times> 'w" where
  [io_defs]: "read_io g w = (Inr (g w), w)"

text \<open>Running a step and looking at its error instead of returning it.\<close>

definition try_io :: "('w \<Rightarrow> (error + 'a) \<times> 'w) \<Rightarrow> 'w \<Rightarrow> (error + (error + 'a)) \<times> 'w" where
  [io_defs]: "try_io m w = (case m w of (r, w') \<Rightarrow> (Inr r, w'))"

definition modify_io :: "('w \<Rightarrow> 'w) \<Rightarrow> 'w \<Rightarrow> (error + unit) \<times> 'w" where
  [io_defs]: "modify_io f w = (Inr (), f w)"

definition stmt :: "(database \<Rightarrow> error + ('a \<times> database)) \<Rightarrow> 'z world_scheme \<Rightarrow> (error + 'a) \<times> 'z world_scheme" where
  "stmt f w =
     (let w' = w\<lparr>faults := tl (faults w)\<rparr>
      in case (if faults w = [] then None else hd (faults w)) of
           Some msg \<Rightarrow> (Inl (ErrDb msg), w')
         | None \<Rightarrow> (case f (db w) of
                     Inl e \<Rightarrow> (Inl e, w')
                   | Inr (x, d) \<Rightarrow> (Inr x, w'\<lparr>db := d\<rparr>)))"

text \<open>\<open>QueryRow(...).Scan\<close> and \<open>Query\<close>: a statement that reads.\<close>

definition query :: "(database \<Rightarrow> error + 'a) \<Rightarrow> 'z world_scheme \<Rightarrow> (error + 'a) \<times> 'z world_scheme" where
  "query g = stmt (\<lambda>d. case g d of Inl e \<Rightarrow> Inl e | Inr x \<Rightarrow> Inr (x, d))"

definition row_or_none :: "'r option \<Rightarrow> error + 'r" where
  "row_or_none x = (case x of None \<Rightarrow> Inl ErrNoRows | Some r \<Rightarrow> Inr r)"

text \<open>
  A write transaction. The body ends with \<open>Commit x\<close> where the code calls \<open>tx.Commit()\<close> and then returns \<open>x\<close>,
  with \<open>Abandon x\<close> where it returns \<open>x\<close> without committing. In every other case, an error of \<open>BeginTx\<close>, of the
  body or of \<open>Commit\<close>, the deferred \<open>Rollback\<close> restores the tables.
\<close>

datatype 'a txout = Commit 'a | Abandon 'a

definition transaction ::
  "('z world_scheme \<Rightarrow> (error + 'a txout) \<times> 'z world_scheme) \<Rightarrow> 'z world_scheme \<Rightarrow> (error + 'a) \<times> 'z world_scheme" where
  "transaction body w =
     (case stmt (\<lambda>d. Inr ((), d)) w of
        (Inl e, w1) \<Rightarrow> (Inl e, w1)
      | (Inr _, w1) \<Rightarrow>
         (case body w1 of
            (Inl e, w2) \<Rightarrow> (Inl e, w2\<lparr>db := db w1\<rparr>)
          | (Inr (Abandon x), w2) \<Rightarrow> (Inr x, w2\<lparr>db := db w1\<rparr>)
          | (Inr (Commit x), w2) \<Rightarrow>
             (case stmt (\<lambda>d. Inr ((), d)) w2 of
                (Inl e, w3) \<Rightarrow> (Inl e, w3\<lparr>db := db w1\<rparr>)
              | (Inr _, w3) \<Rightarrow> (Inr x, w3))))"

text \<open>\<open>newID\<close> of \<open>src/credits/id.go\<close>: sixteen random bytes in hex.\<close>

definition randomIDBytes :: nat where "randomIDBytes = 16"

definition newID :: "'z world_scheme \<Rightarrow> (error + string) \<times> 'z world_scheme" where
  "newID w =
     (if length (rnd w) < randomIDBytes then (Inl (ErrMsg ''crypto/rand: read failed''), w)
      else (Inr (hex_encode (take randomIDBytes (rnd w))), w\<lparr>rnd := drop randomIDBytes (rnd w)\<rparr>))"

text \<open>\<open>NewRequestID\<close>; its panic ends the operation as an error would.\<close>

definition NewRequestID :: "'z world_scheme \<Rightarrow> (error + string) \<times> 'z world_scheme" where
  "NewRequestID w =
     (case newID w of
        (Inl e, w') \<Rightarrow> (Inl (ErrMsg (''credits: crypto/rand unavailable: '' @ error_text e)), w')
      | (Inr i, w') \<Rightarrow> (Inr i, w'))"

section \<open>Reasoning about operations\<close>

named_theorems io_inv "what a successful step says about its worlds"

text \<open>Inversion of a successful run: the steps it consists of.\<close>

lemma bind_io_Inr [io_inv]:
  "bind_io m f w = (Inr y, w'') \<longleftrightarrow> (\<exists>x w'. m w = (Inr x, w') \<and> f x w' = (Inr y, w''))"
  by (auto simp: bind_io_def split: prod.splits sum.splits)

lemma return_io_Inr [io_inv]: "return_io x w = (Inr y, w') \<longleftrightarrow> y = x \<and> w' = w"
  by (auto simp: return_io_def)

lemma throw_io_Inr [io_inv]: "throw_io e w = (Inr y, w') \<longleftrightarrow> False"
  by (simp add: throw_io_def)

lemma check_io_Inr [io_inv]: "check_io c w = (Inr y, w') \<longleftrightarrow> c = None \<and> w' = w"
  by (auto simp: check_io_def split: option.splits)

lemma read_io_Inr [io_inv]: "read_io g w = (Inr y, w') \<longleftrightarrow> y = g w \<and> w' = w"
  by (auto simp: read_io_def)

lemma try_io_Inr [io_inv]: "try_io m w = (Inr r, w') \<longleftrightarrow> m w = (r, w')"
  by (auto simp: try_io_def split: prod.splits)

lemma modify_io_Inr [io_inv]: "modify_io f w = (Inr x, w') \<longleftrightarrow> w' = f w"
  by (auto simp: modify_io_def)

lemma stmt_Inr [io_inv]:
  "stmt f w = (Inr x, w') \<longleftrightarrow>
     (faults w = [] \<or> hd (faults w) = None) \<and>
     (\<exists>d. f (db w) = Inr (x, d) \<and> w' = w\<lparr>faults := tl (faults w), db := d\<rparr>)"
  by (auto simp: stmt_def Let_def split: option.splits sum.splits)

lemma query_Inr [io_inv]:
  "query g w = (Inr x, w') \<longleftrightarrow>
     (faults w = [] \<or> hd (faults w) = None) \<and> g (db w) = Inr x \<and> w' = w\<lparr>faults := tl (faults w)\<rparr>"
  by (auto simp: query_def stmt_Inr split: sum.splits)

lemma newID_Inr [io_inv]:
  "newID w = (Inr i, w') \<longleftrightarrow>
     randomIDBytes \<le> length (rnd w) \<and> i = hex_encode (take randomIDBytes (rnd w)) \<and>
     w' = w\<lparr>rnd := drop randomIDBytes (rnd w)\<rparr>"
  by (auto simp: newID_def)

lemma row_or_none_Inr [io_inv]: "row_or_none x = Inr r \<longleftrightarrow> x = Some r"
  by (auto simp: row_or_none_def split: option.splits)

lemma transaction_Inr:
  assumes "transaction body w = (Inr x, w')"
  obtains (commit) w2 where "body (w\<lparr>faults := tl (faults w)\<rparr>) = (Inr (Commit x), w2)"
      and "w' = w2\<lparr>faults := tl (faults w2)\<rparr>"
    | (abandon) w2 where "body (w\<lparr>faults := tl (faults w)\<rparr>) = (Inr (Abandon x), w2)"
      and "w' = w2\<lparr>db := db w\<rparr>"
  using assms by (auto simp: transaction_def stmt_Inr split: prod.splits sum.splits txout.splits)

text \<open>Atomicity: a transaction that reports an error leaves the tables as they were.\<close>

lemma stmt_Inl: "stmt f w = (Inl e, w') \<Longrightarrow> db w' = db w"
  by (auto simp: stmt_def Let_def split: option.splits sum.splits)

lemma transaction_Inl: "transaction body w = (Inl e, w') \<Longrightarrow> db w' = db w"
  by (auto simp: transaction_def stmt_Inr dest: stmt_Inl split: prod.splits sum.splits txout.splits)

lemma query_db [simp]: "db (snd (query g w)) = db w"
  by (auto simp: query_def stmt_def Let_def split: option.splits sum.splits)

lemma query_any: "query g w = (x, w') \<Longrightarrow> db w' = db w \<and> clk w' = clk w \<and> rnd w' = rnd w"
  by (auto simp: query_def stmt_def Let_def split: option.splits sum.splits if_splits)

text \<open>Without further faults every statement runs, so an operation evaluates.\<close>

lemma stmt_ok:
  "faults w = [] \<Longrightarrow>
   stmt f w = (case f (db w) of Inl e \<Rightarrow> (Inl e, w) | Inr (x, d) \<Rightarrow> (Inr x, w\<lparr>db := d\<rparr>))"
  by (simp add: stmt_def split: sum.splits)

lemma query_ok:
  "faults w = [] \<Longrightarrow> query g w = (case g (db w) of Inl e \<Rightarrow> (Inl e, w) | Inr x \<Rightarrow> (Inr x, w))"
  by (simp add: query_def stmt_ok split: sum.splits)

lemma transaction_ok:
  assumes "faults w = []"
  shows "transaction body w =
     (case body w of
        (Inl e, w2) \<Rightarrow> (Inl e, w2\<lparr>db := db w\<rparr>)
      | (Inr (Abandon x), w2) \<Rightarrow> (Inr x, w2\<lparr>db := db w\<rparr>)
      | (Inr (Commit x), w2) \<Rightarrow>
          (case stmt (\<lambda>d. Inr ((), d)) w2 of
             (Inl e, w3) \<Rightarrow> (Inl e, w3\<lparr>db := db w\<rparr>)
           | (Inr _, w3) \<Rightarrow> (Inr x, w3)))"
  using assms by (simp add: transaction_def stmt_ok)

lemmas io_ok = io_defs stmt_ok query_ok transaction_ok

section \<open>Preservation of a property of the tables\<close>

definition preserves :: "(database \<Rightarrow> bool) \<Rightarrow> ('z world_scheme \<Rightarrow> (error + 'a) \<times> 'z world_scheme) \<Rightarrow> bool" where
  "preserves I m \<longleftrightarrow> (\<forall>w. I (db w) \<longrightarrow> I (db (snd (m w))))"

lemma preservesD: "preserves I m \<Longrightarrow> I (db w) \<Longrightarrow> I (db (snd (m w)))"
  by (simp add: preserves_def)

lemma preserves_pure [simp, intro]:
  "preserves I (return_io x)" "preserves I (throw_io e)" "preserves I (check_io c)"
  "preserves I (read_io g)" "preserves I (query q)" "preserves I newID"
  by (auto simp: preserves_def io_defs newID_def split: option.splits)

lemma preserves_bind [intro]:
  assumes "preserves I m" "\<And>x. preserves I (f x)"
  shows "preserves I (bind_io m f)"
  unfolding preserves_def
proof (intro allI impI)
  fix w :: "'a world_scheme"
  assume "I (db w)"
  then have "I (db (snd (m w)))" using assms(1) by (rule preservesD [rotated])
  then show "I (db (snd (bind_io m f w)))"
    using assms(2) by (auto simp: bind_io_def preserves_def split: prod.splits sum.splits)
qed

lemma preserves_stmt:
  assumes "\<And>d x d'. I d \<Longrightarrow> f d = Inr (x, d') \<Longrightarrow> I d'"
  shows "preserves I (stmt f)"
  using assms by (auto simp: preserves_def stmt_def Let_def split: option.splits sum.splits)

lemma preserves_transaction:
  assumes "\<And>w x w'. I (db w) \<Longrightarrow> body w = (Inr (Commit x), w') \<Longrightarrow> I (db w')"
  shows "preserves I (transaction body)"
  unfolding preserves_def
proof (intro allI impI)
  fix w :: "'a world_scheme"
  assume I: "I (db w)"
  obtain r w' where run: "transaction body w = (r, w')" by fastforce
  show "I (db (snd (transaction body w)))"
  proof (cases r)
    case (Inl e)
    then show ?thesis using run I by (simp add: transaction_Inl)
  next
    case (Inr x)
    with run have "transaction body w = (Inr x, w')" by simp
    then show ?thesis
    proof (cases rule: transaction_Inr)
      case (commit w2)
      then show ?thesis using assms [OF _ commit(1)] I run by simp
    next
      case (abandon w2)
      then show ?thesis using I run by simp
    qed
  qed
qed

text \<open>The structural rules, for properties that hold at every point of an operation.\<close>

named_theorems pres_intros "which operations preserve a property of the tables"

lemma preserves_struct [pres_intros]:
  "preserves I (return_io x)" "preserves I (throw_io e)" "preserves I (check_io c)"
  "preserves I (read_io g)" "preserves I (query q)" "preserves I newID"
  by simp_all

lemma preserves_bind_io [pres_intros]: "preserves I m \<Longrightarrow> (\<And>x. preserves I (f x)) \<Longrightarrow> preserves I (bind_io m f)"
  by (rule preserves_bind)

lemma preserves_try [pres_intros]: "preserves I m \<Longrightarrow> preserves I (try_io m)"
  unfolding preserves_def try_io_def by (metis (no_types, lifting) case_prod_conv prod.collapse snd_conv)

lemma preserves_cases [pres_intros]:
  "preserves I m \<Longrightarrow> preserves I m' \<Longrightarrow> preserves I (if b then m else m')"
  "(\<And>a. preserves I (f a)) \<Longrightarrow> (\<And>a. preserves I (g a)) \<Longrightarrow> preserves I (case s of Inl a \<Rightarrow> f a | Inr a \<Rightarrow> g a)"
  "preserves I m \<Longrightarrow> (\<And>a. preserves I (h a)) \<Longrightarrow> preserves I (case oa of None \<Rightarrow> m | Some a \<Rightarrow> h a)"
  "(\<And>a b. preserves I (k a b)) \<Longrightarrow> preserves I (case p of (a, b) \<Rightarrow> k a b)"
  by (auto split: sum.splits option.splits prod.splits)

lemma preserves_transaction_body [pres_intros]:
  assumes "preserves I m"
  shows "preserves I (transaction m)"
  by (rule preserves_transaction) (metis assms preserves_def snd_conv)

section \<open>The clocks\<close>

text \<open>No operation moves a clock: within one call the code reads the time the world has.\<close>

definition keeps_time :: "('z world_scheme \<Rightarrow> (error + 'a) \<times> 'z world_scheme) \<Rightarrow> bool" where
  "keeps_time m \<longleftrightarrow> (\<forall>w. clk (snd (m w)) = clk w \<and> wall (snd (m w)) = wall w)"

named_theorems time_intros "which operations keep the clocks"

lemma keeps_timeD: "keeps_time m \<Longrightarrow> m w = (x, w') \<Longrightarrow> clk w' = clk w \<and> wall w' = wall w"
  by (metis keeps_time_def snd_conv)

lemma keeps_time_pure [time_intros]:
  "keeps_time (return_io x)" "keeps_time (throw_io e)" "keeps_time (check_io c)" "keeps_time (read_io g)"
  "keeps_time newID"
  by (auto simp: keeps_time_def io_defs newID_def split: option.splits)

lemma keeps_time_stmt [time_intros]: "keeps_time (stmt f)" "keeps_time (query g)"
  by (auto simp: keeps_time_def query_def stmt_def Let_def split: option.splits sum.splits)

lemma keeps_timeI: "(\<And>w x w'. m w = (x, w') \<Longrightarrow> clk w' = clk w \<and> wall w' = wall w) \<Longrightarrow> keeps_time m"
  by (simp add: keeps_time_def) (metis prod.collapse)

lemma keeps_time_bind [time_intros]:
  assumes m: "keeps_time m" and f: "\<And>x. keeps_time (f x)"
  shows "keeps_time (bind_io m f)"
proof (rule keeps_timeI)
  fix w x w' assume run: "bind_io m f w = (x, w')"
  obtain y w1 where one: "m w = (y, w1)" by fastforce
  show "clk w' = clk w \<and> wall w' = wall w"
    using run one keeps_timeD [OF m one] by (cases y) (auto simp: bind_io_def dest!: keeps_timeD [OF f])
qed

lemma keeps_time_try [time_intros]: "keeps_time m \<Longrightarrow> keeps_time (try_io m)"
  by (rule keeps_timeI) (auto simp: try_io_def dest: keeps_timeD split: prod.splits)

lemma keeps_time_cases [time_intros]:
  "keeps_time m \<Longrightarrow> keeps_time m' \<Longrightarrow> keeps_time (if b then m else m')"
  "(\<And>a. keeps_time (f a)) \<Longrightarrow> (\<And>a. keeps_time (g a)) \<Longrightarrow> keeps_time (case s of Inl a \<Rightarrow> f a | Inr a \<Rightarrow> g a)"
  "keeps_time m \<Longrightarrow> (\<And>a. keeps_time (h a)) \<Longrightarrow> keeps_time (case oa of None \<Rightarrow> m | Some a \<Rightarrow> h a)"
  "(\<And>a b. keeps_time (k a b)) \<Longrightarrow> keeps_time (case p of (a, b) \<Rightarrow> k a b)"
  by (auto split: sum.splits option.splits prod.splits)

lemma keeps_time_transaction [time_intros]:
  assumes "keeps_time m"
  shows "keeps_time (transaction m)"
  unfolding keeps_time_def
proof
  fix w :: "'a world_scheme"
  have s: "clk w2 = clk w1 \<and> wall w2 = wall w1" if "stmt (\<lambda>d. Inr ((), d)) w1 = (x, w2)"
    for w1 w2 :: "'a world_scheme" and x :: "error + unit"
    using keeps_timeD [OF keeps_time_stmt(1) that] .
  show "clk (snd (transaction m w)) = clk w \<and> wall (snd (transaction m w)) = wall w"
    using keeps_timeD [OF assms]
    by (auto simp: transaction_def split: prod.splits sum.splits txout.splits dest!: s)
qed

end
