(* ===== verification/Ledger.thy ===== *)
theory Ledger
  imports Store
begin

text \<open>
  The ledger of \<open>src/credits/ledger.go\<close>: \<open>Balance\<close>, \<open>Grant\<close>, \<open>Refund\<close>, \<open>adjust\<close>, and the variants \<open>GrantTx\<close>,
  \<open>RefundTx\<close>, \<open>adjustTx\<close> that join a transaction of the caller.

  Every operation that moves money pairs one appended ledger row with the same change of the materialised
  balance. \<open>posted\<close> is that paired write; \<open>ledger_inv\<close> (keys are unique, and every balance is the sum of the
  user's ledger rows) is shown once for \<open>posted\<close> and inherited by all the operations. The locale
  \<open>keyed_ledger\<close> is the contract the clients of the ledger (monthly grants, payments) rely on; it is interpreted
  on \<open>Grant\<close> and \<open>Refund\<close>.
\<close>

section \<open>Statements on the ledger tables\<close>

text \<open>\<open>INSERT INTO credit_transactions\<close>, with the table's primary key and unique column.\<close>

definition insert_ledger :: "ledger_row \<Rightarrow> database \<Rightarrow> error + (nat \<times> database)" where
  "insert_ledger t d =
     (if list_ex (\<lambda>x. t_id x = t_id t) (credit_transactions d)
      then Inl (SqlUnique ''credit_transactions.id'')
      else if t_idempotency_key t \<noteq> None
              \<and> list_ex (\<lambda>x. t_idempotency_key x = t_idempotency_key t) (credit_transactions d)
      then Inl (SqlUnique ''credit_transactions.idempotency_key'')
      else Inr (1, d\<lparr>credit_transactions := credit_transactions d @ [t]\<rparr>))"

text \<open>\<open>UPDATE credit_accounts SET balance = balance + ?, updated_at = ? WHERE user_id = ?\<close>.\<close>

definition bump_account :: "string \<Rightarrow> int \<Rightarrow> int \<Rightarrow> database \<Rightarrow> error + (nat \<times> database)" where
  "bump_account userID amount ts d =
     Inr (count_where (\<lambda>a. a_user_id a = userID) (credit_accounts d),
          d\<lparr>credit_accounts := update_where (\<lambda>a. a_user_id a = userID)
              (\<lambda>a. a\<lparr>a_balance := a_balance a + amount, a_updated_at := ts\<rparr>) (credit_accounts d)\<rparr>)"

text \<open>\<open>INSERT INTO credit_accounts ... ON CONFLICT(user_id) DO UPDATE SET balance = balance + excluded.balance\<close>.\<close>

definition upsert_account :: "string \<Rightarrow> int \<Rightarrow> int \<Rightarrow> database \<Rightarrow> error + (nat \<times> database)" where
  "upsert_account userID amount ts d =
     (if list_ex (\<lambda>a. a_user_id a = userID) (credit_accounts d) then bump_account userID amount ts d
      else Inr (1, d\<lparr>credit_accounts := credit_accounts d @
                        [\<lparr>a_user_id = userID, a_balance = amount, a_updated_at = ts\<rparr>]\<rparr>))"

section \<open>Operations\<close>

definition Balance :: "string \<Rightarrow> 'z world_scheme \<Rightarrow> (error + int) \<times> 'z world_scheme" where
  "Balance userID w =
     (case query (\<lambda>d. row_or_none (find (\<lambda>a. a_user_id a = userID) (credit_accounts d))) w of
        (Inl e, w') \<Rightarrow> (if e = ErrNoRows then Inr 0 else Inl e, w')
      | (Inr a, w') \<Rightarrow> (Inr (a_balance a), w'))"

text \<open>
  The statements of \<open>adjust\<close> between \<open>BeginTx\<close> and \<open>Commit\<close>, which are also those of \<open>adjustTx\<close> after its
  validation. The metadata is kept as the map that is marshalled.
\<close>

definition adjust_body ::
  "string \<Rightarrow> int \<Rightarrow> string \<Rightarrow> string \<Rightarrow> string \<Rightarrow> string \<Rightarrow> 'z world_scheme \<Rightarrow> (error + unit) \<times> 'z world_scheme" where
  "adjust_body userID amount source reason idempotencyKey typ =
     bind_io (query (\<lambda>d. Inr (count_where (\<lambda>t. t_idempotency_key t = Some idempotencyKey) (credit_transactions d))))
       (\<lambda>exists. if exists > 0 then throw_io ErrDuplicateGrant else
     bind_io newID (\<lambda>id.
     bind_io (read_io now) (\<lambda>ts.
     bind_io (stmt (insert_ledger
         \<lparr>t_id = id, t_user_id = userID, t_amount = amount, t_type = typ, t_source = source,
          t_reference_id = None, t_idempotency_key = Some idempotencyKey,
          t_metadata = Some [(''reason'', reason)], t_created_at = ts\<rparr>)) (\<lambda>n.
     if n = 0 then throw_io ErrDuplicateGrant else
     bind_io (stmt (upsert_account userID amount ts)) (\<lambda>_.
     return_io ())))))"

definition adjust_ids :: "string \<Rightarrow> string \<Rightarrow> string \<Rightarrow> string \<Rightarrow> (string \<times> string) list" where
  "adjust_ids userID source reason idempotencyKey =
     [(''user_id'', userID), (''source'', source), (''reason'', reason), (''idempotency_key'', idempotencyKey)]"

definition adjust ::
  "string \<Rightarrow> int \<Rightarrow> string \<Rightarrow> string \<Rightarrow> string \<Rightarrow> string \<Rightarrow> 'z world_scheme \<Rightarrow> (error + unit) \<times> 'z world_scheme" where
  "adjust userID amount source reason idempotencyKey typ =
     bind_io (read_io pick) (\<lambda>k.
     bind_io (check_io (requireAll k (adjust_ids userID source reason idempotencyKey))) (\<lambda>_.
     transaction (bind_io (adjust_body userID amount source reason idempotencyKey typ) (\<lambda>_.
       return_io (Commit ())))))"

definition adjustTx ::
  "string \<Rightarrow> int \<Rightarrow> string \<Rightarrow> string \<Rightarrow> string \<Rightarrow> string \<Rightarrow> 'z world_scheme \<Rightarrow> (error + unit) \<times> 'z world_scheme" where
  "adjustTx userID amount source reason idempotencyKey typ =
     bind_io (read_io pick) (\<lambda>k.
     bind_io (check_io (requireAll k (adjust_ids userID source reason idempotencyKey))) (\<lambda>_.
     adjust_body userID amount source reason idempotencyKey typ))"

definition Grant ::
  "string \<Rightarrow> int \<Rightarrow> string \<Rightarrow> string \<Rightarrow> string \<Rightarrow> 'z world_scheme \<Rightarrow> (error + unit) \<times> 'z world_scheme" where
  "Grant userID amount source reason idempotencyKey =
     (if amount \<le> 0 then throw_io (ErrMsg ''credits: grant amount must be > 0'')
      else adjust userID amount source reason idempotencyKey ''grant'')"

definition Refund ::
  "string \<Rightarrow> int \<Rightarrow> string \<Rightarrow> string \<Rightarrow> string \<Rightarrow> 'z world_scheme \<Rightarrow> (error + unit) \<times> 'z world_scheme" where
  "Refund userID amount source reason idempotencyKey =
     (if amount \<le> 0 then throw_io (ErrMsg ''credits: refund amount must be > 0'')
      else adjust userID (wrap64 (- amount)) source reason idempotencyKey ''refund'')"

definition GrantTx ::
  "string \<Rightarrow> int \<Rightarrow> string \<Rightarrow> string \<Rightarrow> string \<Rightarrow> 'z world_scheme \<Rightarrow> (error + unit) \<times> 'z world_scheme" where
  "GrantTx userID amount source reason idempotencyKey =
     (if amount \<le> 0 then throw_io (ErrMsg ''credits: grant amount must be > 0'')
      else adjustTx userID amount source reason idempotencyKey ''grant'')"

definition RefundTx ::
  "string \<Rightarrow> int \<Rightarrow> string \<Rightarrow> string \<Rightarrow> string \<Rightarrow> 'z world_scheme \<Rightarrow> (error + unit) \<times> 'z world_scheme" where
  "RefundTx userID amount source reason idempotencyKey =
     (if amount \<le> 0 then throw_io (ErrMsg ''credits: refund amount must be > 0'')
      else adjustTx userID (wrap64 (- amount)) source reason idempotencyKey ''refund'')"

section \<open>Balances, sums and the paired write\<close>

definition balance_of :: "database \<Rightarrow> string \<Rightarrow> int" where
  "balance_of d u = (case find (\<lambda>a. a_user_id a = u) (credit_accounts d) of None \<Rightarrow> 0 | Some a \<Rightarrow> a_balance a)"

definition ledger_sum :: "database \<Rightarrow> string \<Rightarrow> int" where
  "ledger_sum d u = sum_where (\<lambda>t. t_user_id t = u) t_amount (credit_transactions d)"

definition has_account :: "database \<Rightarrow> string \<Rightarrow> bool" where
  "has_account d u \<longleftrightarrow> list_ex (\<lambda>a. a_user_id a = u) (credit_accounts d)"

definition key_used :: "database \<Rightarrow> string \<Rightarrow> bool" where
  "key_used d k \<longleftrightarrow> list_ex (\<lambda>t. t_idempotency_key t = Some k) (credit_transactions d)"

definition ledger_wf :: "database \<Rightarrow> bool" where
  "ledger_wf d \<longleftrightarrow>
     distinct (map a_user_id (credit_accounts d)) \<and> distinct (map t_id (credit_transactions d)) \<and>
     distinct (List.map_filter t_idempotency_key (credit_transactions d))"

definition ledger_inv :: "database \<Rightarrow> bool" where
  "ledger_inv d \<longleftrightarrow> ledger_wf d \<and> (\<forall>u. balance_of d u = ledger_sum d u)"

definition add_balance :: "string \<Rightarrow> int \<Rightarrow> int \<Rightarrow> account_row list \<Rightarrow> account_row list" where
  "add_balance u amount ts as =
     (if list_ex (\<lambda>a. a_user_id a = u) as
      then update_where (\<lambda>a. a_user_id a = u) (\<lambda>a. a\<lparr>a_balance := a_balance a + amount, a_updated_at := ts\<rparr>) as
      else as @ [\<lparr>a_user_id = u, a_balance = amount, a_updated_at = ts\<rparr>])"

definition posted :: "ledger_row \<Rightarrow> int \<Rightarrow> database \<Rightarrow> database" where
  "posted t ts d =
     d\<lparr>credit_transactions := credit_transactions d @ [t],
       credit_accounts := add_balance (t_user_id t) (t_amount t) ts (credit_accounts d)\<rparr>"

definition fresh_row :: "ledger_row \<Rightarrow> database \<Rightarrow> bool" where
  "fresh_row t d \<longleftrightarrow>
     (\<forall>x \<in> set (credit_transactions d). t_id x \<noteq> t_id t) \<and>
     (case t_idempotency_key t of None \<Rightarrow> True | Some k \<Rightarrow> \<not> key_used d k)"


lemma insert_ledger_Inr:
  "insert_ledger t d = Inr (n, d') \<longleftrightarrow>
     fresh_row t d \<and> n = 1 \<and> d' = d\<lparr>credit_transactions := credit_transactions d @ [t]\<rparr>"
  by (cases "t_idempotency_key t")
    (auto simp: insert_ledger_def fresh_row_def key_used_def list_ex_iff)

lemma upsert_account_Inr:
  "upsert_account u a ts d = Inr (n, d') \<Longrightarrow>
     d' = d\<lparr>credit_accounts := add_balance u a ts (credit_accounts d)\<rparr>"
  by (auto simp: upsert_account_def bump_account_def add_balance_def split: if_splits)

lemma bump_account_Inr:
  "bump_account u a ts d = Inr (n, d') \<Longrightarrow> has_account d u \<Longrightarrow>
     d' = d\<lparr>credit_accounts := add_balance u a ts (credit_accounts d)\<rparr>"
  by (auto simp: bump_account_def add_balance_def has_account_def)

lemma find_add_balance:
  "find (\<lambda>a. a_user_id a = v) (add_balance u n ts as) =
     (case find (\<lambda>a. a_user_id a = v) as of
        Some a \<Rightarrow> Some (if v = u then a\<lparr>a_balance := a_balance a + n, a_updated_at := ts\<rparr> else a)
      | None \<Rightarrow> if v = u then Some \<lparr>a_user_id = u, a_balance = n, a_updated_at = ts\<rparr> else None)"
proof (cases "list_ex (\<lambda>a. a_user_id a = u) as")
  case True
  then have "v = u \<Longrightarrow> find (\<lambda>a. a_user_id a = v) as \<noteq> None"
    by (auto simp: list_ex_iff find_None_iff)
  then show ?thesis
    using True by (auto simp: add_balance_def find_update_where dest: find_SomeD split: option.splits)
next
  case False
  then have "find (\<lambda>a. a_user_id a = u) as = None"
    by (auto simp: list_ex_iff find_None_iff)
  with False show ?thesis
    by (auto simp: add_balance_def dest: find_SomeD split: option.splits)
qed

lemma set_add_balance_ids: "a_user_id ` set (add_balance u n ts as) = insert u (a_user_id ` set as)"
proof -
  have "map a_user_id (add_balance u n ts as) =
        map a_user_id as @ (if list_ex (\<lambda>a. a_user_id a = u) as then [] else [u])"
    by (simp add: add_balance_def map_update_where)
  then have "set (map a_user_id (add_balance u n ts as)) = insert u (a_user_id ` set as)"
    by (auto simp: list_ex_iff)
  then show ?thesis by simp
qed

lemma distinct_add_balance:
  "distinct (map a_user_id as) \<Longrightarrow> distinct (map a_user_id (add_balance u n ts as))"
  by (auto simp: add_balance_def map_update_where list_ex_iff)

lemma has_account_iff: "has_account d u \<longleftrightarrow> u \<in> a_user_id ` set (credit_accounts d)"
  by (auto simp: has_account_def list_ex_iff)

lemma key_used_iff: "key_used d k \<longleftrightarrow> k \<in> set (List.map_filter t_idempotency_key (credit_transactions d))"
  by (force simp: key_used_def list_ex_iff List.map_filter_def)

lemma posted_simps [simp]:
  "credit_transactions (posted t ts d) = credit_transactions d @ [t]"
  "credit_reservations (posted t ts d) = credit_reservations d"
  "llm_usage (posted t ts d) = llm_usage d"
  "byok_credentials (posted t ts d) = byok_credentials d"
  "subscriptions (posted t ts d) = subscriptions d"
  "settlement_outbox (posted t ts d) = settlement_outbox d"
  "payment_purchases (posted t ts d) = payment_purchases d"
  "payment_events (posted t ts d) = payment_events d"
  "payment_subscriptions (posted t ts d) = payment_subscriptions d"
  "table_columns (posted t ts d) = table_columns d" "table_indexes (posted t ts d) = table_indexes d"
  "credits_schema_migrations (posted t ts d) = credits_schema_migrations d"
  "payments_schema_migrations (posted t ts d) = payments_schema_migrations d"
  by (simp_all add: posted_def)

lemma balance_of_posted [simp]:
  "balance_of (posted t ts d) u = balance_of d u + (if u = t_user_id t then t_amount t else 0)"
  by (auto simp: balance_of_def posted_def find_add_balance split: option.splits)

lemma ledger_sum_posted [simp]:
  "ledger_sum (posted t ts d) u = ledger_sum d u + (if u = t_user_id t then t_amount t else 0)"
  by (auto simp: ledger_sum_def)

lemma has_account_posted [simp]: "has_account (posted t ts d) u \<longleftrightarrow> u = t_user_id t \<or> has_account d u"
  by (auto simp: has_account_iff posted_def set_add_balance_ids)

lemma key_used_posted [simp]:
  "key_used (posted t ts d) k \<longleftrightarrow> t_idempotency_key t = Some k \<or> key_used d k"
  by (auto simp: key_used_def)

lemma ledger_wf_posted: "ledger_wf d \<Longrightarrow> fresh_row t d \<Longrightarrow> ledger_wf (posted t ts d)"
  by (auto simp: ledger_wf_def fresh_row_def key_used_iff posted_def distinct_add_balance
      List.map_filter_def split: option.splits)

lemma ledger_inv_posted: "ledger_inv d \<Longrightarrow> fresh_row t d \<Longrightarrow> ledger_inv (posted t ts d)"
  by (auto simp: ledger_inv_def ledger_wf_posted)

lemma ledger_inv_empty: "ledger_inv empty_db"
  by (simp add: ledger_inv_def ledger_wf_def balance_of_def ledger_sum_def empty_db_def)

section \<open>What the operations do\<close>

definition adjust_row ::
  "string \<Rightarrow> int \<Rightarrow> string \<Rightarrow> string \<Rightarrow> string \<Rightarrow> string \<Rightarrow> 'z world_scheme \<Rightarrow> ledger_row" where
  "adjust_row userID amount source reason idempotencyKey typ w =
     \<lparr>t_id = hex_encode (take randomIDBytes (rnd w)), t_user_id = userID, t_amount = amount, t_type = typ,
      t_source = source, t_reference_id = None, t_idempotency_key = Some idempotencyKey,
      t_metadata = Some [(''reason'', reason)], t_created_at = now w\<rparr>"

lemma adjust_row_simps [simp]:
  "t_user_id (adjust_row u n src rsn k typ w) = u" "t_amount (adjust_row u n src rsn k typ w) = n"
  "t_type (adjust_row u n src rsn k typ w) = typ" "t_reference_id (adjust_row u n src rsn k typ w) = None"
  "t_idempotency_key (adjust_row u n src rsn k typ w) = Some k"
  "adjust_row u n src rsn k typ (w\<lparr>faults := fs\<rparr>) = adjust_row u n src rsn k typ w"
  by (simp_all add: adjust_row_def)

lemma adjust_body_Inr:
  assumes "adjust_body u n src rsn k typ w = (Inr x, w')"
  shows "fresh_row (adjust_row u n src rsn k typ w) (db w) \<and>
         db w' = posted (adjust_row u n src rsn k typ w) (now w) (db w)"
  using assms
  by (auto simp: adjust_body_def io_inv insert_ledger_Inr adjust_row_def posted_def fresh_row_def key_used_def
      dest!: upsert_account_Inr split: if_splits)

lemma adjust_Inr:
  assumes "adjust u n src rsn k typ w = (Inr x, w')"
  shows "fresh_row (adjust_row u n src rsn k typ w) (db w) \<and>
         db w' = posted (adjust_row u n src rsn k typ w) (now w) (db w)"
proof -
  from assms have "transaction (bind_io (adjust_body u n src rsn k typ) (\<lambda>_. return_io (Commit ()))) w = (Inr x, w')"
    by (auto simp: adjust_def io_inv)
  then show ?thesis
    by (cases rule: transaction_Inr) (auto simp: io_inv dest!: adjust_body_Inr)
qed

lemma adjust_Inl: "adjust u n src rsn k typ w = (Inl e, w') \<Longrightarrow> db w' = db w"
  by (auto simp: adjust_def io_defs dest: transaction_Inl split: option.splits)


lemma Grant_Inl: "Grant u n src rsn k w = (Inl e, w') \<Longrightarrow> db w' = db w"
  by (auto simp: Grant_def throw_io_def dest: adjust_Inl split: if_splits)

lemma Refund_Inl: "Refund u n src rsn k w = (Inl e, w') \<Longrightarrow> db w' = db w"
  by (auto simp: Refund_def throw_io_def dest: adjust_Inl split: if_splits)

lemma Grant_Inr:
  "Grant u n src rsn k w = (Inr x, w') \<Longrightarrow>
     0 < n \<and> fresh_row (adjust_row u n src rsn k ''grant'' w) (db w) \<and>
     db w' = posted (adjust_row u n src rsn k ''grant'' w) (now w) (db w)"
  by (auto simp: Grant_def throw_io_def dest: adjust_Inr split: if_splits)

lemma Refund_Inr:
  "Refund u n src rsn k w = (Inr x, w') \<Longrightarrow>
     0 < n \<and> fresh_row (adjust_row u (wrap64 (- n)) src rsn k ''refund'' w) (db w) \<and>
     db w' = posted (adjust_row u (wrap64 (- n)) src rsn k ''refund'' w) (now w) (db w)"
  by (auto simp: Refund_def throw_io_def dest: adjust_Inr split: if_splits)

lemmas money_op_cases = Grant_Inl Grant_Inr Refund_Inl Refund_Inr

text \<open>An operation that either leaves the tables alone or posts one fresh row keeps what \<open>posted\<close> keeps.\<close>

lemma preserves_posting:
  fixes m :: "'a world_scheme \<Rightarrow> (error + 'b) \<times> 'a world_scheme"
  assumes "\<And>w e w'. m w = (Inl e, w') \<Longrightarrow> db w' = db w"
    and "\<And>w x w'. m w = (Inr x, w') \<Longrightarrow> \<exists>t ts. fresh_row t (db w) \<and> Q t (db w) \<and> db w' = posted t ts (db w)"
    and "\<And>d t ts. I d \<Longrightarrow> fresh_row t d \<Longrightarrow> Q t d \<Longrightarrow> I (posted t ts d)"
  shows "preserves I m"
  unfolding preserves_def
proof (intro allI impI)
  fix w :: "'a world_scheme"
  assume I: "I (db w)"
  obtain r w' where run: "m w = (r, w')" by fastforce
  show "I (db (snd (m w)))"
  proof (cases r)
    case (Inl e)
    then show ?thesis using run I assms(1) by fastforce
  next
    case (Inr x)
    then show ?thesis using run I assms(2) [of w x w'] assms(3) by auto
  qed
qed

lemma Grant_preserves:
  assumes "\<And>d t ts. I d \<Longrightarrow> fresh_row t d \<Longrightarrow> t_reference_id t = None \<Longrightarrow> I (posted t ts d)"
  shows "preserves I (Grant u n src rsn k)"
  by (rule preserves_posting [where Q = "\<lambda>t d. t_reference_id t = None"])
    (use assms in \<open>force dest: Grant_Inl Grant_Inr\<close>)+

lemma Refund_preserves:
  assumes "\<And>d t ts. I d \<Longrightarrow> fresh_row t d \<Longrightarrow> t_reference_id t = None \<Longrightarrow> I (posted t ts d)"
  shows "preserves I (Refund u n src rsn k)"
  by (rule preserves_posting [where Q = "\<lambda>t d. t_reference_id t = None"])
    (use assms in \<open>force dest: Refund_Inl Refund_Inr\<close>)+

lemma adjust_body_dup: "key_used (db w) k \<Longrightarrow> \<exists>e. fst (adjust_body u n src rsn k typ w) = Inl e"
  by (cases "adjust_body u n src rsn k typ w", cases "fst (adjust_body u n src rsn k typ w)")
    (auto dest!: adjust_body_Inr simp: fresh_row_def)

text \<open>The fault-free run, branch by branch.\<close>

lemma adjust_body_ok:
  assumes "faults w = []" "randomIDBytes \<le> length (rnd w)"
    and "\<forall>x \<in> set (credit_transactions (db w)). t_id x \<noteq> hex_encode (take randomIDBytes (rnd w))"
  shows "adjust_body u n src rsn k typ w =
     (if key_used (db w) k then (Inl ErrDuplicateGrant, w)
      else (Inr (), w\<lparr>rnd := drop randomIDBytes (rnd w),
                      db := posted (adjust_row u n src rsn k typ w) (now w) (db w)\<rparr>))"
proof -
  let ?t = "adjust_row u n src rsn k typ w"
  let ?d = "db w\<lparr>credit_transactions := credit_transactions (db w) @ [?t]\<rparr>"
  have cnt: "0 < count_where (\<lambda>t. t_idempotency_key t = Some k) (credit_transactions (db w)) \<longleftrightarrow> key_used (db w) k"
    by (auto simp: key_used_def list_ex_iff)
  show ?thesis
  proof (cases "key_used (db w) k")
    case True
    then show ?thesis using assms(1) cnt by (simp add: adjust_body_def io_ok)
  next
    case False
    then have "fresh_row ?t (db w)" using assms by (auto simp: fresh_row_def adjust_row_def)
    then have ins: "insert_ledger ?t (db w) = Inr (1, ?d)" by (simp add: insert_ledger_Inr)
    have "\<exists>m. upsert_account u n (now w) ?d = Inr (m, ?d\<lparr>credit_accounts := add_balance u n (now w) (credit_accounts ?d)\<rparr>)"
      by (auto simp: upsert_account_def bump_account_def add_balance_def)
    then obtain m where m: "upsert_account u n (now w) ?d = Inr (m, posted ?t (now w) (db w))" by (auto simp: posted_def)
    show ?thesis using False assms(1,2) cnt ins m by (simp add: adjust_body_def io_ok newID_def adjust_row_def [symmetric])
  qed
qed

lemma adjust_ok:
  assumes "faults w = []" "valid_id u" "valid_id src" "valid_id rsn" "valid_id k"
    and "randomIDBytes \<le> length (rnd w)"
    and "\<forall>x \<in> set (credit_transactions (db w)). t_id x \<noteq> hex_encode (take randomIDBytes (rnd w))"
  shows "adjust u n src rsn k typ w = (if key_used (db w) k then (Inl ErrDuplicateGrant, w)
      else (Inr (), w\<lparr>rnd := drop randomIDBytes (rnd w), db := posted (adjust_row u n src rsn k typ w) (now w) (db w)\<rparr>))"
      (is "_ = ?y")
    and "adjustTx u n src rsn k typ w = (if key_used (db w) k then (Inl ErrDuplicateGrant, w)
      else (Inr (), w\<lparr>rnd := drop randomIDBytes (rnd w), db := posted (adjust_row u n src rsn k typ w) (now w) (db w)\<rparr>))"
proof -
  have ids: "requireAll (pick w) (adjust_ids u src rsn k) = None"
    using assms by (simp add: adjust_ids_def requireAll_None)
  note body = adjust_body_ok [OF assms(1,6,7), of u n src rsn k "typ"]
  show "adjust u n src rsn k typ w = ?y" using assms(1) ids body by (simp add: adjust_def io_ok)
  show "adjustTx u n src rsn k typ w = ?y" using ids body by (simp add: adjustTx_def io_ok)
qed

section \<open>The contract of an idempotent ledger operation\<close>

text \<open>
  What the clients of the ledger rely on: an operation that carries an idempotency key either fails and
  changes no table, or succeeds, which it does only for an unused key, and then uses the key up and moves the
  user's balance by the operation's effect. \<open>replay\<close> runs an operation in a sequence of worlds (retries after
  faults, redeliveries, restarts) over one database.
\<close>

definition replay :: "(world \<Rightarrow> (error + 'a) \<times> world) \<Rightarrow> world list \<Rightarrow> database \<Rightarrow> database" where
  "replay m ws d = fold (\<lambda>w d. db (snd (m (w\<lparr>db := d\<rparr>)))) ws d"

lemma replay_simps [simp]:
  "replay m [] d = d"
  "replay m (w # ws) d = replay m ws (db (snd (m (w\<lparr>db := d\<rparr>))))"
  by (simp_all add: replay_def)

locale keyed_ledger =
  fixes act :: "string \<Rightarrow> int \<Rightarrow> string \<Rightarrow> string \<Rightarrow> string \<Rightarrow> world \<Rightarrow> (error + unit) \<times> world"
    and effect :: "int \<Rightarrow> int"
  assumes act_Inr: "act u n src rsn k w = (Inr x, w') \<Longrightarrow>
      \<not> key_used (db w) k \<and> key_used (db w') k \<and>
      balance_of (db w') v = balance_of (db w) v + (if v = u then effect n else 0)"
    and act_Inl: "act u n src rsn k w = (Inl e, w') \<Longrightarrow> db w' = db w"
begin

lemma act_used:
  assumes "key_used (db w) k"
  shows "db (snd (act u n src rsn k w)) = db w"
proof (cases "act u n src rsn k w")
  case (Pair r w')
  show ?thesis
  proof (cases r)
    case (Inl e)
    with Pair show ?thesis by (simp add: act_Inl)
  next
    case (Inr x)
    with Pair assms show ?thesis using act_Inr [of u n src rsn k w x w' u] by simp
  qed
qed

lemma replay_used: "key_used d k \<Longrightarrow> replay (act u n src rsn k) ws d = d"
  by (induction ws) (simp_all add: act_used)

lemma replay_once:
  assumes "\<not> key_used d k"
  shows "replay (act u n src rsn k) ws d = d \<or>
         (key_used (replay (act u n src rsn k) ws d) k \<and>
          (\<forall>v. balance_of (replay (act u n src rsn k) ws d) v = balance_of d v + (if v = u then effect n else 0)))"
  using assms
proof (induction ws)
  case (Cons w ws)
  obtain r w' where run: "act u n src rsn k (w\<lparr>db := d\<rparr>) = (r, w')" by fastforce
  show ?case
  proof (cases r)
    case (Inl e)
    then show ?thesis using Cons run by (simp add: act_Inl)
  next
    case (Inr x)
    then show ?thesis
      using run act_Inr [of u n src rsn k "w\<lparr>db := d\<rparr>" x w'] by (simp add: replay_used)
  qed
qed simp

end

interpretation grant: keyed_ledger Grant "\<lambda>n. n"
  by unfold_locales (auto dest: Grant_Inl Grant_Inr simp: fresh_row_def)

interpretation refund: keyed_ledger Refund "\<lambda>n. wrap64 (- n)"
  by unfold_locales (auto dest: Refund_Inl Refund_Inr simp: fresh_row_def)

section \<open>Properties\<close>

text \<open>C14: whatever statement the driver fails, \<open>Grant\<close> either returns an error and leaves every table as it was,
  or succeeds: the amount was positive, the key had never been used, exactly one ledger row of type \<open>grant\<close>
  carrying the key was appended, the user's balance rose by the amount and every other balance is unchanged.\<close>

theorem Grant_all_or_nothing:
  "case Grant u n src rsn k w of
     (Inl e, w') \<Rightarrow> db w' = db w
   | (Inr _, w') \<Rightarrow>
       0 < n \<and> \<not> key_used (db w) k \<and>
       (\<exists>t. credit_transactions (db w') = credit_transactions (db w) @ [t] \<and> t_user_id t = u \<and> t_amount t = n \<and>
            t_type t = ''grant'' \<and> t_idempotency_key t = Some k) \<and>
       (\<forall>v. balance_of (db w') v = balance_of (db w) v + (if v = u then n else 0))"
  by (auto split: prod.splits sum.splits dest!: Grant_Inl Grant_Inr simp: fresh_row_def)

text \<open>With no fault and enough randomness, \<open>Grant\<close> with valid identifiers and a positive amount returns
  \<open>ErrDuplicateGrant\<close> and changes nothing if the key was used before, and otherwise succeeds with the credited
  balance; an amount that is not positive is refused.\<close>

theorem Grant_branches:
  assumes "faults w = []" "valid_id u" "valid_id src" "valid_id rsn" "valid_id k"
    and "randomIDBytes \<le> length (rnd w)"
    and "\<forall>x \<in> set (credit_transactions (db w)). t_id x \<noteq> hex_encode (take randomIDBytes (rnd w))"
  shows "(n \<le> 0 \<longrightarrow> Grant u n src rsn k w = (Inl (ErrMsg ''credits: grant amount must be > 0''), w)) \<and>
         (0 < n \<and> key_used (db w) k \<longrightarrow> Grant u n src rsn k w = (Inl ErrDuplicateGrant, w)) \<and>
         (0 < n \<and> \<not> key_used (db w) k \<longrightarrow>
            fst (Grant u n src rsn k w) = Inr () \<and>
            balance_of (db (snd (Grant u n src rsn k w))) u = balance_of (db w) u + n)"
  using adjust_ok(1) [OF assms] by (simp add: Grant_def throw_io_def)

text \<open>A world to run examples in: the given tables, 64 random bytes, both clocks at 2026-08-15 00:00 UTC.\<close>

definition sample_world :: "database \<Rightarrow> world" where
  "sample_world d = \<lparr>db = d, rnd = map char_of [0 ..< 64 :: nat], clk = 1786752000000000000,
     wall = 1786752000000000000, faults = [], pick = 0\<rparr>"

lemma sample_world_simps [simp]:
  "db (sample_world d) = d" "faults (sample_world d) = []" "clk (sample_world d) = 1786752000000000000"
  "wall (sample_world d) = 1786752000000000000" "length (rnd (sample_world d)) = 64"
  by (simp_all add: sample_world_def)

lemma valid_sample_ids: "valid_id ''u1''" "valid_id ''signup''" "valid_id ''welcome''" "valid_id ''signup:u1''" "valid_id ''req-1''"
  by (code_simp, code_simp, code_simp, code_simp, code_simp)

lemma empty_db_simps [simp]:
  "credit_transactions empty_db = []" "credit_accounts empty_db = []" "credit_reservations empty_db = []"
  "llm_usage empty_db = []" "subscriptions empty_db = []" "settlement_outbox empty_db = []"
  "byok_credentials empty_db = []" "payment_purchases empty_db = []" "payment_events empty_db = []"
  "payment_subscriptions empty_db = []"
  "key_used empty_db k = False" "balance_of empty_db u = 0"
  by (simp_all add: empty_db_def key_used_def balance_of_def)

theorem Grant_branches_witness:
  "fst (Grant ''u1'' 1000 ''signup'' ''welcome'' ''signup:u1'' (sample_world empty_db)) = Inr () \<and>
   balance_of (db (snd (Grant ''u1'' 1000 ''signup'' ''welcome'' ''signup:u1'' (sample_world empty_db)))) ''u1'' = 1000"
  using Grant_branches [of "sample_world empty_db" "''u1''" "''signup''" "''welcome''" "''signup:u1''" 1000] valid_sample_ids
  by (simp add: randomIDBytes_def)

text \<open>A grant is applied at most once per idempotency key. Over any number of attempts with an unused key, in
  any worlds (faults, restarts, different clocks and random bytes), either no attempt took effect and the
  database is untouched, or the balance moved by exactly one grant; once the key is used, replaying changes
  nothing.\<close>

theorem Grant_at_most_once:
  "let d' = replay (Grant u n src rsn k) ws d
   in if key_used d k then d' = d
      else d' = d \<or> (key_used d' k \<and> (\<forall>v. balance_of d' v = balance_of d v + (if v = u then n else 0)))"
  using grant.replay_used [of d k] grant.replay_once [of d k] by (simp add: Let_def)

text \<open>\<open>Refund\<close> has the same guarantee: over any number of attempts with one key the balance drops by at most
  one refund of the (64-bit) amount.\<close>

theorem Refund_at_most_once:
  assumes "0 < n" "n \<le> max_int64"
  shows "let d' = replay (Refund u n src rsn k) ws d
         in if key_used d k then d' = d
            else d' = d \<or> (key_used d' k \<and> (\<forall>v. balance_of d' v = balance_of d v - (if v = u then n else 0)))"
proof -
  have "wrap64 (- n) = - n" using assms by (intro wrap64_id) (simp add: in64_def max_int64_def)
  then show ?thesis
    using refund.replay_used [of d k] refund.replay_once [of d k u n src rsn ws]
    by (auto simp: Let_def)
qed

theorem Refund_at_most_once_witness:
  "let d' = replay (Refund ''u1'' 300 ''stripe'' ''chargeback'' ''rf:1'') [sample_world empty_db, sample_world empty_db] empty_db
   in d' = empty_db \<or> (key_used d' ''rf:1'' \<and> (\<forall>v. balance_of d' v = (if v = ''u1'' then - 300 else 0)))"
  using Refund_at_most_once [of 300 "''u1''" "''stripe''" "''chargeback''" "''rf:1''"
      "[sample_world empty_db, sample_world empty_db]" empty_db]
  by (auto simp: Let_def max_int64_def)

text \<open>As long as the ledger invariant holds, \<open>Balance\<close> without faults returns the sum of the user's ledger
  rows, zero for a user who was never granted anything, and does not change the world.\<close>

theorem Balance_is_ledger_sum:
  assumes "ledger_inv (db w)" "faults w = []"
  shows "Balance u w = (Inr (ledger_sum (db w) u), w)"
proof -
  have "Balance u w = (Inr (balance_of (db w) u), w)"
    using assms(2)
    by (auto simp: Balance_def query_ok row_or_none_def balance_of_def split: option.splits)
  then show ?thesis using assms(1) by (simp add: ledger_inv_def)
qed

theorem Balance_is_ledger_sum_witness:
  "Balance ''u1'' (sample_world empty_db) = (Inr (ledger_sum (db (sample_world empty_db)) ''u1''), sample_world empty_db)"
  by (rule Balance_is_ledger_sum) (simp_all add: ledger_inv_empty)

end
