(* ===== verification/Reservations.thy ===== *)
theory Reservations
  imports Ledger
begin

text \<open>
  The reservations of \<open>src/credits/reservation.go\<close>: \<open>Reserve\<close> (with \<open>lookupReservation\<close> and \<open>debitReservation\<close>),
  \<open>Settle\<close> and \<open>Release\<close> (with \<open>finalize\<close>, \<open>loadOutcome\<close>, \<open>outcome\<close>, \<open>writeReturn\<close>).

  \<open>finalize\<close> writes through the caller's \<open>*Reservation\<close>, even on some error paths, so it runs in a world that
  carries that struct (\<open>call_world\<close>); \<open>Settle\<close> and \<open>Release\<close> return the struct the caller is left with.

  The invariant \<open>resv_inv\<close> ties every reservation to the ledger: the ledger rows that reference it sum to minus
  what it currently costs the user, which is the whole amount while it is reserved, the captured cost once it
  is settled, and nothing once it is released or expired.
\<close>

definition reservationStatusReserved :: string where "reservationStatusReserved = ''reserved''"
definition reservationStatusCaptured :: string where "reservationStatusCaptured = ''captured''"
definition reservationStatusReleased :: string where "reservationStatusReleased = ''released''"
definition reservationStatusExpired :: string where "reservationStatusExpired = ''expired''"

lemmas status_defs = reservationStatusReserved_def reservationStatusCaptured_def
  reservationStatusReleased_def reservationStatusExpired_def

lemma status_distinct [simp]:
  "reservationStatusReserved \<noteq> reservationStatusCaptured" "reservationStatusCaptured \<noteq> reservationStatusReserved"
  "reservationStatusReserved \<noteq> reservationStatusReleased" "reservationStatusReleased \<noteq> reservationStatusReserved"
  "reservationStatusReserved \<noteq> reservationStatusExpired" "reservationStatusExpired \<noteq> reservationStatusReserved"
  "reservationStatusCaptured \<noteq> reservationStatusReleased" "reservationStatusReleased \<noteq> reservationStatusCaptured"
  "reservationStatusCaptured \<noteq> reservationStatusExpired" "reservationStatusExpired \<noteq> reservationStatusCaptured"
  "reservationStatusReleased \<noteq> reservationStatusExpired" "reservationStatusExpired \<noteq> reservationStatusReleased"
  by (simp_all add: status_defs)

section \<open>Reserve\<close>

text \<open>\<open>UPDATE credit_accounts SET balance = balance - ? WHERE user_id = ? AND balance - ? >= 0\<close>.\<close>

definition debit_account :: "string \<Rightarrow> int \<Rightarrow> int \<Rightarrow> database \<Rightarrow> error + (nat \<times> database)" where
  "debit_account userID amount ts d =
     (let p = (\<lambda>a. a_user_id a = userID \<and> a_balance a - amount \<ge> 0)
      in Inr (count_where p (credit_accounts d),
              d\<lparr>credit_accounts := update_where p
                  (\<lambda>a. a\<lparr>a_balance := a_balance a - amount, a_updated_at := ts\<rparr>) (credit_accounts d)\<rparr>))"

text \<open>\<open>INSERT INTO credit_reservations\<close>, with its primary key and unique column.\<close>

definition insert_reservation :: "Reservation \<Rightarrow> database \<Rightarrow> error + (nat \<times> database)" where
  "insert_reservation r d =
     (if list_ex (\<lambda>x. r_ID x = r_ID r) (credit_reservations d) then Inl (SqlUnique ''credit_reservations.id'')
      else if list_ex (\<lambda>x. r_RequestID x = r_RequestID r) (credit_reservations d)
      then Inl (SqlUnique ''credit_reservations.request_id'')
      else Inr (1, d\<lparr>credit_reservations := credit_reservations d @ [r]\<rparr>))"

definition lookupReservation :: "string \<Rightarrow> 'z world_scheme \<Rightarrow> (error + Reservation) \<times> 'z world_scheme" where
  "lookupReservation requestID =
     query (\<lambda>d. row_or_none (find (\<lambda>r. r_RequestID r = requestID) (credit_reservations d)))"

definition new_reservation :: "string \<Rightarrow> string \<Rightarrow> string \<Rightarrow> int \<Rightarrow> int \<Rightarrow> Reservation" where
  "new_reservation rid userID requestID amount ts =
     \<lparr>r_ID = rid, r_UserID = userID, r_RequestID = requestID, r_Amount = amount, r_Captured = 0, r_Released = 0,
      r_Status = reservationStatusReserved, r_CreatedAt = ts, r_UpdatedAt = ts\<rparr>"

definition debitReservation ::
  "string \<Rightarrow> string \<Rightarrow> string \<Rightarrow> int \<Rightarrow> int \<Rightarrow> 'z world_scheme \<Rightarrow> (error + unit) \<times> 'z world_scheme" where
  "debitReservation rid userID requestID amount ts =
     bind_io (stmt (debit_account userID amount ts)) (\<lambda>n.
     if n = 0 then throw_io ErrInsufficientCredits else
     bind_io (stmt (insert_reservation (new_reservation rid userID requestID amount ts))) (\<lambda>_.
     bind_io (stmt (insert_ledger
       \<lparr>t_id = rid @ ''-x'', t_user_id = userID, t_amount = wrap64 (- amount), t_type = ''reservation'',
        t_source = ''llm_reserve'', t_reference_id = Some rid, t_idempotency_key = Some (''resv:'' @ requestID),
        t_metadata = None, t_created_at = ts\<rparr>)) (\<lambda>_.
     return_io ())))"

text \<open>The transaction of \<open>Reserve\<close>: the existing reservation for the request id, or a fresh one.\<close>

definition reserve_tx :: "string \<Rightarrow> string \<Rightarrow> int \<Rightarrow> 'z world_scheme \<Rightarrow> (error + Reservation txout) \<times> 'z world_scheme" where
  "reserve_tx userID requestID amount =
     bind_io (try_io (lookupReservation requestID)) (\<lambda>l.
     case l of
       Inr existing \<Rightarrow>
         if r_UserID existing \<noteq> userID then throw_io (ErrMsg ''credits: request_id already used by another user'')
         else return_io (Commit existing)
     | Inl e \<Rightarrow>
         if e \<noteq> ErrNoRows then throw_io e else
         bind_io (read_io now) (\<lambda>ts.
         bind_io newID (\<lambda>rid.
         bind_io (debitReservation rid userID requestID amount ts) (\<lambda>_.
         return_io (Commit (new_reservation rid userID requestID amount ts))))))"

definition Reserve :: "string \<Rightarrow> string \<Rightarrow> int \<Rightarrow> 'z world_scheme \<Rightarrow> (error + Reservation) \<times> 'z world_scheme" where
  "Reserve userID requestID amount =
     bind_io (check_io (requireIdentifier ''user_id'' userID)) (\<lambda>_.
     bind_io (check_io (requireIdentifier ''request_id'' requestID)) (\<lambda>_.
     if amount < 1 then throw_io (ErrMsg ''credits: reservation amount must be >= 1'')
     else transaction (reserve_tx userID requestID amount)))"

section \<open>Settle and Release\<close>

record call_world = world +
  arg :: Reservation

record Outcome =
  returnAmt :: int
  adjustAmt :: int
  out_status :: string
  ledType :: string
  ledSource :: string

text \<open>\<open>outcome\<close>: \<^const>\<open>Inl\<close> stands for an outcome whose \<open>err\<close> is set.\<close>

definition outcome :: "Reservation \<Rightarrow> int \<Rightarrow> bool \<Rightarrow> error + Outcome" where
  "outcome r captured releaseAll =
     (if r_Status r \<noteq> reservationStatusReserved then Inl ErrReservationClosed
      else if releaseAll then
        Inr \<lparr>returnAmt = r_Amount r, adjustAmt = r_Amount r, out_status = reservationStatusReleased,
             ledType = ''reservation_release'', ledSource = ''llm_cancel''\<rparr>
      else
        (let out = \<lparr>returnAmt = 0, adjustAmt = 0, out_status = reservationStatusCaptured,
                    ledType = ''reservation_release'', ledSource = ''llm_settle''\<rparr>
         in if captured > r_Amount r
            then Inr (out\<lparr>ledType := ''reservation_overage'', adjustAmt := wrap64 (- wrap64 (captured - r_Amount r))\<rparr>)
            else Inr (out\<lparr>returnAmt := wrap64 (r_Amount r - captured), adjustAmt := wrap64 (r_Amount r - captured)\<rparr>)))"

definition loadOutcome :: "int \<Rightarrow> bool \<Rightarrow> call_world \<Rightarrow> (error + Outcome) \<times> call_world" where
  "loadOutcome captured releaseAll =
     bind_io (read_io arg) (\<lambda>r.
     bind_io (try_io (query (\<lambda>d. row_or_none (find (\<lambda>x. r_ID x = r_ID r) (credit_reservations d))))) (\<lambda>l.
     case l of
       Inl e \<Rightarrow> throw_io (if e = ErrNoRows then ErrReservationNotFound else e)
     | Inr dbR \<Rightarrow>
         if r_Status dbR \<noteq> reservationStatusReserved then throw_io ErrReservationClosed else
         bind_io (modify_io (\<lambda>w. w\<lparr>arg := (arg w)\<lparr>r_Amount := r_Amount dbR, r_UserID := r_UserID dbR,
                                            r_Status := r_Status dbR\<rparr>\<rparr>)) (\<lambda>_.
         bind_io (read_io arg) (\<lambda>r.
         case outcome r captured releaseAll of Inl e \<Rightarrow> throw_io e | Inr out \<Rightarrow> return_io out))))"

definition writeReturn ::
  "Reservation \<Rightarrow> int \<Rightarrow> string \<Rightarrow> string \<Rightarrow> int \<Rightarrow> 'z world_scheme \<Rightarrow> (error + unit) \<times> 'z world_scheme" where
  "writeReturn r amount typ source ts =
     bind_io newID (\<lambda>lid.
     bind_io (stmt (insert_ledger
       \<lparr>t_id = lid, t_user_id = r_UserID r, t_amount = amount, t_type = typ, t_source = source,
        t_reference_id = Some (r_ID r), t_idempotency_key = None, t_metadata = None, t_created_at = ts\<rparr>)) (\<lambda>_.
     bind_io (stmt (bump_account (r_UserID r) amount ts)) (\<lambda>_.
     return_io ())))"

text \<open>\<open>UPDATE credit_reservations SET captured_amount, released_amount, status, updated_at WHERE id = ? AND status = 'reserved'\<close>.\<close>

definition close_row :: "int \<Rightarrow> int \<Rightarrow> string \<Rightarrow> int \<Rightarrow> Reservation \<Rightarrow> Reservation" where
  "close_row captured released st ts r =
     r\<lparr>r_Captured := captured, r_Released := released, r_Status := st, r_UpdatedAt := ts\<rparr>"

definition close_reservation ::
  "int \<Rightarrow> int \<Rightarrow> string \<Rightarrow> int \<Rightarrow> string \<Rightarrow> database \<Rightarrow> error + (nat \<times> database)" where
  "close_reservation captured released st ts rid d =
     (let p = (\<lambda>r. r_ID r = rid \<and> r_Status r = reservationStatusReserved)
      in Inr (count_where p (credit_reservations d),
              d\<lparr>credit_reservations := update_where p (close_row captured released st ts) (credit_reservations d)\<rparr>))"

definition finalize_tx :: "int \<Rightarrow> bool \<Rightarrow> call_world \<Rightarrow> (error + (Outcome \<times> int) txout) \<times> call_world" where
  "finalize_tx captured releaseAll =
     bind_io (loadOutcome captured releaseAll) (\<lambda>out.
     bind_io (read_io now) (\<lambda>ts.
     bind_io (read_io arg) (\<lambda>r.
     bind_io (if adjustAmt out \<noteq> 0 then writeReturn r (adjustAmt out) (ledType out) (ledSource out) ts
              else return_io ()) (\<lambda>_.
     bind_io (stmt (close_reservation captured (returnAmt out) (out_status out) ts (r_ID r))) (\<lambda>n.
     if n = 0 then throw_io ErrReservationClosed else return_io (Commit (out, ts)))))))"

definition finalize :: "int \<Rightarrow> bool \<Rightarrow> call_world \<Rightarrow> (error + unit) \<times> call_world" where
  "finalize captured releaseAll =
     (if \<not> releaseAll \<and> captured < 0 then throw_io (ErrMsg ''credits: negative capture'')
      else bind_io (transaction (finalize_tx captured releaseAll)) (\<lambda>(out, ts).
           modify_io (\<lambda>w. w\<lparr>arg := (arg w)\<lparr>r_Captured := captured, r_Released := returnAmt out,
                                      r_Status := out_status out, r_UpdatedAt := ts\<rparr>\<rparr>)))"

text \<open>Calling an operation with a pointer to the caller's struct.\<close>

definition with_arg ::
  "(call_world \<Rightarrow> (error + 'a) \<times> call_world) \<Rightarrow> Reservation \<Rightarrow> world \<Rightarrow> (error + 'a) \<times> Reservation \<times> world" where
  "with_arg m r w =
     (case m (world.extend w \<lparr>arg = r\<rparr>) of (x, c) \<Rightarrow> (x, arg c, world.truncate c))"

definition Settle :: "Reservation option \<Rightarrow> int \<Rightarrow> world \<Rightarrow> (error + unit) \<times> Reservation option \<times> world" where
  "Settle r actualCredits w =
     (case r of None \<Rightarrow> (Inl ErrReservationNotFound, None, w)
      | Some r \<Rightarrow> (case with_arg (finalize actualCredits False) r w of (x, r', w') \<Rightarrow> (x, Some r', w')))"

definition Release :: "Reservation option \<Rightarrow> world \<Rightarrow> (error + unit) \<times> Reservation option \<times> world" where
  "Release r w =
     (case r of None \<Rightarrow> (Inl ErrReservationNotFound, None, w)
      | Some r \<Rightarrow> (case with_arg (finalize 0 True) r w of (x, r', w') \<Rightarrow> (x, Some r', w')))"


section \<open>What Reserve does\<close>

definition debit_row :: "string \<Rightarrow> string \<Rightarrow> string \<Rightarrow> int \<Rightarrow> int \<Rightarrow> ledger_row" where
  "debit_row rid userID requestID amount ts =
     \<lparr>t_id = rid @ ''-x'', t_user_id = userID, t_amount = - amount, t_type = ''reservation'',
      t_source = ''llm_reserve'', t_reference_id = Some rid, t_idempotency_key = Some (''resv:'' @ requestID),
      t_metadata = None, t_created_at = ts\<rparr>"

lemma debit_row_simps [simp]:
  "t_user_id (debit_row rid u q n ts) = u" "t_amount (debit_row rid u q n ts) = - n"
  "t_reference_id (debit_row rid u q n ts) = Some rid"
  "t_idempotency_key (debit_row rid u q n ts) = Some (''resv:'' @ q)"
  by (simp_all add: debit_row_def)

lemma new_reservation_simps [simp]:
  "r_ID (new_reservation rid u q n ts) = rid" "r_UserID (new_reservation rid u q n ts) = u"
  "r_RequestID (new_reservation rid u q n ts) = q" "r_Amount (new_reservation rid u q n ts) = n"
  "r_Captured (new_reservation rid u q n ts) = 0" "r_Released (new_reservation rid u q n ts) = 0"
  "r_Status (new_reservation rid u q n ts) = reservationStatusReserved"
  "r_CreatedAt (new_reservation rid u q n ts) = ts"
  by (simp_all add: new_reservation_def)

text \<open>The effect of a fresh reservation \<open>r\<close> on the tables.\<close>

definition reserved_from :: "database \<Rightarrow> Reservation \<Rightarrow> database \<Rightarrow> bool" where
  "reserved_from d r d' \<longleftrightarrow>
     (\<forall>x \<in> set (credit_reservations d). r_ID x \<noteq> r_ID r \<and> r_RequestID x \<noteq> r_RequestID r) \<and>
     has_account d (r_UserID r) \<and> r_Amount r \<le> balance_of d (r_UserID r) \<and>
     r = new_reservation (r_ID r) (r_UserID r) (r_RequestID r) (r_Amount r) (r_CreatedAt r) \<and>
     (let t = debit_row (r_ID r) (r_UserID r) (r_RequestID r) (r_Amount r) (r_CreatedAt r)
      in fresh_row t d \<and>
         d' = posted t (r_CreatedAt r) (d\<lparr>credit_reservations := credit_reservations d @ [r]\<rparr>))"

lemma insert_reservation_Inr:
  "insert_reservation r d = Inr (n, d') \<longleftrightarrow>
     (\<forall>x \<in> set (credit_reservations d). r_ID x \<noteq> r_ID r \<and> r_RequestID x \<noteq> r_RequestID r) \<and> n = 1 \<and>
     d' = d\<lparr>credit_reservations := credit_reservations d @ [r]\<rparr>"
  by (auto simp: insert_reservation_def list_ex_iff)

lemma debit_account_Inr:
  assumes "debit_account u n ts d = Inr (m, d')" "0 < m" "ledger_wf d"
  shows "has_account d u \<and> n \<le> balance_of d u \<and>
         d' = d\<lparr>credit_accounts := add_balance u (- n) ts (credit_accounts d)\<rparr>"
proof -
  let ?p = "\<lambda>a. a_user_id a = u \<and> a_balance a - n \<ge> 0"
  from assms(1,2) obtain a where a: "a \<in> set (credit_accounts d)" "a_user_id a = u" "n \<le> a_balance a"
    and d': "d' = d\<lparr>credit_accounts := update_where ?p
        (\<lambda>a. a\<lparr>a_balance := a_balance a - n, a_updated_at := ts\<rparr>) (credit_accounts d)\<rparr>"
    by (auto simp: debit_account_def Let_def)
  have dist: "distinct (map a_user_id (credit_accounts d))" using assms(3) by (simp add: ledger_wf_def)
  have f: "find (\<lambda>x. a_user_id x = u) (credit_accounts d) = Some a"
    using find_key [OF dist a(1)] a(2) by simp
  have "?p x \<longleftrightarrow> a_user_id x = u" if "x \<in> set (credit_accounts d)" for x
    using key_inj [OF dist that a(1)] a(2,3) by auto
  then have "update_where ?p (\<lambda>a. a\<lparr>a_balance := a_balance a - n, a_updated_at := ts\<rparr>) (credit_accounts d) =
        add_balance u (- n) ts (credit_accounts d)"
    using a by (auto simp: add_balance_def list_ex_iff intro!: update_where_cong)
  then show ?thesis using a f d' by (auto simp: has_account_iff balance_of_def)
qed

lemma debitReservation_Inr:
  assumes run: "debitReservation rid u q n ts w = (Inr x, w')"
    and "ledger_wf (db w)" "1 \<le> n" "n \<le> max_int64"
  shows "reserved_from (db w) (new_reservation rid u q n ts) (db w')"
proof -
  have wr: "wrap64 (- n) = - n" using assms by (intro wrap64_id) (simp add: in64_def max_int64_def)
  from run obtain m d1 where deb: "debit_account u n ts (db w) = Inr (m, d1)" "0 < m"
    and d1: "\<forall>x \<in> set (credit_reservations d1). r_ID x \<noteq> rid \<and> r_RequestID x \<noteq> q"
    and d': "fresh_row (debit_row rid u q n ts) d1"
      "db w' = d1\<lparr>credit_reservations := credit_reservations d1 @ [new_reservation rid u q n ts],
                credit_transactions := credit_transactions d1 @ [debit_row rid u q n ts]\<rparr>"
    by (auto simp: debitReservation_def io_inv insert_reservation_Inr insert_ledger_Inr wr debit_row_def
        fresh_row_def key_used_def split: if_splits)
  note e = debit_account_Inr [OF deb assms(2)]
  show ?thesis
    unfolding reserved_from_def Let_def
    using e d1 d' by (auto simp: fresh_row_def key_used_def posted_def)
qed

lemma Reserve_Inl: "Reserve u q n w = (Inl e, w') \<Longrightarrow> db w' = db w"
  by (auto simp: Reserve_def io_defs dest!: transaction_Inl split: option.splits if_splits)

lemma lookupReservation_Inr:
  "lookupReservation q w = (Inr r, w') \<Longrightarrow>
     find (\<lambda>r. r_RequestID r = q) (credit_reservations (db w)) = Some r \<and> w' = w\<lparr>faults := tl (faults w)\<rparr>"
  by (auto simp: lookupReservation_def io_inv)

lemma lookupReservation_Inl: "lookupReservation q w = (Inl e, w') \<Longrightarrow> w' = w\<lparr>faults := tl (faults w)\<rparr>"
  by (auto simp: lookupReservation_def query_def stmt_def Let_def split: option.splits sum.splits)

lemma reserve_tx_Inr:
  assumes run: "reserve_tx u q n w = (Inr out, w')" and "ledger_wf (db w)" "1 \<le> n" "n \<le> max_int64"
  shows "\<exists>r. out = Commit r \<and>
     ((find (\<lambda>r. r_RequestID r = q) (credit_reservations (db w)) = Some r \<and> r_UserID r = u \<and> db w' = db w) \<or>
      (r_UserID r = u \<and> r_RequestID r = q \<and> r_Amount r = n \<and> reserved_from (db w) r (db w')))"
proof -
  obtain l w1 where l: "lookupReservation q w = (l, w1)" by fastforce
  show ?thesis
  proof (cases l)
    case (Inr r)
    with run l show ?thesis
      by (auto simp: reserve_tx_def io_inv split: if_splits dest!: lookupReservation_Inr)
  next
    case (Inl e)
    with l have w1: "w1 = w\<lparr>faults := tl (faults w)\<rparr>" by (simp add: lookupReservation_Inl)
    from run l Inl obtain rid where "out = Commit (new_reservation rid u q n (now w1))"
      and "debitReservation rid u q n (now w1) (w1\<lparr>rnd := drop randomIDBytes (rnd w1)\<rparr>) = (Inr (), w')"
      by (auto simp: reserve_tx_def io_inv split: if_splits)
    then show ?thesis
      using debitReservation_Inr [of rid u q n "now w1" "w1\<lparr>rnd := drop randomIDBytes (rnd w1)\<rparr>"] assms w1 by auto
  qed
qed

lemma Reserve_Inr:
  assumes run: "Reserve u q n w = (Inr r, w')" and "ledger_wf (db w)" "n \<le> max_int64"
  shows "1 \<le> n \<and>
     ((find (\<lambda>r. r_RequestID r = q) (credit_reservations (db w)) = Some r \<and> r_UserID r = u \<and> db w' = db w) \<or>
      (r_UserID r = u \<and> r_RequestID r = q \<and> r_Amount r = n \<and> reserved_from (db w) r (db w')))"
proof -
  from run have n: "1 \<le> n" and "transaction (reserve_tx u q n) w = (Inr r, w')"
    by (auto simp: Reserve_def io_inv split: if_splits)
  from this(2) show ?thesis
    using n assms by (cases rule: transaction_Inr) (auto dest!: reserve_tx_Inr)
qed

section \<open>What Settle and Release do\<close>

definition return_row :: "string \<Rightarrow> Reservation \<Rightarrow> Outcome \<Rightarrow> int \<Rightarrow> ledger_row" where
  "return_row lid r out ts =
     \<lparr>t_id = lid, t_user_id = r_UserID r, t_amount = adjustAmt out, t_type = ledType out, t_source = ledSource out,
      t_reference_id = Some (r_ID r), t_idempotency_key = None, t_metadata = None, t_created_at = ts\<rparr>"

lemma return_row_simps [simp]:
  "t_user_id (return_row lid r out ts) = r_UserID r" "t_amount (return_row lid r out ts) = adjustAmt out"
  "t_reference_id (return_row lid r out ts) = Some (r_ID r)" "t_idempotency_key (return_row lid r out ts) = None"
  by (simp_all add: return_row_def)

definition close_in :: "string \<Rightarrow> (Reservation \<Rightarrow> Reservation) \<Rightarrow> database \<Rightarrow> database" where
  "close_in rid f d =
     d\<lparr>credit_reservations := update_where (\<lambda>r. r_ID r = rid \<and> r_Status r = reservationStatusReserved) f
         (credit_reservations d)\<rparr>"

text \<open>The effect of finalizing the reservation \<open>r\<close> (a row of \<open>d\<close>) on the tables, for some ledger id and time.\<close>

definition finalized_from :: "int \<Rightarrow> bool \<Rightarrow> database \<Rightarrow> Reservation \<Rightarrow> Outcome \<Rightarrow> int \<Rightarrow> database \<Rightarrow> bool" where
  "finalized_from captured releaseAll d r out ts d' \<longleftrightarrow>
     r \<in> set (credit_reservations d) \<and> r_Status r = reservationStatusReserved \<and>
     outcome r captured releaseAll = Inr out \<and>
     (let close = close_in (r_ID r) (close_row captured (returnAmt out) (out_status out) ts)
      in if adjustAmt out = 0 then d' = close d
         else \<exists>lid. fresh_row (return_row lid r out ts) d \<and> d' = close (posted (return_row lid r out ts) ts d))"

lemma outcome_cong:
  "r_Status r = r_Status r' \<Longrightarrow> r_Amount r = r_Amount r' \<Longrightarrow> outcome r c rel = outcome r' c rel"
  by (simp add: outcome_def Let_def)

lemma loadOutcome_Inr:
  assumes "loadOutcome captured releaseAll c = (Inr out, c')"
  obtains r where "find (\<lambda>x. r_ID x = r_ID (arg c)) (credit_reservations (db c)) = Some r"
    "r_Status r = reservationStatusReserved" "outcome r captured releaseAll = Inr out"
    "c' = c\<lparr>faults := tl (faults c), arg := (arg c)\<lparr>r_Amount := r_Amount r, r_UserID := r_UserID r, r_Status := r_Status r\<rparr>\<rparr>"
proof -
  obtain l c1 where l: "query (\<lambda>d. row_or_none (find (\<lambda>x. r_ID x = r_ID (arg c)) (credit_reservations d))) c = (l, c1)"
    by fastforce
  with assms obtain r where r: "l = Inr r"
    by (cases l) (auto simp: loadOutcome_def io_inv)
  have o: "outcome (a\<lparr>r_Amount := r_Amount r, r_UserID := v, r_Status := reservationStatusReserved\<rparr>) captured releaseAll =
        outcome r captured releaseAll" if "r_Status r = reservationStatusReserved" for a v
    by (rule outcome_cong) (simp_all add: that)
  show ?thesis
    using assms l r
    by (intro that [of r]) (auto simp: loadOutcome_def io_inv o split: if_splits sum.splits)
qed


lemma writeReturn_Inr:
  assumes "writeReturn r n typ src ts w = (Inr x, w')" "has_account (db w) (r_UserID r)"
  shows "\<exists>lid t. t = \<lparr>t_id = lid, t_user_id = r_UserID r, t_amount = n, t_type = typ, t_source = src,
      t_reference_id = Some (r_ID r), t_idempotency_key = None, t_metadata = None, t_created_at = ts\<rparr> \<and>
     fresh_row t (db w) \<and> db w' = posted t ts (db w)"
  using assms
  by (auto simp: writeReturn_def io_inv insert_ledger_Inr posted_def has_account_def dest!: bump_account_Inr)

lemma writeReturn_frame:
  "writeReturn r n typ src ts c = (Inr x, c') \<Longrightarrow> clk c' = clk c \<and> arg c' = arg c"
  by (auto simp: writeReturn_def io_inv)

lemma finalize_tx_Inr:
  assumes run: "finalize_tx captured releaseAll c = (Inr z, c')"
    and acc: "\<forall>r \<in> set (credit_reservations (db c)). has_account (db c) (r_UserID r)"
  obtains r out where "find (\<lambda>x. r_ID x = r_ID (arg c)) (credit_reservations (db c)) = Some r"
    "z = Commit (out, now c)" "finalized_from captured releaseAll (db c) r out (now c) (db c')"
    "arg c' = (arg c)\<lparr>r_Amount := r_Amount r, r_UserID := r_UserID r, r_Status := r_Status r\<rparr>"
proof -
  from run obtain out c1 where load: "loadOutcome captured releaseAll c = (Inr out, c1)"
    and rest: "bind_io (if adjustAmt out \<noteq> 0 then writeReturn (arg c1) (adjustAmt out) (ledType out) (ledSource out) (now c1)
              else return_io ()) (\<lambda>_.
     bind_io (stmt (close_reservation captured (returnAmt out) (out_status out) (now c1) (r_ID (arg c1)))) (\<lambda>n.
     if n = 0 then throw_io ErrReservationClosed else return_io (Commit (out, now c1)))) c1 = (Inr z, c')"
    by (auto simp: finalize_tx_def io_inv)
  from load obtain r where f: "find (\<lambda>x. r_ID x = r_ID (arg c)) (credit_reservations (db c)) = Some r"
    and r: "r_Status r = reservationStatusReserved" "outcome r captured releaseAll = Inr out"
    and c1: "c1 = c\<lparr>faults := tl (faults c), arg := (arg c)\<lparr>r_Amount := r_Amount r, r_UserID := r_UserID r, r_Status := r_Status r\<rparr>\<rparr>"
    by (rule loadOutcome_Inr)
  from f have rin: "r \<in> set (credit_reservations (db c))" "r_ID r = r_ID (arg c)" by (auto dest: find_SomeD)
  from rest obtain c2 where w: "(if adjustAmt out \<noteq> 0 then writeReturn (arg c1) (adjustAmt out) (ledType out) (ledSource out) (now c1)
              else return_io ()) c1 = (Inr (), c2)"
    and z: "z = Commit (out, now c)"
    and c': "db c' = close_in (r_ID r) (close_row captured (returnAmt out) (out_status out) (now c)) (db c2)" "arg c' = arg c2"
    using c1 rin by (auto simp: io_inv close_reservation_def close_in_def Let_def split: if_splits)
  have "finalized_from captured releaseAll (db c) r out (now c) (db c') \<and> arg c2 = arg c1"
  proof (cases "adjustAmt out = 0")
    case True
    then show ?thesis using w c' c1 rin r by (simp add: finalized_from_def io_inv)
  next
    case False
    with w have wr: "writeReturn (arg c1) (adjustAmt out) (ledType out) (ledSource out) (now c1) c1 = (Inr (), c2)" by simp
    have "has_account (db c1) (r_UserID (arg c1))" using acc rin c1 by simp
    from writeReturn_Inr [OF wr this] obtain lid where
      "fresh_row (return_row lid r out (now c)) (db c)" "db c2 = posted (return_row lid r out (now c)) (now c) (db c)"
      using c1 rin by (auto simp: return_row_def)
    then show ?thesis
      using False c' rin r writeReturn_frame [OF wr] by (auto simp: finalized_from_def Let_def)
  qed
  then show ?thesis using that [OF f z] c' c1 by simp
qed


section \<open>The invariant\<close>

text \<open>What a reservation currently costs its user.\<close>

definition held :: "Reservation \<Rightarrow> int" where
  "held r = (if r_Status r = reservationStatusReserved then r_Amount r
             else if r_Status r = reservationStatusCaptured then r_Captured r else 0)"

definition ref_sum :: "database \<Rightarrow> string \<Rightarrow> int" where
  "ref_sum d rid = sum_where (\<lambda>t. t_reference_id t = Some rid) t_amount (credit_transactions d)"

definition row_ok :: "Reservation \<Rightarrow> bool" where
  "row_ok r \<longleftrightarrow>
     1 \<le> r_Amount r \<and> r_Amount r \<le> max_int64 \<and> 0 \<le> r_Captured r \<and>
     (r_Status r = reservationStatusReserved \<and> r_Captured r = 0 \<and> r_Released r = 0 \<or>
      r_Status r = reservationStatusCaptured \<and> r_Released r = max 0 (r_Amount r - r_Captured r) \<or>
      r_Status r = reservationStatusReleased \<and> r_Captured r = 0 \<and> r_Released r = r_Amount r \<or>
      r_Status r = reservationStatusExpired \<and> r_Captured r = 0 \<and> r_Released r = 0)"

definition resv_inv :: "database \<Rightarrow> bool" where
  "resv_inv d \<longleftrightarrow>
     distinct (map r_ID (credit_reservations d)) \<and> distinct (map r_RequestID (credit_reservations d)) \<and>
     (\<forall>r \<in> set (credit_reservations d).
        has_account d (r_UserID r) \<and> row_ok r \<and> ref_sum d (r_ID r) = - held r) \<and>
     (\<forall>t \<in> set (credit_transactions d). \<forall>x. t_reference_id t = Some x \<longrightarrow>
        (\<exists>r \<in> set (credit_reservations d). r_ID r = x \<and> r_UserID r = t_user_id t))"

definition credits_inv :: "database \<Rightarrow> bool" where
  "credits_inv d \<longleftrightarrow> ledger_inv d \<and> resv_inv d"

lemma credits_inv_ref:
  assumes "credits_inv d" "t \<in> set (credit_transactions d)" "t_reference_id t = Some x"
  shows "\<exists>r \<in> set (credit_reservations d). r_ID r = x \<and> r_UserID r = t_user_id t"
  using assms unfolding credits_inv_def resv_inv_def by blast

lemma credits_inv_empty: "credits_inv empty_db"
  by (simp add: credits_inv_def ledger_inv_empty resv_inv_def)

lemma ref_sum_posted [simp]:
  "ref_sum (posted t ts d) rid = ref_sum d rid + (if t_reference_id t = Some rid then t_amount t else 0)"
  by (simp add: ref_sum_def)

lemma credits_inv_posted:
  assumes "credits_inv d" "fresh_row t d" "t_reference_id t = None"
  shows "credits_inv (posted t ts d)"
  using assms by (auto simp: credits_inv_def resv_inv_def ledger_inv_posted)

lemma close_in_simps [simp]:
  "credit_transactions (close_in rid f d) = credit_transactions d"
  "credit_accounts (close_in rid f d) = credit_accounts d"
  "has_account (close_in rid f d) u = has_account d u"
  "ref_sum (close_in rid f d) x = ref_sum d x" "balance_of (close_in rid f d) u = balance_of d u"
  "settlement_outbox (close_in rid f d) = settlement_outbox d" "llm_usage (close_in rid f d) = llm_usage d"
  "subscriptions (close_in rid f d) = subscriptions d"
  by (simp_all add: close_in_def has_account_def ref_sum_def balance_of_def)

lemma update_reservations_simps [simp]:
  "balance_of (d\<lparr>credit_reservations := rs\<rparr>) u = balance_of d u"
  "has_account (d\<lparr>credit_reservations := rs\<rparr>) u = has_account d u"
  "ref_sum (d\<lparr>credit_reservations := rs\<rparr>) x = ref_sum d x"
  "key_used (d\<lparr>credit_reservations := rs\<rparr>) k = key_used d k"
  "fresh_row t (d\<lparr>credit_reservations := rs\<rparr>) = fresh_row t d"
  by (simp_all add: balance_of_def has_account_def ref_sum_def key_used_def fresh_row_def split: option.splits)

lemma ledger_inv_tables:
  "credit_transactions d' = credit_transactions d \<Longrightarrow> credit_accounts d' = credit_accounts d \<Longrightarrow>
     ledger_inv d' = ledger_inv d"
  by (simp add: ledger_inv_def ledger_wf_def balance_of_def ledger_sum_def)

lemma set_close_in:
  assumes "distinct (map r_ID (credit_reservations d))" "r \<in> set (credit_reservations d)"
    "r_Status r = reservationStatusReserved"
  shows "set (credit_reservations (close_in (r_ID r) f d)) = insert (f r) (set (credit_reservations d) - {r})"
proof -
  have "(r_ID x = r_ID r \<and> r_Status x = reservationStatusReserved) \<longleftrightarrow> x = r"
    if "x \<in> set (credit_reservations d)" for x
    using key_inj [OF assms(1) that assms(2)] assms(3) by auto
  then have "set (credit_reservations (close_in (r_ID r) f d)) =
      (\<lambda>x. if x = r then f r else x) ` set (credit_reservations d)"
    by (force simp: close_in_def set_update_where)
  then show ?thesis using assms(2) by auto
qed

text \<open>Closing a reserved row after posting \<open>a\<close> against it: the row may now cost \<open>a\<close> less.\<close>

lemma credits_inv_close:
  assumes inv: "credits_inv d" and r: "r \<in> set (credit_reservations d)" "r_Status r = reservationStatusReserved"
    and d1: "d1 = d \<and> a = 0 \<or>
      d1 = posted t ts d \<and> fresh_row t d \<and> t_reference_id t = Some (r_ID r) \<and> t_user_id t = r_UserID r \<and> t_amount t = a"
    and f: "\<And>x. r_ID (f x) = r_ID x" "\<And>x. r_RequestID (f x) = r_RequestID x" "r_UserID (f r) = r_UserID r"
      "row_ok (f r)" "held (f r) = held r - a"
  shows "credits_inv (close_in (r_ID r) f d1)"
proof -
  let ?d = "close_in (r_ID r) f d1"
  have res: "credit_reservations d1 = credit_reservations d" using d1 by auto
  have dist: "distinct (map r_ID (credit_reservations d1))" "distinct (map r_RequestID (credit_reservations d1))"
    using inv res by (simp_all add: credits_inv_def resv_inv_def)
  have base: "has_account d u \<Longrightarrow> has_account d1 u"
    "ref_sum d1 x = ref_sum d x + (if x = r_ID r then a else 0)" for u x
    using d1 by auto
  have same: "r_ID x = r_ID r \<longleftrightarrow> x = r" if "x \<in> set (credit_reservations d)" for x
    using key_inj [of r_ID "credit_reservations d" x r] that r dist res by auto
  have old: "has_account d1 (r_UserID x)" "row_ok x" "ref_sum d1 (r_ID x) = - held x + (if x = r then a else 0)"
    if "x \<in> set (credit_reservations d)" for x
    using inv that base same [OF that] by (simp_all add: credits_inv_def resv_inv_def)
  have refs: "\<exists>s \<in> set (credit_reservations d). r_ID s = x \<and> r_UserID s = t_user_id t"
    if t: "t \<in> set (credit_transactions d1)" "t_reference_id t = Some x" for t x
  proof (cases "t \<in> set (credit_transactions d)")
    case True
    then show ?thesis using inv t(2) by (intro credits_inv_ref)
  next
    case False
    then have "x = r_ID r" "t_user_id t = r_UserID r" using d1 t by auto
    then show ?thesis using r(1) by (intro bexI [of _ r]) simp_all
  qed
  have set: "set (credit_reservations ?d) = insert (f r) (set (credit_reservations d) - {r})"
    using set_close_in [OF dist(1), of r f] r res by simp
  have "ledger_inv d1" using inv d1 by (auto simp: credits_inv_def ledger_inv_posted)
  then have "ledger_inv ?d" by (simp add: ledger_inv_tables [of ?d d1])
  moreover have "resv_inv ?d"
    unfolding resv_inv_def
  proof (intro conjI ballI allI impI)
    show "distinct (map r_ID (credit_reservations ?d))" "distinct (map r_RequestID (credit_reservations ?d))"
      using dist by (simp_all add: close_in_def map_update_where f(1,2))
    fix x assume "x \<in> set (credit_reservations ?d)"
    then consider "x = f r" | "x \<in> set (credit_reservations d)" "x \<noteq> r" using set by auto
    then have "has_account ?d (r_UserID x) \<and> row_ok x \<and> ref_sum ?d (r_ID x) = - held x"
    proof cases
      case 1
      then show ?thesis using old [OF r(1)] f by simp
    next
      case 2
      then show ?thesis using old [OF 2(1)] by simp
    qed
    then show "has_account ?d (r_UserID x)" "row_ok x" "ref_sum ?d (r_ID x) = - held x" by simp_all
  next
    fix t x assume "t \<in> set (credit_transactions ?d)" "t_reference_id t = Some x"
    then obtain s where "s \<in> set (credit_reservations d)" "r_ID s = x" "r_UserID s = t_user_id t"
      using refs by auto
    then show "\<exists>s \<in> set (credit_reservations ?d). r_ID s = x \<and> r_UserID s = t_user_id t"
      using set f(1,3) by (cases "s = r") auto
  qed
  ultimately show ?thesis by (simp add: credits_inv_def)
qed


lemma credits_inv_reserved:
  assumes inv: "credits_inv d" and res: "reserved_from d r d'" and n: "1 \<le> r_Amount r" "r_Amount r \<le> max_int64"
  shows "credits_inv d'"
proof -
  let ?t = "debit_row (r_ID r) (r_UserID r) (r_RequestID r) (r_Amount r) (r_CreatedAt r)"
  let ?d0 = "d\<lparr>credit_reservations := credit_reservations d @ [r]\<rparr>"
  from res have new: "\<forall>x \<in> set (credit_reservations d). r_ID x \<noteq> r_ID r \<and> r_RequestID x \<noteq> r_RequestID r"
    and acc: "has_account d (r_UserID r)"
    and st: "r = new_reservation (r_ID r) (r_UserID r) (r_RequestID r) (r_Amount r) (r_CreatedAt r)"
    and fr: "fresh_row ?t d" and d': "d' = posted ?t (r_CreatedAt r) ?d0"
    by (simp_all add: reserved_from_def Let_def)
  have st': "r_Status r = reservationStatusReserved" "r_Captured r = 0" "r_Released r = 0"
    by (subst st; simp)+
  have row: "row_ok r" "held r = r_Amount r" using n by (simp_all add: row_ok_def held_def st')
  have no_ref: "ref_sum d (r_ID r) = 0"
    unfolding ref_sum_def
  proof (rule sum_where_none)
    fix t assume "t \<in> set (credit_transactions d)"
    then show "t_reference_id t \<noteq> Some (r_ID r)"
      using inv new by (fastforce simp: credits_inv_def resv_inv_def)
  qed
  have "ledger_inv ?d0" using inv by (simp add: credits_inv_def ledger_inv_tables [of ?d0 d])
  moreover have "fresh_row ?t ?d0" using fr by simp
  ultimately have "ledger_inv d'" using d' ledger_inv_posted by simp
  moreover have "resv_inv d'"
    using inv new acc row no_ref d' by (auto simp: credits_inv_def resv_inv_def)
  ultimately show ?thesis by (simp add: credits_inv_def)
qed

lemma outcome_release:
  "r_Status r = reservationStatusReserved \<Longrightarrow>
   outcome r captured True =
     Inr \<lparr>returnAmt = r_Amount r, adjustAmt = r_Amount r, out_status = reservationStatusReleased,
          ledType = ''reservation_release'', ledSource = ''llm_cancel''\<rparr>"
  by (simp add: outcome_def)

lemma outcome_settle:
  assumes "r_Status r = reservationStatusReserved" "1 \<le> r_Amount r" "r_Amount r \<le> max_int64"
    and "0 \<le> captured" "captured \<le> max_int64"
  shows "outcome r captured False =
     Inr \<lparr>returnAmt = max 0 (r_Amount r - captured), adjustAmt = r_Amount r - captured,
          out_status = reservationStatusCaptured,
          ledType = (if captured > r_Amount r then ''reservation_overage'' else ''reservation_release''),
          ledSource = ''llm_settle''\<rparr>"
proof -
  have "in64 (captured - r_Amount r)" "in64 (r_Amount r - captured)"
    using assms by (auto simp: in64_def max_int64_def)
  then show ?thesis
    using assms(1) by (simp add: outcome_def wrap64_id)
qed

lemma row_okD: "row_ok r \<Longrightarrow> 1 \<le> r_Amount r \<and> r_Amount r \<le> max_int64"
  by (simp add: row_ok_def)

lemma close_row_simps [simp]:
  "r_ID (close_row c ret st ts r) = r_ID r" "r_RequestID (close_row c ret st ts r) = r_RequestID r"
  "r_UserID (close_row c ret st ts r) = r_UserID r" "r_Amount (close_row c ret st ts r) = r_Amount r"
  "r_Captured (close_row c ret st ts r) = c" "r_Released (close_row c ret st ts r) = ret"
  "r_Status (close_row c ret st ts r) = st"
  by (simp_all add: close_row_def)

lemma credits_inv_finalized:
  assumes inv: "credits_inv d" and fin: "finalized_from captured releaseAll d r out ts d'"
    and c: "0 \<le> captured" "captured \<le> max_int64" "releaseAll \<Longrightarrow> captured = 0"
  shows "credits_inv d'"
proof -
  let ?f = "close_row captured (returnAmt out) (out_status out) ts"
  from fin have r: "r \<in> set (credit_reservations d)" "r_Status r = reservationStatusReserved"
    and out: "outcome r captured releaseAll = Inr out"
    by (simp_all add: finalized_from_def)
  have ok: "row_ok r" using inv r by (simp add: credits_inv_def resv_inv_def)
  note rng = row_okD [OF ok]
  have row: "row_ok (?f r)" "held (?f r) = held r - adjustAmt out"
  proof -
    have "row_ok (?f r) \<and> held (?f r) = held r - adjustAmt out"
    proof (cases releaseAll)
      case True
      then show ?thesis using out r rng c by (auto simp: outcome_release row_ok_def held_def)
    next
      case False
      then show ?thesis using out r rng c by (auto simp: outcome_settle row_ok_def held_def)
    qed
    then show "row_ok (?f r)" "held (?f r) = held r - adjustAmt out" by simp_all
  qed
  show ?thesis
  proof (cases "adjustAmt out = 0")
    case True
    then have "d' = close_in (r_ID r) ?f d" using fin by (simp add: finalized_from_def)
    then show ?thesis
      using credits_inv_close [OF inv r, of d 0 _ ts ?f] row True by simp
  next
    case False
    then obtain lid where "fresh_row (return_row lid r out ts) d"
      "d' = close_in (r_ID r) ?f (posted (return_row lid r out ts) ts d)"
      using fin by (auto simp: finalized_from_def Let_def)
    then show ?thesis
      using credits_inv_close [OF inv r, of "posted (return_row lid r out ts) ts d" "adjustAmt out"
          "return_row lid r out ts" ts ?f] row by simp
  qed
qed


section \<open>Conservation of credits\<close>

text \<open>The ledger rows that reference no reservation: grants and refunds.\<close>

definition funded :: "database \<Rightarrow> string \<Rightarrow> int" where
  "funded d u = sum_where (\<lambda>t. t_user_id t = u \<and> t_reference_id t = None) t_amount (credit_transactions d)"

definition held_total :: "database \<Rightarrow> string \<Rightarrow> int" where
  "held_total d u = sum_where (\<lambda>r. r_UserID r = u) held (credit_reservations d)"

lemma sum_where_split:
  "sum_where p f rs = sum_where (\<lambda>r. p r \<and> q r) f rs + sum_where (\<lambda>r. p r \<and> \<not> q r) f rs"
  by (induction rs) auto

lemma sum_where_disj:
  assumes "\<And>t. t \<in> set ts \<Longrightarrow> \<not> (p t \<and> q t)"
  shows "sum_where (\<lambda>t. p t \<or> q t) f ts = sum_where p f ts + sum_where q f ts"
  using assms by (induction ts) auto

lemma sum_where_cong:
  "(\<And>r. r \<in> set rs \<Longrightarrow> p r = q r) \<Longrightarrow> sum_where p f rs = sum_where q f rs"
  by (induction rs) auto

lemma sum_by_key:
  assumes "distinct (map key rs)"
  shows "sum_where (\<lambda>t. \<exists>r \<in> set rs. k t = Some (key r)) f ts = (\<Sum>r \<leftarrow> rs. sum_where (\<lambda>t. k t = Some (key r)) f ts)"
  using assms
proof (induction rs)
  case Nil
  then show ?case by (simp add: sum_where_none)
next
  case (Cons r rs)
  have "sum_where (\<lambda>t. k t = Some (key r) \<or> (\<exists>s \<in> set rs. k t = Some (key s))) f ts =
        sum_where (\<lambda>t. k t = Some (key r)) f ts + sum_where (\<lambda>t. \<exists>s \<in> set rs. k t = Some (key s)) f ts"
    using Cons.prems by (intro sum_where_disj) (auto simp: image_iff)
  with Cons show ?case by simp
qed

lemma balance_split:
  assumes "credits_inv d"
  shows "balance_of d u = funded d u - held_total d u"
proof -
  let ?rs = "filter (\<lambda>r. r_UserID r = u) (credit_reservations d)"
  let ?ts = "credit_transactions d"
  have dist: "distinct (map r_ID (credit_reservations d))"
    using assms by (simp add: credits_inv_def resv_inv_def)
  have "(t_user_id t = u \<and> t_reference_id t \<noteq> None) \<longleftrightarrow> (\<exists>r \<in> set ?rs. t_reference_id t = Some (r_ID r))"
    if "t \<in> set ?ts" for t
  proof (cases "t_reference_id t")
    case (Some x)
    then obtain r where r: "r \<in> set (credit_reservations d)" "r_ID r = x" "r_UserID r = t_user_id t"
      using credits_inv_ref [OF assms \<open>t \<in> set ?ts\<close>] by blast
    have "s = r" if "s \<in> set (credit_reservations d)" "r_ID s = x" for s
      using key_inj [OF dist that(1) r(1)] that r by simp
    note only = this
    show ?thesis
    proof
      assume "t_user_id t = u \<and> t_reference_id t \<noteq> None"
      then show "\<exists>r \<in> set ?rs. t_reference_id t = Some (r_ID r)" using r Some by (intro bexI [of _ r]) simp_all
    next
      assume "\<exists>r \<in> set ?rs. t_reference_id t = Some (r_ID r)"
      then obtain s where "s \<in> set ?rs" "t_reference_id t = Some (r_ID s)" by blast
      with only [of s] r Some show "t_user_id t = u \<and> t_reference_id t \<noteq> None" by simp
    qed
  qed simp
  then have "sum_where (\<lambda>t. t_user_id t = u \<and> t_reference_id t \<noteq> None) t_amount ?ts =
        sum_where (\<lambda>t. \<exists>r \<in> set ?rs. t_reference_id t = Some (r_ID r)) t_amount ?ts"
    by (intro sum_where_cong)
  also have "\<dots> = (\<Sum>r \<leftarrow> ?rs. ref_sum d (r_ID r))"
    unfolding ref_sum_def using dist by (intro sum_by_key) (simp add: distinct_map_filter)
  also have "\<dots> = (\<Sum>r \<leftarrow> ?rs. - held r)"
    using assms by (intro arg_cong [where f = sum_list] map_cong) (auto simp: credits_inv_def resv_inv_def)
  also have "\<dots> = - held_total d u"
    by (simp add: held_total_def sum_where_def uminus_sum_list_map comp_def)
  finally show ?thesis
    using assms sum_where_split [of "\<lambda>t. t_user_id t = u" t_amount ?ts "\<lambda>t. t_reference_id t = None"]
    by (simp add: credits_inv_def ledger_inv_def ledger_sum_def funded_def)
qed


section \<open>The operations on whole worlds\<close>

lemma credits_inv_wf [simp]: "credits_inv d \<Longrightarrow> ledger_wf d"
  by (simp add: credits_inv_def ledger_inv_def)

lemma credits_inv_accounts: "credits_inv d \<Longrightarrow> \<forall>r \<in> set (credit_reservations d). has_account d (r_UserID r)"
  by (simp add: credits_inv_def resv_inv_def)

lemma finalize_Inl: "finalize n rel c = (Inl e, c') \<Longrightarrow> db c' = db c"
  by (auto simp: finalize_def io_defs dest: transaction_Inl split: if_splits prod.splits sum.splits)

lemma finalize_Inr:
  assumes run: "finalize n rel c = (Inr x, c')" and inv: "credits_inv (db c)"
  obtains r out where "find (\<lambda>x. r_ID x = r_ID (arg c)) (credit_reservations (db c)) = Some r"
    "rel \<or> 0 \<le> n" "finalized_from n rel (db c) r out (now c) (db c')"
    "arg c' = (arg c)\<lparr>r_Amount := r_Amount r, r_UserID := r_UserID r, r_Captured := n,
        r_Released := returnAmt out, r_Status := out_status out, r_UpdatedAt := now c\<rparr>"
proof -
  from run obtain out ts c1 where tx: "transaction (finalize_tx n rel) c = (Inr (out, ts), c1)"
    and c': "c' = c1\<lparr>arg := (arg c1)\<lparr>r_Captured := n, r_Released := returnAmt out, r_Status := out_status out, r_UpdatedAt := ts\<rparr>\<rparr>"
    and n: "rel \<or> 0 \<le> n"
    by (auto simp: finalize_def io_inv split: if_splits prod.splits)
  let ?c = "c\<lparr>faults := tl (faults c)\<rparr>"
  have acc: "\<forall>r \<in> set (credit_reservations (db ?c)). has_account (db ?c) (r_UserID r)"
    using inv by (simp add: credits_inv_accounts)
  from tx show ?thesis
  proof (cases rule: transaction_Inr)
    case (commit w2)
    from finalize_tx_Inr [OF commit(1) acc] show ?thesis
      by (rule) (use that n c' commit(2) in auto)
  next
    case (abandon w2)
    from finalize_tx_Inr [OF abandon(1) acc] show ?thesis by (rule) auto
  qed
qed

lemma extend_simps [simp]:
  "db (world.extend w \<lparr>arg = r\<rparr>) = db w" "clk (world.extend w \<lparr>arg = r\<rparr>) = clk w"
  "faults (world.extend w \<lparr>arg = r\<rparr>) = faults w" "rnd (world.extend w \<lparr>arg = r\<rparr>) = rnd w"
  "arg (world.extend w \<lparr>arg = r\<rparr>) = r"
  by (simp_all add: world.extend_def)

lemma truncate_simps [simp]: "db (world.truncate c) = db c" "world.truncate (world.extend w m) = w"
  by (simp_all add: world.truncate_def world.extend_def)

text \<open>The row a successful call ends at, and what the user's balance gains.\<close>

lemma finalized_effect:
  assumes inv: "credits_inv d" and fin: "finalized_from n rel d r out ts d'"
    and n: "0 \<le> n" "n \<le> max_int64" "rel \<Longrightarrow> n = 0"
  shows "\<exists>r' \<in> set (credit_reservations d'). r_ID r' = r_ID r \<and> r_UserID r' = r_UserID r \<and> r_Amount r' = r_Amount r \<and>
           r_Captured r' = n \<and> r_Released r' = max 0 (r_Amount r - n) \<and>
           r_Status r' = (if rel then reservationStatusReleased else reservationStatusCaptured)"
    and "balance_of d' v = balance_of d v + (if v = r_UserID r then r_Amount r - n else 0)"
    and "returnAmt out = max 0 (r_Amount r - n)"
    and "out_status out = (if rel then reservationStatusReleased else reservationStatusCaptured)"
proof -
  from fin have r: "r \<in> set (credit_reservations d)" "r_Status r = reservationStatusReserved"
    and out: "outcome r n rel = Inr out"
    by (simp_all add: finalized_from_def)
  have rng: "1 \<le> r_Amount r" "r_Amount r \<le> max_int64"
    using inv r by (auto simp: credits_inv_def resv_inv_def dest: row_okD)
  have out': "returnAmt out = max 0 (r_Amount r - n)" "adjustAmt out = r_Amount r - n"
    "out_status out = (if rel then reservationStatusReleased else reservationStatusCaptured)"
    using out r rng n by (cases rel; auto simp: outcome_release outcome_settle)+
  show "returnAmt out = max 0 (r_Amount r - n)"
    "out_status out = (if rel then reservationStatusReleased else reservationStatusCaptured)" using out' by auto
  let ?f = "close_row n (returnAmt out) (out_status out) ts"
  obtain d1 where d1: "d' = close_in (r_ID r) ?f d1" "credit_reservations d1 = credit_reservations d"
    and bal: "\<And>v. balance_of d1 v = balance_of d v + (if v = r_UserID r then r_Amount r - n else 0)"
    using fin out' by (auto simp: finalized_from_def Let_def split: if_splits)
  show "balance_of d' v = balance_of d v + (if v = r_UserID r then r_Amount r - n else 0)"
    using d1 bal by simp
  have "?f r \<in> set (credit_reservations d')"
    using set_close_in [of d1 r ?f] d1 r inv by (simp add: credits_inv_def resv_inv_def)
  then show "\<exists>r' \<in> set (credit_reservations d'). r_ID r' = r_ID r \<and> r_UserID r' = r_UserID r \<and> r_Amount r' = r_Amount r \<and>
           r_Captured r' = n \<and> r_Released r' = max 0 (r_Amount r - n) \<and>
           r_Status r' = (if rel then reservationStatusReleased else reservationStatusCaptured)"
    using out' by (intro bexI [of _ "?f r"]) simp_all
qed


section \<open>The contract of a finalizing call\<close>

text \<open>
  What the callers of \<open>Settle\<close> and \<open>Release\<close> rely on: a failed call changes no table; a successful one finds the
  reservation of the given id still reserved, closes it and returns to its user whatever the final price leaves
  of the reserved amount. \<open>refinalize\<close> runs a call again and again, with any caller structs and in any worlds.
\<close>

definition refinalize ::
  "('c \<Rightarrow> Reservation \<Rightarrow> world \<Rightarrow> (error + unit) \<times> Reservation \<times> world) \<Rightarrow>
   ('c \<times> Reservation \<times> world) list \<Rightarrow> database \<Rightarrow> database" where
  "refinalize fin xs d = fold (\<lambda>(c, a, w) d. db (snd (snd (fin c a (w\<lparr>db := d\<rparr>))))) xs d"

lemma refinalize_simps [simp]:
  "refinalize fin [] d = d"
  "refinalize fin ((c, a, w) # xs) d = refinalize fin xs (db (snd (snd (fin c a (w\<lparr>db := d\<rparr>)))))"
  by (simp_all add: refinalize_def)

definition closed_in :: "database \<Rightarrow> string \<Rightarrow> bool" where
  "closed_in d rid \<longleftrightarrow> (\<exists>r \<in> set (credit_reservations d). r_ID r = rid \<and> r_Status r \<noteq> reservationStatusReserved)"

locale finalizer =
  fixes fin :: "'c \<Rightarrow> Reservation \<Rightarrow> world \<Rightarrow> (error + unit) \<times> Reservation \<times> world"
    and price :: "'c \<Rightarrow> int"
  assumes fin_Inl: "fin c a w = (Inl e, a', w') \<Longrightarrow> db w' = db w"
    and fin_Inr: "fin c a w = (Inr x, a', w') \<Longrightarrow> credits_inv (db w) \<Longrightarrow>
      credits_inv (db w') \<and> closed_in (db w') (r_ID a) \<and>
      (\<exists>r \<in> set (credit_reservations (db w)). r_ID r = r_ID a \<and> r_Status r = reservationStatusReserved \<and>
         (\<forall>v. balance_of (db w') v = balance_of (db w) v + (if v = r_UserID r then r_Amount r - price c else 0)))"
begin

lemma fin_closed:
  assumes "credits_inv (db w)" "closed_in (db w) (r_ID a)"
  shows "db (snd (snd (fin c a w))) = db w"
proof -
  obtain x a' w' where run: "fin c a w = (x, a', w')" by (cases "fin c a w") auto
  show ?thesis
  proof (cases x)
    case (Inl e)
    with run show ?thesis by (simp add: fin_Inl)
  next
    case (Inr y)
    then obtain r where "r \<in> set (credit_reservations (db w))" "r_ID r = r_ID a" "r_Status r = reservationStatusReserved"
      using fin_Inr [of c a w y a' w'] run assms(1) by auto
    moreover obtain s where "s \<in> set (credit_reservations (db w))" "r_ID s = r_ID a" "r_Status s \<noteq> reservationStatusReserved"
      using assms(2) by (auto simp: closed_in_def)
    ultimately have "s = r"
      using assms(1) key_inj [of r_ID "credit_reservations (db w)" s r] by (simp add: credits_inv_def resv_inv_def)
    with \<open>r_Status s \<noteq> reservationStatusReserved\<close> \<open>r_Status r = reservationStatusReserved\<close> show ?thesis by simp
  qed
qed

lemma refinalize_closed:
  "credits_inv d \<Longrightarrow> closed_in d rid \<Longrightarrow> \<forall>(c, a, w) \<in> set xs. r_ID a = rid \<Longrightarrow> refinalize fin xs d = d"
proof (induction xs)
  case (Cons y xs)
  obtain c a w where y: "y = (c, a, w)" by (cases y)
  with Cons.prems have "db (snd (snd (fin c a (w\<lparr>db := d\<rparr>)))) = d"
    using fin_closed [of "w\<lparr>db := d\<rparr>" a c] by auto
  with Cons y show ?case by auto
qed simp

lemma refinalize_once:
  assumes inv: "credits_inv d" and r: "r \<in> set (credit_reservations d)" "r_Status r = reservationStatusReserved"
    and ids: "\<forall>(c, a, w) \<in> set xs. r_ID a = r_ID r"
  shows "refinalize fin xs d = d \<or>
     (closed_in (refinalize fin xs d) (r_ID r) \<and>
      (\<exists>c \<in> fst ` set xs.
         \<forall>v. balance_of (refinalize fin xs d) v = balance_of d v + (if v = r_UserID r then r_Amount r - price c else 0)))"
  using ids
proof (induction xs)
  case (Cons y xs)
  obtain c a w where y: "y = (c, a, w)" by (cases y)
  with Cons.prems have a: "r_ID a = r_ID r" by auto
  obtain x a' w' where run: "fin c a (w\<lparr>db := d\<rparr>) = (x, a', w')" by (cases "fin c a (w\<lparr>db := d\<rparr>)") auto
  show ?case
  proof (cases x)
    case (Inl e)
    with run have "db w' = d" using fin_Inl by fastforce
    then have "refinalize fin (y # xs) d = refinalize fin xs d" using y run by simp
    moreover have "\<forall>(c, a, w) \<in> set xs. r_ID a = r_ID r" using Cons.prems by simp
    ultimately show ?thesis using Cons.IH by (simp only: list.set image_insert bex_simps) blast
  next
    case (Inr z)
    then obtain s where s: "s \<in> set (credit_reservations d)" "r_ID s = r_ID r" "credits_inv (db w')" "closed_in (db w') (r_ID r)"
      "\<forall>v. balance_of (db w') v = balance_of d v + (if v = r_UserID s then r_Amount s - price c else 0)"
      using fin_Inr [of c a "w\<lparr>db := d\<rparr>" z a' w'] run inv a by auto
    then have "s = r" using key_inj [of r_ID "credit_reservations d" s r] inv r by (simp add: credits_inv_def resv_inv_def)
    moreover have "refinalize fin xs (db w') = db w'"
      using refinalize_closed [OF s(3,4)] Cons.prems y by auto
    ultimately show ?thesis using s y run by simp
  qed
qed simp

end

lemma with_arg_Inl: "with_arg (finalize n rel) a w = (Inl e, a', w') \<Longrightarrow> db w' = db w"
  by (auto simp: with_arg_def dest: finalize_Inl split: prod.splits)

lemma with_arg_Inr:
  assumes run: "with_arg (finalize n rel) a w = (Inr x, a', w')" and inv: "credits_inv (db w)"
  obtains r out where "find (\<lambda>x. r_ID x = r_ID a) (credit_reservations (db w)) = Some r"
    "rel \<or> 0 \<le> n" "finalized_from n rel (db w) r out (now w) (db w')"
    "a' = a\<lparr>r_Amount := r_Amount r, r_UserID := r_UserID r, r_Captured := n,
        r_Released := returnAmt out, r_Status := out_status out, r_UpdatedAt := now w\<rparr>"
proof -
  from run obtain c where c: "finalize n rel (world.extend w \<lparr>arg = a\<rparr>) = (Inr x, c)"
    and "a' = arg c" "w' = world.truncate c"
    by (auto simp: with_arg_def split: prod.splits)
  with finalize_Inr [OF c] inv that show ?thesis by auto
qed

lemma with_arg_contract:
  assumes run: "with_arg (finalize n rel) a w = (Inr x, a', w')" and inv: "credits_inv (db w)"
    and n: "n \<le> max_int64" "rel \<Longrightarrow> n = 0"
  shows "credits_inv (db w') \<and> closed_in (db w') (r_ID a) \<and>
      (\<exists>r \<in> set (credit_reservations (db w)). r_ID r = r_ID a \<and> r_Status r = reservationStatusReserved \<and>
         (\<forall>v. balance_of (db w') v = balance_of (db w) v + (if v = r_UserID r then r_Amount r - n else 0)))"
proof -
  obtain r out where f: "find (\<lambda>x. r_ID x = r_ID a) (credit_reservations (db w)) = Some r"
    and n0: "rel \<or> 0 \<le> n" and fin: "finalized_from n rel (db w) r out (now w) (db w')"
    using run inv by (rule with_arg_Inr)
  from n0 n have n': "0 \<le> n" by auto
  have r: "r \<in> set (credit_reservations (db w))" "r_ID r = r_ID a" "r_Status r = reservationStatusReserved"
    using f fin by (auto simp: finalized_from_def dest: find_SomeD)
  have "credits_inv (db w')" using credits_inv_finalized [OF inv fin n' n] .
  moreover have "closed_in (db w') (r_ID a)"
  proof -
    obtain r' where "r' \<in> set (credit_reservations (db w'))" "r_ID r' = r_ID r"
      "r_Status r' = (if rel then reservationStatusReleased else reservationStatusCaptured)"
      using finalized_effect(1) [OF inv fin n' n] by blast
    then show ?thesis using r unfolding closed_in_def by (intro bexI [of _ r']) simp_all
  qed
  ultimately show ?thesis
    using r finalized_effect(2) [OF inv fin n' n] by auto
qed

text \<open>The two finalizing calls of the service, \<open>Settle\<close> with any \<open>int64\<close> price.\<close>

datatype closer = SettleCall "64 word" | ReleaseCall

fun close_call :: "closer \<Rightarrow> Reservation \<Rightarrow> world \<Rightarrow> (error + unit) \<times> Reservation \<times> world" where
  "close_call (SettleCall n) a w = (case Settle (Some a) (sint n) w of (x, r, w') \<Rightarrow> (x, the r, w'))"
| "close_call ReleaseCall a w = (case Release (Some a) w of (x, r, w') \<Rightarrow> (x, the r, w'))"

fun close_price :: "closer \<Rightarrow> int" where
  "close_price (SettleCall n) = sint n"
| "close_price ReleaseCall = 0"

lemma close_call_with_arg:
  "close_call (SettleCall n) = with_arg (finalize (sint n) False)"
  "close_call ReleaseCall = with_arg (finalize 0 True)"
  by (auto intro!: ext simp: Settle_def Release_def split: prod.splits)

interpretation closing: finalizer close_call close_price
proof
  show "db w' = db w" if "close_call c a w = (Inl e, a', w')" for c a w e a' w'
    using that by (cases c) (simp_all only: close_call_with_arg with_arg_Inl)
  show "credits_inv (db w') \<and> closed_in (db w') (r_ID a) \<and>
      (\<exists>r \<in> set (credit_reservations (db w)). r_ID r = r_ID a \<and> r_Status r = reservationStatusReserved \<and>
         (\<forall>v. balance_of (db w') v =
            balance_of (db w) v + (if v = r_UserID r then r_Amount r - close_price c else 0)))"
    if run: "close_call c a w = (Inr x, a', w')" "credits_inv (db w)" for c a w x a' w'
  proof (cases c)
    case (SettleCall n)
    have "sint n \<le> max_int64" using sint_lt [of n] by (simp add: max_int64_def)
    then show ?thesis
      using with_arg_contract [of "sint n" False a w x a' w'] run
      unfolding SettleCall close_call_with_arg close_price.simps by blast
  next
    case ReleaseCall
    then show ?thesis
      using with_arg_contract [of 0 True a w x a' w'] run max_int64_def
      unfolding ReleaseCall close_call_with_arg close_price.simps by simp
  qed
qed


section \<open>Reserve without faults\<close>

lemma debit_account_ok:
  assumes "ledger_wf d" "1 \<le> n"
  shows "\<exists>m. debit_account u n ts d = Inr (m, if n \<le> balance_of d u
            then d\<lparr>credit_accounts := add_balance u (- n) ts (credit_accounts d)\<rparr> else d) \<and>
           (0 < m \<longleftrightarrow> n \<le> balance_of d u)"
proof -
  let ?p = "\<lambda>a. a_user_id a = u \<and> a_balance a - n \<ge> 0"
  have dist: "distinct (map a_user_id (credit_accounts d))" using assms by (simp add: ledger_wf_def)
  have ex: "(\<exists>a \<in> set (credit_accounts d). ?p a) \<longleftrightarrow> n \<le> balance_of d u"
  proof
    assume "\<exists>a \<in> set (credit_accounts d). ?p a"
    then obtain a where "a \<in> set (credit_accounts d)" "a_user_id a = u" "n \<le> a_balance a" by auto
    then show "n \<le> balance_of d u" using find_key [OF dist, of a] by (simp add: balance_of_def)
  next
    assume "n \<le> balance_of d u"
    then obtain a where "find (\<lambda>a. a_user_id a = u) (credit_accounts d) = Some a" "n \<le> a_balance a"
      using assms(2) by (auto simp: balance_of_def split: option.splits)
    then show "\<exists>a \<in> set (credit_accounts d). ?p a" by (auto dest: find_SomeD)
  qed
  obtain m d' where run: "debit_account u n ts d = Inr (m, d')" by (simp add: debit_account_def Let_def)
  then have m: "0 < m \<longleftrightarrow> n \<le> balance_of d u" using ex by (auto simp: debit_account_def Let_def)
  moreover have "d' = d" if "\<not> n \<le> balance_of d u"
    using run that ex by (auto simp: debit_account_def Let_def update_where_id)
  ultimately show ?thesis using run debit_account_Inr [OF run _ assms(1)] by auto
qed

lemma Reserve_ok:
  assumes nf: "faults w = []" and ids: "valid_id u" "valid_id q" and n: "1 \<le> n" "n \<le> max_int64"
    and wf: "ledger_wf (db w)" and rnd: "randomIDBytes \<le> length (rnd w)"
    and rid: "rid = hex_encode (take randomIDBytes (rnd w))"
    and new: "\<forall>x \<in> set (credit_reservations (db w)). r_ID x \<noteq> rid \<and> r_RequestID x \<noteq> q"
    and fr: "fresh_row (debit_row rid u q n (now w)) (db w)"
  shows "n \<le> balance_of (db w) u \<Longrightarrow> \<exists>w'. Reserve u q n w = (Inr (new_reservation rid u q n (now w)), w')"
    and "balance_of (db w) u < n \<Longrightarrow> fst (Reserve u q n w) = Inl ErrInsufficientCredits"
proof -
  let ?w = "w\<lparr>rnd := drop randomIDBytes (rnd w)\<rparr>"
  have none: "find (\<lambda>r. r_RequestID r = q) (credit_reservations (db w)) = None"
    using new by (auto simp: find_None_iff)
  obtain m where deb: "debit_account u n (now w) (db w) = Inr (m, if n \<le> balance_of (db w) u
            then (db w)\<lparr>credit_accounts := add_balance u (- n) (now w) (credit_accounts (db w))\<rparr> else db w)"
      "0 < m \<longleftrightarrow> n \<le> balance_of (db w) u"
    using debit_account_ok [OF wf n(1)] by blast
  have wr: "wrap64 (- n) = - n" using n by (intro wrap64_id) (simp add: in64_def max_int64_def)
  have start: "Reserve u q n w = transaction (reserve_tx u q n) w"
    using ids n(1) by (simp add: Reserve_def io_defs)
  have tx: "reserve_tx u q n w =
      bind_io (debitReservation rid u q n (now w)) (\<lambda>_. return_io (Commit (new_reservation rid u q n (now w)))) ?w"
    using nf none rnd by (simp add: reserve_tx_def lookupReservation_def io_ok row_or_none_def newID_def rid)
  show "\<exists>w'. Reserve u q n w = (Inr (new_reservation rid u q n (now w)), w')" if en: "n \<le> balance_of (db w) u"
  proof -
    let ?d1 = "(db w)\<lparr>credit_accounts := add_balance u (- n) (now w) (credit_accounts (db w))\<rparr>"
    let ?d2 = "?d1\<lparr>credit_reservations := credit_reservations (db w) @ [new_reservation rid u q n (now w)]\<rparr>"
    have i1: "insert_reservation (new_reservation rid u q n (now w)) ?d1 = Inr (1, ?d2)"
      using new by (subst insert_reservation_Inr) simp
    have i2: "\<exists>d3. insert_ledger (debit_row rid u q n (now w)) ?d2 = Inr (1, d3)"
      using fr by (subst insert_ledger_Inr) (simp add: fresh_row_def key_used_def)
    have "fst (debitReservation rid u q n (now w) ?w) = Inr ()" "faults (snd (debitReservation rid u q n (now w) ?w)) = []"
      using nf deb en i1 i2 by (auto simp: debitReservation_def io_ok wr debit_row_def)
    then obtain w1 where "debitReservation rid u q n (now w) ?w = (Inr (), w1)" "faults w1 = []"
      by (cases "debitReservation rid u q n (now w) ?w") auto
    then show ?thesis using start tx nf by (simp add: io_ok)
  qed
  show "fst (Reserve u q n w) = Inl ErrInsufficientCredits" if "balance_of (db w) u < n"
    using start tx nf deb that by (simp add: io_ok debitReservation_def)
qed


section \<open>Settle and Release without faults\<close>

lemma writeReturn_ok:
  assumes "faults w = []" "randomIDBytes \<le> length (rnd w)"
    and "\<forall>x \<in> set (credit_transactions (db w)). t_id x \<noteq> hex_encode (take randomIDBytes (rnd w))"
  shows "\<exists>w'. writeReturn r n typ src ts w = (Inr (), w') \<and> faults w' = [] \<and>
     credit_reservations (db w') = credit_reservations (db w)"
proof -
  have "\<exists>d. insert_ledger \<lparr>t_id = hex_encode (take randomIDBytes (rnd w)), t_user_id = r_UserID r, t_amount = n, t_type = typ,
      t_source = src, t_reference_id = Some (r_ID r), t_idempotency_key = None, t_metadata = None, t_created_at = ts\<rparr> (db w) =
      Inr (1, d) \<and> credit_reservations d = credit_reservations (db w)"
    using assms(3) by (subst insert_ledger_Inr) (simp add: fresh_row_def)
  then show ?thesis
    using assms(1,2) by (auto simp: writeReturn_def io_ok newID_def bump_account_def)
qed

lemma finalize_ok:
  assumes nf: "faults c = []" and f: "find (\<lambda>x. r_ID x = r_ID (arg c)) (credit_reservations (db c)) = Some r"
    and r: "r_Status r = reservationStatusReserved" and n: "rel \<or> 0 \<le> n" and rnd: "randomIDBytes \<le> length (rnd c)"
    and fresh: "\<forall>x \<in> set (credit_transactions (db c)). t_id x \<noteq> hex_encode (take randomIDBytes (rnd c))"
  shows "fst (finalize n rel c) = Inr ()"
proof -
  let ?a = "(arg c)\<lparr>r_Amount := r_Amount r, r_UserID := r_UserID r, r_Status := r_Status r\<rparr>"
  obtain out where out: "outcome r n rel = Inr out"
    using r by (cases "outcome r n rel") (auto simp: outcome_def Let_def split: if_splits)
  then have out': "outcome ?a n rel = Inr out" using outcome_cong [of ?a r n rel] by simp
  let ?c = "c\<lparr>arg := ?a\<rparr>"
  have load: "loadOutcome n rel c = (Inr out, ?c)"
    using nf f r out' by (simp add: loadOutcome_def io_ok row_or_none_def)
  obtain c2 where c2: "(if adjustAmt out \<noteq> 0 then writeReturn ?a (adjustAmt out) (ledType out) (ledSource out) (now c)
      else return_io ()) ?c = (Inr (), c2)" "faults c2 = []" "credit_reservations (db c2) = credit_reservations (db c)"
    using writeReturn_ok [of ?c ?a "adjustAmt out" "ledType out" "ledSource out" "now c"] nf rnd fresh
    by (cases "adjustAmt out = 0") (auto simp: return_io_def)
  have rin: "r \<in> set (credit_reservations (db c))" "r_ID r = r_ID (arg c)" using f by (auto dest: find_SomeD)
  then obtain k d where cl: "close_reservation n (returnAmt out) (out_status out) (now c) (r_ID (arg c)) (db c2) = Inr (k, d)" "0 < k"
    using c2(3) r by (auto simp: close_reservation_def Let_def)
  have "finalize_tx n rel c = (Inr (Commit (out, now c)), c2\<lparr>db := d\<rparr>)"
    using c2 cl by (cases "adjustAmt out = 0") (auto simp: finalize_tx_def load bind_io_def read_io_def stmt_ok return_io_def)
  then show ?thesis
    using n nf c2(2) by (auto simp: finalize_def transaction_ok stmt_ok bind_io_def modify_io_def)
qed


text \<open>The refusals, branch by branch.\<close>

lemma finalize_refused:
  assumes "faults w = []"
    and "case find (\<lambda>r. r_ID r = r_ID a) (credit_reservations (db w)) of
           None \<Rightarrow> e = ErrReservationNotFound
         | Some r \<Rightarrow> e = ErrReservationClosed \<and> r_Status r \<noteq> reservationStatusReserved"
  shows "Settle None n w = (Inl ErrReservationNotFound, None, w) \<and>
         Release None w = (Inl ErrReservationNotFound, None, w) \<and>
         Release (Some a) w = (Inl e, Some a, w) \<and>
         Settle (Some a) n w = (Inl (if n < 0 then ErrMsg ''credits: negative capture'' else e), Some a, w)"
proof -
  have tx: "transaction (finalize_tx m rel) (world.extend w \<lparr>arg = a\<rparr>) = (Inl e, world.extend w \<lparr>arg = a\<rparr>)" for m rel
    using assms
    by (simp add: io_ok finalize_tx_def loadOutcome_def row_or_none_def split: option.splits)
  show ?thesis
    by (simp add: Settle_def Release_def with_arg_def finalize_def bind_io_def throw_io_def tx)
qed


section \<open>Properties\<close>

text \<open>A database with one user, one grant of 1000 and one open reservation of 300.\<close>

definition sample_reservation :: Reservation where
  "sample_reservation = new_reservation ''r1'' ''u1'' ''req-0'' 300 1786751000"

definition sample_db :: database where
  "sample_db = empty_db\<lparr>
     credit_accounts := [\<lparr>a_user_id = ''u1'', a_balance = 700, a_updated_at = 1786751000\<rparr>],
     credit_transactions :=
       [\<lparr>t_id = ''g1'', t_user_id = ''u1'', t_amount = 1000, t_type = ''grant'', t_source = ''signup'',
         t_reference_id = None, t_idempotency_key = Some ''signup:u1'', t_metadata = Some [(''reason'', ''welcome'')],
         t_created_at = 1786750000\<rparr>,
        debit_row ''r1'' ''u1'' ''req-0'' 300 1786751000],
     credit_reservations := [sample_reservation]\<rparr>"

lemma sample_db_simps [simp]:
  "credit_reservations sample_db = [sample_reservation]" "r_ID sample_reservation = ''r1''"
  "r_UserID sample_reservation = ''u1''" "r_Amount sample_reservation = 300" "r_RequestID sample_reservation = ''req-0''"
  "r_Status sample_reservation = reservationStatusReserved" "r_CreatedAt sample_reservation = 1786751000"
  "balance_of sample_db u = (if u = ''u1'' then 700 else 0)"
  by (simp_all add: sample_db_def sample_reservation_def balance_of_def)

lemma sample_db_inv: "credits_inv sample_db"
proof -
  have "ledger_inv sample_db"
    by (auto simp: ledger_inv_def ledger_wf_def ledger_sum_def sample_db_def balance_of_def debit_row_def
        List.map_filter_def)
  moreover have "resv_inv sample_db"
    by (auto simp: resv_inv_def row_ok_def held_def ref_sum_def has_account_def max_int64_def sample_db_def
        sample_reservation_def debit_row_def)
  ultimately show ?thesis by (simp add: credits_inv_def)
qed

text \<open>C11: \<open>Reserve\<close> withdraws exactly what it reserves and never overdraws. Whatever faults occur, an error leaves
  every table unchanged. On success the returned reservation belongs to the user and the request id and is stored;
  either it existed before and nothing changed, or it is new and open with the requested amount, the user's balance
  dropped by exactly that amount, is still not negative, and no other balance changed.\<close>

theorem Reserve_withdraws:
  assumes "credits_inv (db w)" "n \<le> max_int64"
  shows "case Reserve u q n w of
     (Inl e, w') \<Rightarrow> db w' = db w
   | (Inr r, w') \<Rightarrow>
       r_UserID r = u \<and> r_RequestID r = q \<and> r \<in> set (credit_reservations (db w')) \<and> credits_inv (db w') \<and>
       (db w' = db w \<or>
        r_Amount r = n \<and> r_Status r = reservationStatusReserved \<and> 0 \<le> balance_of (db w') u \<and>
        (\<forall>v. balance_of (db w') v = balance_of (db w) v - (if v = u then n else 0)))"
proof (cases "Reserve u q n w")
  case (Pair x w')
  show ?thesis
  proof (cases x)
    case (Inl e)
    then show ?thesis using Pair by (simp add: Reserve_Inl)
  next
    case (Inr r)
    with Pair have run: "Reserve u q n w = (Inr r, w')" by simp
    note eff = Reserve_Inr [OF run credits_inv_wf [OF assms(1)] assms(2)]
    show ?thesis
    proof (cases "find (\<lambda>r. r_RequestID r = q) (credit_reservations (db w)) = Some r \<and> r_UserID r = u \<and> db w' = db w")
      case True
      then show ?thesis using run assms(1) by (auto dest: find_SomeD)
    next
      case False
      with eff have r: "1 \<le> n" "r_UserID r = u" "r_RequestID r = q" "r_Amount r = n" "reserved_from (db w) r (db w')" by auto
      then have inv: "credits_inv (db w')" using assms by (auto intro: credits_inv_reserved)
      from r(5) have st: "r = new_reservation (r_ID r) (r_UserID r) (r_RequestID r) (r_Amount r) (r_CreatedAt r)"
        by (simp add: reserved_from_def)
      have "r_Status r = reservationStatusReserved" by (subst st) simp
      then show ?thesis
        using run inv r by (auto simp: reserved_from_def Let_def)
    qed
  qed
qed


theorem Reserve_withdraws_witness:
  "case Reserve ''u1'' ''req-1'' 250 (sample_world sample_db) of
     (Inl e, w') \<Rightarrow> db w' = db (sample_world sample_db)
   | (Inr r, w') \<Rightarrow>
       r_UserID r = ''u1'' \<and> r_RequestID r = ''req-1'' \<and> r \<in> set (credit_reservations (db w')) \<and> credits_inv (db w') \<and>
       (db w' = db (sample_world sample_db) \<or>
        r_Amount r = 250 \<and> r_Status r = reservationStatusReserved \<and> 0 \<le> balance_of (db w') ''u1'' \<and>
        (\<forall>v. balance_of (db w') v = balance_of (db (sample_world sample_db)) v - (if v = ''u1'' then 250 else 0)))"
  by (rule Reserve_withdraws) (simp_all add: sample_db_inv max_int64_def)

text \<open>With no fault and a fresh request id, \<open>Reserve\<close> is decided by the balance alone. It succeeds with an open
  reservation if the balance covers the amount and fails with \<open>ErrInsufficientCredits\<close> otherwise, for a positive
  balance below the amount just as for a negative one and for a user without an account.\<close>

theorem Reserve_decided_by_balance:
  assumes "faults w = []" "valid_id u" "valid_id q" "1 \<le> n" "n \<le> max_int64" "ledger_wf (db w)"
    and "randomIDBytes \<le> length (rnd w)" "rid = hex_encode (take randomIDBytes (rnd w))"
    and "\<forall>x \<in> set (credit_reservations (db w)). r_ID x \<noteq> rid \<and> r_RequestID x \<noteq> q"
    and "fresh_row (debit_row rid u q n (now w)) (db w)"
  shows "fst (Reserve u q n w) =
     (if n \<le> balance_of (db w) u then Inr (new_reservation rid u q n (now w)) else Inl ErrInsufficientCredits)"
  using Reserve_ok [OF assms] by (cases "n \<le> balance_of (db w) u") auto

lemma sample_rid:
  "hex_encode (take randomIDBytes (rnd (sample_world d))) = ''000102030405060708090a0b0c0d0e0f''"
  by (simp add: sample_world_def randomIDBytes_def) code_simp

theorem Reserve_decided_by_balance_witness:
  "fst (Reserve ''u1'' ''req-1'' 701 (sample_world sample_db)) = Inl ErrInsufficientCredits"
proof -
  let ?w = "sample_world sample_db" and ?rid = "''000102030405060708090a0b0c0d0e0f''"
  have wf: "ledger_wf (db ?w)" using credits_inv_wf [OF sample_db_inv] by simp
  have fr: "fresh_row (debit_row ?rid ''u1'' ''req-1'' 701 (now ?w)) (db ?w)"
    by (simp add: fresh_row_def key_used_def sample_db_def debit_row_def)
  have len: "randomIDBytes \<le> length (rnd ?w)" by (simp add: sample_world_def randomIDBytes_def)
  show ?thesis
    using Reserve_decided_by_balance [OF _ valid_sample_ids(1) _ _ _ wf len sample_rid [symmetric] _ fr] valid_sample_ids
    by (simp add: max_int64_def)
qed

text \<open>\<open>Reserve\<close> is idempotent by request id: if the user already has a reservation for it, in whatever status
  and for whatever amount, the call returns that reservation and changes no table; the id of another user's
  request is refused.\<close>

theorem Reserve_idempotent:
  assumes "faults w = []" "valid_id u" "valid_id q" "1 \<le> n"
    and "find (\<lambda>r. r_RequestID r = q) (credit_reservations (db w)) = Some r"
  shows "Reserve u q n w =
     (if r_UserID r = u then (Inr r, w) else (Inl (ErrMsg ''credits: request_id already used by another user''), w))"
  using assms
  by (simp add: Reserve_def reserve_tx_def lookupReservation_def io_ok row_or_none_def)

theorem Reserve_idempotent_witness:
  "Reserve ''u1'' ''req-0'' 5 (sample_world sample_db) = (Inr sample_reservation, sample_world sample_db)"
proof -
  have "valid_id ''req-0''" by code_simp
  then show ?thesis
    using Reserve_idempotent [of "sample_world sample_db" "''u1''" "''req-0''" 5 sample_reservation] valid_sample_ids
    by simp
qed

text \<open>C5: \<open>Settle\<close> charges exactly the actual cost. Whatever faults occur, an error leaves every table unchanged. On
  success the stored reservation was open and is now captured at exactly the actual cost; the user's balance moved
  by the reserved amount minus the actual cost (a refund of the unused part, or a draw of the overage); and the
  caller's struct, whatever it claimed before, reports the stored outcome.\<close>

theorem Settle_charges_actual:
  assumes "credits_inv (db w)" "n \<le> max_int64"
  shows "case Settle (Some a) n w of
     (Inl e, a', w') \<Rightarrow> db w' = db w
   | (Inr _, a', w') \<Rightarrow>
       credits_inv (db w') \<and> 0 \<le> n \<and>
       (\<exists>r \<in> set (credit_reservations (db w)). r_ID r = r_ID a \<and> r_Status r = reservationStatusReserved \<and>
          (\<forall>v. balance_of (db w') v = balance_of (db w) v + (if v = r_UserID r then r_Amount r - n else 0)) \<and>
          (\<exists>r' \<in> set (credit_reservations (db w')). r_ID r' = r_ID a \<and> r_Status r' = reservationStatusCaptured \<and>
             r_Captured r' = n \<and> r_Released r' = max 0 (r_Amount r - n)) \<and>
          (\<exists>b. a' = Some b \<and> r_Amount b = r_Amount r \<and> r_UserID b = r_UserID r \<and> r_Captured b = n \<and>
             r_Released b = max 0 (r_Amount r - n) \<and> r_Status b = reservationStatusCaptured))"
proof -
  obtain x b w' where run: "with_arg (finalize n False) a w = (x, b, w')" by (cases "with_arg (finalize n False) a w") auto
  show ?thesis
  proof (cases x)
    case (Inl e)
    then show ?thesis using run by (simp add: Settle_def with_arg_Inl)
  next
    case (Inr y)
    with run have run': "with_arg (finalize n False) a w = (Inr y, b, w')" by simp
    obtain r out where f: "find (\<lambda>x. r_ID x = r_ID a) (credit_reservations (db w)) = Some r" and n: "0 \<le> n"
      and fin: "finalized_from n False (db w) r out (now w) (db w')"
      and b: "b = a\<lparr>r_Amount := r_Amount r, r_UserID := r_UserID r, r_Captured := n,
        r_Released := returnAmt out, r_Status := out_status out, r_UpdatedAt := now w\<rparr>"
      using run' assms(1) by (rule with_arg_Inr) auto
    note eff = finalized_effect [OF assms(1) fin n assms(2), simplified]
    have r: "r \<in> set (credit_reservations (db w))" "r_ID r = r_ID a" "r_Status r = reservationStatusReserved"
      using f fin by (auto simp: finalized_from_def dest: find_SomeD)
    have "credits_inv (db w')" using credits_inv_finalized [OF assms(1) fin n assms(2)] by simp
    moreover from eff(1) obtain r' where "r' \<in> set (credit_reservations (db w'))" "r_ID r' = r_ID a"
      "r_Captured r' = n" "r_Released r' = max 0 (r_Amount r - n)" "r_Status r' = reservationStatusCaptured"
      using r(2) by auto
    ultimately show ?thesis
      unfolding Settle_def option.case run' prod.case sum.case
      using r n eff(2-4) b by (intro conjI bexI [of _ r] bexI [of _ r']) simp_all
  qed
qed

theorem Settle_charges_actual_witness:
  "case Settle (Some sample_reservation) 350 (sample_world sample_db) of
     (Inl e, a', w') \<Rightarrow> db w' = db (sample_world sample_db)
   | (Inr _, a', w') \<Rightarrow>
       credits_inv (db w') \<and> 0 \<le> (350::int) \<and>
       (\<exists>r \<in> set (credit_reservations (db (sample_world sample_db))). r_ID r = r_ID sample_reservation \<and>
          r_Status r = reservationStatusReserved \<and>
          (\<forall>v. balance_of (db w') v =
             balance_of (db (sample_world sample_db)) v + (if v = r_UserID r then r_Amount r - 350 else 0)) \<and>
          (\<exists>r' \<in> set (credit_reservations (db w')). r_ID r' = r_ID sample_reservation \<and>
             r_Status r' = reservationStatusCaptured \<and>
             r_Captured r' = 350 \<and> r_Released r' = max 0 (r_Amount r - 350)) \<and>
          (\<exists>b. a' = Some b \<and> r_Amount b = r_Amount r \<and> r_UserID b = r_UserID r \<and> r_Captured b = 350 \<and>
             r_Released b = max 0 (r_Amount r - 350) \<and> r_Status b = reservationStatusCaptured))"
  by (rule Settle_charges_actual) (simp_all add: sample_db_inv max_int64_def)

text \<open>C8: a reservation is paid at most once. Over any sequence of \<open>Settle\<close> and \<open>Release\<close> calls that name an open
  reservation, with any prices, any caller structs and in any worlds (faults, restarts), either no call took effect
  and the database is untouched, or exactly one call of the sequence decided the price: the reservation is closed and
  its user's balance moved by the reserved amount minus that call's price (0 for \<open>Release\<close>), no other balance
  moved.\<close>

theorem finalized_at_most_once:
  assumes "credits_inv d" "r \<in> set (credit_reservations d)" "r_Status r = reservationStatusReserved"
    and "\<forall>(c, a, w) \<in> set calls. r_ID a = r_ID r"
  shows "let d' = refinalize close_call calls d
         in d' = d \<or>
            (closed_in d' (r_ID r) \<and>
             (\<exists>c \<in> fst ` set calls. \<forall>v. balance_of d' v =
                balance_of d v + (if v = r_UserID r then r_Amount r - close_price c else 0)))"
  using closing.refinalize_once [OF assms] by (simp add: Let_def)

theorem finalized_at_most_once_witness:
  "let d' = refinalize close_call
       [(ReleaseCall, sample_reservation, sample_world sample_db), (SettleCall 120, sample_reservation, sample_world sample_db)]
       sample_db
   in d' = sample_db \<or>
      (closed_in d' ''r1'' \<and>
       (\<exists>c \<in> {ReleaseCall, SettleCall 120}. \<forall>v. balance_of d' v =
          balance_of sample_db v + (if v = ''u1'' then 300 - close_price c else 0)))"
  using finalized_at_most_once [OF sample_db_inv, of sample_reservation
      "[(ReleaseCall, sample_reservation, sample_world sample_db), (SettleCall 120, sample_reservation, sample_world sample_db)]"]
  by (simp only: sample_db_simps list.set insert_iff image_insert image_empty fst_conv refl simp_thms split_beta ball_simps
      snd_conv)

text \<open>The refusals of \<open>Settle\<close> and \<open>Release\<close>, without faults. A null struct and an unknown id give
  \<open>ErrReservationNotFound\<close>, a reservation that is no longer reserved gives \<open>ErrReservationClosed\<close>, a negative price
  is refused before the database is asked; in every case no table changes.\<close>

theorem finalize_refusals:
  assumes "faults w = []"
    and "case find (\<lambda>r. r_ID r = r_ID a) (credit_reservations (db w)) of
           None \<Rightarrow> e = ErrReservationNotFound
         | Some r \<Rightarrow> e = ErrReservationClosed \<and> r_Status r \<noteq> reservationStatusReserved"
  shows "Settle None n w = (Inl ErrReservationNotFound, None, w) \<and>
         Release None w = (Inl ErrReservationNotFound, None, w) \<and>
         Release (Some a) w = (Inl e, Some a, w) \<and>
         Settle (Some a) n w = (Inl (if n < 0 then ErrMsg ''credits: negative capture'' else e), Some a, w)"
  using finalize_refused [OF assms] .

theorem finalize_refusals_witness:
  "Settle (Some (sample_reservation\<lparr>r_ID := ''r9''\<rparr>)) 5 (sample_world sample_db) =
     (Inl ErrReservationNotFound, Some (sample_reservation\<lparr>r_ID := ''r9''\<rparr>), sample_world sample_db)"
  using finalize_refusals [where w = "sample_world sample_db" and
      a = "sample_reservation\<lparr>r_ID := ''r9''\<rparr>" and e = ErrReservationNotFound and n = 5]
  by simp

text \<open>Without faults, \<open>Release\<close> of an open reservation succeeds and gives everything back: the stored row is
  released with the full amount as its released part, the user's balance grows by the reserved amount, every other
  balance stays.\<close>

theorem Release_returns_everything:
  assumes "faults w = []" "credits_inv (db w)" "randomIDBytes \<le> length (rnd w)"
    and "find (\<lambda>x. r_ID x = r_ID a) (credit_reservations (db w)) = Some r" "r_Status r = reservationStatusReserved"
    and "\<forall>x \<in> set (credit_transactions (db w)). t_id x \<noteq> hex_encode (take randomIDBytes (rnd w))"
  shows "fst (Release (Some a) w) = Inr () \<and>
     (let d' = db (snd (snd (Release (Some a) w)))
      in (\<forall>v. balance_of d' v = balance_of (db w) v + (if v = r_UserID r then r_Amount r else 0)) \<and>
         (\<exists>r' \<in> set (credit_reservations d'). r_ID r' = r_ID a \<and> r_Status r' = reservationStatusReleased \<and>
            r_Released r' = r_Amount r \<and> r_Captured r' = 0))"
proof -
  obtain b w' where run: "with_arg (finalize 0 True) a w = (Inr (), b, w')"
    using finalize_ok [of "world.extend w \<lparr>arg = a\<rparr>" r True 0] assms
    by (cases "finalize 0 True (world.extend w \<lparr>arg = a\<rparr>)") (auto simp: with_arg_def)
  obtain r0 out where f: "find (\<lambda>x. r_ID x = r_ID a) (credit_reservations (db w)) = Some r0"
    and fin: "finalized_from 0 True (db w) r0 out (now w) (db w')"
    using run assms(2) by (rule with_arg_Inr)
  have r0: "r0 = r" using f assms(4) by simp
  have rng: "0 \<le> (0::int)" "(0::int) \<le> max_int64" by (simp_all add: max_int64_def)
  note eff = finalized_effect [OF assms(2) fin [unfolded r0] rng refl]
  have amt: "1 \<le> r_Amount r" "r_ID r = r_ID a"
    using assms(2,4) by (auto simp: credits_inv_def resv_inv_def dest!: find_SomeD row_okD)
  from eff(1) amt obtain r' where "r' \<in> set (credit_reservations (db w'))" "r_ID r' = r_ID a"
    "r_Status r' = reservationStatusReleased" "r_Released r' = r_Amount r" "r_Captured r' = 0" by auto
  then have "\<exists>r' \<in> set (credit_reservations (db w')). r_ID r' = r_ID a \<and> r_Status r' = reservationStatusReleased \<and>
            r_Released r' = r_Amount r \<and> r_Captured r' = 0" by blast
  then show ?thesis using eff(2) by (simp add: Release_def run Let_def)
qed

theorem Release_returns_everything_witness:
  "fst (Release (Some sample_reservation) (sample_world sample_db)) = Inr () \<and>
   balance_of (db (snd (snd (Release (Some sample_reservation) (sample_world sample_db))))) ''u1'' = 1000"
proof -
  have "\<forall>x \<in> set (credit_transactions sample_db). t_id x \<noteq> ''000102030405060708090a0b0c0d0e0f''"
    by (simp add: sample_db_def debit_row_def)
  then show ?thesis
    using Release_returns_everything [of "sample_world sample_db" sample_reservation sample_reservation] sample_db_inv
    by (simp add: sample_rid Let_def) (simp add: randomIDBytes_def)
qed

end
