(* ===== verification/Reconcile.thy ===== *)
theory Reconcile
  imports Reservations
begin

text \<open>
  The maintenance pass of \<open>src/credits/reconcile.go\<close>: \<open>Reconcile\<close> expires stale reservations (\<open>expireStale\<close>, one
  transaction of \<open>expireOne\<close> per row) and reports accounts whose balance is not the sum of their ledger rows
  (\<open>detectDrift\<close>).

  The sweep is described by \<open>swept\<close>: which reservations were flipped, that every flip returned the row's amount and
  that nothing else moved. It holds of every run, also one that is cut short by a fault, with the flipped rows a part
  of the stale ones then.
\<close>

section \<open>Expiring stale reservations\<close>

text \<open>\<open>UPDATE credit_reservations SET status = 'expired', updated_at = ? WHERE id = ? AND status = 'reserved'\<close>.\<close>

definition expire_row :: "int \<Rightarrow> Reservation \<Rightarrow> Reservation" where
  "expire_row ts r = r\<lparr>r_Status := reservationStatusExpired, r_UpdatedAt := ts\<rparr>"

definition expire_reservation :: "string \<Rightarrow> int \<Rightarrow> database \<Rightarrow> error + (nat \<times> database)" where
  "expire_reservation rid ts d =
     (let p = (\<lambda>r. r_ID r = rid \<and> r_Status r = reservationStatusReserved)
      in Inr (count_where p (credit_reservations d),
              d\<lparr>credit_reservations := update_where p (expire_row ts) (credit_reservations d)\<rparr>))"

definition expireOne :: "string \<Rightarrow> string \<Rightarrow> int \<Rightarrow> int \<Rightarrow> 'z world_scheme \<Rightarrow> (error + unit) \<times> 'z world_scheme" where
  "expireOne rid userID amount ts =
     transaction (
       bind_io (stmt (expire_reservation rid ts)) (\<lambda>n.
       if n = 0 then return_io (Abandon ()) else
       bind_io newID (\<lambda>lid.
       bind_io (stmt (insert_ledger
         \<lparr>t_id = lid, t_user_id = userID, t_amount = amount, t_type = ''reservation_release'', t_source = ''reconcile'',
          t_reference_id = Some rid, t_idempotency_key = None, t_metadata = None, t_created_at = ts\<rparr>)) (\<lambda>_.
       bind_io (stmt (bump_account userID amount ts)) (\<lambda>_.
       return_io (Commit ()))))))"

primrec expire_loop :: "(string \<times> string \<times> int) list \<Rightarrow> int \<Rightarrow> 'z world_scheme \<Rightarrow> (error + unit) \<times> 'z world_scheme" where
  "expire_loop [] ts = return_io ()"
| "expire_loop (st # sts) ts =
     bind_io (expireOne (fst st) (fst (snd st)) (snd (snd st)) ts) (\<lambda>_. expire_loop sts ts)"

definition stale :: "int \<Rightarrow> Reservation \<Rightarrow> bool" where
  "stale cutoff r \<longleftrightarrow> r_Status r = reservationStatusReserved \<and> r_CreatedAt r < cutoff"

definition stale_rows :: "int \<Rightarrow> database \<Rightarrow> (string \<times> string \<times> int) list" where
  "stale_rows cutoff d =
     map (\<lambda>r. (r_ID r, r_UserID r, r_Amount r)) (filter (stale cutoff) (credit_reservations d))"

definition expireStale :: "Service \<Rightarrow> 'z world_scheme \<Rightarrow> (error + unit) \<times> 'z world_scheme" where
  "expireStale s =
     bind_io (read_io (\<lambda>w. unix (clk w - ReservationTimeout s))) (\<lambda>cutoff.
     bind_io (query (\<lambda>d. Inr (stale_rows cutoff d))) (\<lambda>stales.
     bind_io (read_io now) (\<lambda>ts.
     expire_loop stales ts)))"

section \<open>Detecting drift\<close>

record Mismatch =
  m_UserID :: string
  m_LedgerSum :: int
  m_Balance :: int

text \<open>The rows of \<open>users LEFT JOIN credit_accounts\<close>, one per user and account, and the balance 0 without an account.\<close>

definition drift_rows :: "database \<Rightarrow> Mismatch list" where
  "drift_rows d =
     concat (map (\<lambda>u.
       let ls = sum_where (\<lambda>t. t_user_id t = u) t_amount (credit_transactions d);
           as = filter (\<lambda>a. a_user_id a = u) (credit_accounts d)
       in if as = [] then [\<lparr>m_UserID = u, m_LedgerSum = ls, m_Balance = 0\<rparr>]
          else map (\<lambda>a. \<lparr>m_UserID = u, m_LedgerSum = ls, m_Balance = a_balance a\<rparr>) as)
       (remdups (map a_user_id (credit_accounts d) @ map t_user_id (credit_transactions d))))"

definition detectDrift :: "'z world_scheme \<Rightarrow> (error + Mismatch list) \<times> 'z world_scheme" where
  "detectDrift =
     bind_io (query (\<lambda>d. Inr (drift_rows d))) (\<lambda>rows.
     return_io (filter (\<lambda>m. m_Balance m \<noteq> m_LedgerSum m) rows))"

definition Reconcile :: "Service \<Rightarrow> 'z world_scheme \<Rightarrow> (error + Mismatch list) \<times> 'z world_scheme" where
  "Reconcile s = bind_io (expireStale s) (\<lambda>_. detectDrift)"

section \<open>One expiry\<close>

definition expiry_row :: "string \<Rightarrow> Reservation \<Rightarrow> int \<Rightarrow> ledger_row" where
  "expiry_row lid r ts =
     \<lparr>t_id = lid, t_user_id = r_UserID r, t_amount = r_Amount r, t_type = ''reservation_release'', t_source = ''reconcile'',
      t_reference_id = Some (r_ID r), t_idempotency_key = None, t_metadata = None, t_created_at = ts\<rparr>"

lemma expiry_row_simps [simp]:
  "t_user_id (expiry_row lid r ts) = r_UserID r" "t_amount (expiry_row lid r ts) = r_Amount r"
  "t_reference_id (expiry_row lid r ts) = Some (r_ID r)" "t_idempotency_key (expiry_row lid r ts) = None"
  by (simp_all add: expiry_row_def)

lemma expire_row_simps [simp]:
  "r_ID (expire_row ts r) = r_ID r" "r_RequestID (expire_row ts r) = r_RequestID r"
  "r_UserID (expire_row ts r) = r_UserID r" "r_Amount (expire_row ts r) = r_Amount r"
  "r_Captured (expire_row ts r) = r_Captured r" "r_Released (expire_row ts r) = r_Released r"
  "r_Status (expire_row ts r) = reservationStatusExpired" "r_CreatedAt (expire_row ts r) = r_CreatedAt r"
  by (simp_all add: expire_row_def)

text \<open>The reservations of \<open>d'\<close> are those of \<open>d\<close>, the open ones among \<open>ids\<close> closed by \<open>f\<close> at no cost, and no grant or
  refund was posted in between.\<close>

definition voids :: "(Reservation \<Rightarrow> Reservation) \<Rightarrow> bool" where
  "voids f \<longleftrightarrow> (\<forall>r. r_ID (f r) = r_ID r \<and> r_UserID (f r) = r_UserID r \<and> r_Amount (f r) = r_Amount r \<and>
     r_Status (f r) \<noteq> reservationStatusReserved \<and> held (f r) = 0)"

definition swept :: "(Reservation \<Rightarrow> Reservation) \<Rightarrow> string set \<Rightarrow> database \<Rightarrow> database \<Rightarrow> bool" where
  "swept f ids d d' \<longleftrightarrow>
     credits_inv d' \<and> (\<forall>u. funded d' u = funded d u) \<and>
     credit_reservations d' =
       update_where (\<lambda>r. r_ID r \<in> ids \<and> r_Status r = reservationStatusReserved) f (credit_reservations d)"

lemma voids_expire [simp]: "voids (expire_row ts)"
  by (simp add: voids_def held_def)

lemma swept_empty: "credits_inv d \<Longrightarrow> swept f {} d d"
  by (simp add: swept_def update_where_def)

lemma swept_trans: "voids f \<Longrightarrow> swept f A d d1 \<Longrightarrow> swept f B d1 d2 \<Longrightarrow> swept f (A \<union> B) d d2"
  by (auto simp: swept_def update_where_def voids_def)

text \<open>The balance a sweep gives back.\<close>

lemma swept_balance:
  assumes f: "voids f" and "credits_inv d" "swept f ids d d'"
  shows "balance_of d' u = balance_of d u +
     sum_where (\<lambda>r. r_UserID r = u \<and> r_ID r \<in> ids \<and> r_Status r = reservationStatusReserved) r_Amount (credit_reservations d)"
proof -
  let ?p = "\<lambda>r. r_ID r \<in> ids \<and> r_Status r = reservationStatusReserved"
  have "sum_where (\<lambda>r. r_UserID r = u) held (update_where ?p f rs) =
        sum_where (\<lambda>r. r_UserID r = u) held rs - sum_where (\<lambda>r. r_UserID r = u \<and> ?p r) r_Amount rs" for rs
  proof (induction rs)
    case (Cons r rs)
    have "held (f r) = 0" "r_UserID (f r) = r_UserID r" using f by (simp_all add: voids_def)
    then show ?case using Cons by (simp add: held_def [of r])
  qed simp
  then have "held_total d' u = held_total d u - sum_where (\<lambda>r. r_UserID r = u \<and> ?p r) r_Amount (credit_reservations d)"
    using assms(3) by (simp add: held_total_def swept_def)
  then show ?thesis
    using assms balance_split [of d u] balance_split [of d' u] by (simp add: swept_def)
qed

lemma expireOne_Inl: "expireOne rid u n ts w = (Inl e, w') \<Longrightarrow> db w' = db w"
  by (simp add: expireOne_def transaction_Inl)

text \<open>The arguments of \<open>expireOne\<close> were read from the row; they still describe it, whatever its status is now.\<close>

definition describes :: "string \<times> string \<times> int \<Rightarrow> database \<Rightarrow> bool" where
  "describes st d \<longleftrightarrow>
     (\<forall>r \<in> set (credit_reservations d). r_ID r = fst st \<longrightarrow> r_UserID r = fst (snd st) \<and> r_Amount r = snd (snd st))"

lemma describes_swept: "voids f \<Longrightarrow> swept f ids d d' \<Longrightarrow> describes st d \<Longrightarrow> describes st d'"
  by (auto simp: describes_def swept_def set_update_where voids_def)

lemma expireOne_Inr:
  assumes run: "expireOne rid u n ts w = (Inr x, w')" and inv: "credits_inv (db w)" and st: "describes (rid, u, n) (db w)"
  shows "swept (expire_row ts) {rid} (db w) (db w')"
proof -
  let ?p = "\<lambda>r. r_ID r = rid \<and> r_Status r = reservationStatusReserved"
  consider (raced) "\<forall>r \<in> set (credit_reservations (db w)). \<not> ?p r" "db w' = db w"
    | (flipped) r lid where "r \<in> set (credit_reservations (db w))" "?p r"
        "fresh_row (expiry_row lid r ts) (db w)"
        "db w' = close_in rid (expire_row ts) (posted (expiry_row lid r ts) ts (db w))"
  proof -
    from run [unfolded expireOne_def] show thesis
    proof (cases rule: transaction_Inr)
      case (abandon w2)
      then have "\<forall>r \<in> set (credit_reservations (db w)). \<not> ?p r"
        by (auto simp: io_inv expire_reservation_def Let_def split: if_splits)
      then show thesis using raced abandon by simp
    next
      case (commit w2)
      then obtain r lid d2 where r: "r \<in> set (credit_reservations (db w))" "?p r"
        and fr: "fresh_row \<lparr>t_id = lid, t_user_id = u, t_amount = n, t_type = ''reservation_release'', t_source = ''reconcile'',
          t_reference_id = Some rid, t_idempotency_key = None, t_metadata = None, t_created_at = ts\<rparr> (db w)"
        and d2: "d2 = (close_in rid (expire_row ts) (db w))\<lparr>credit_transactions := credit_transactions (db w) @
          [\<lparr>t_id = lid, t_user_id = u, t_amount = n, t_type = ''reservation_release'', t_source = ''reconcile'',
          t_reference_id = Some rid, t_idempotency_key = None, t_metadata = None, t_created_at = ts\<rparr>]\<rparr>"
        and b: "\<exists>k. bump_account u n ts d2 = Inr (k, db w')"
        by (auto simp: io_inv expire_reservation_def Let_def insert_ledger_Inr close_in_def split: if_splits)
      have e: "rid = r_ID r" "u = r_UserID r" "n = r_Amount r" using r st by (auto simp: describes_def)
      have "has_account d2 u" using credits_inv_accounts [OF inv] r e d2 by (simp add: has_account_def)
      then have "db w' = d2\<lparr>credit_accounts := add_balance u n ts (credit_accounts d2)\<rparr>"
        using b by (auto dest: bump_account_Inr)
      then have "db w' = close_in rid (expire_row ts) (posted (expiry_row lid r ts) ts (db w))"
        unfolding expiry_row_def e [symmetric] using d2 by (simp add: close_in_def posted_def)
      moreover have "fresh_row (expiry_row lid r ts) (db w)"
        unfolding expiry_row_def e [symmetric] by (rule fr)
      ultimately show thesis using r by (intro flipped)
    qed
  qed
  then show ?thesis
  proof cases
    case raced
    then show ?thesis using inv by (simp add: swept_def update_where_id)
  next
    case flipped
    then have "1 \<le> r_Amount r" "row_ok r" using inv by (auto simp: credits_inv_def resv_inv_def dest: row_okD)
    then have ok: "row_ok (expire_row ts r)" "held (expire_row ts r) = held r - r_Amount r"
      using flipped(2) by (auto simp: row_ok_def held_def)
    have "credits_inv (db w')"
      using credits_inv_close [OF inv flipped(1), of "posted (expiry_row lid r ts) ts (db w)" "r_Amount r"
          "expiry_row lid r ts" ts "expire_row ts"] flipped(2-4) ok by simp
    then show ?thesis
      using flipped(4) by (simp add: swept_def funded_def close_in_def)
  qed
qed


section \<open>The sweep\<close>

lemma expire_loop_swept:
  assumes "credits_inv (db w)" "\<forall>st \<in> set sts. describes st (db w)" "expire_loop sts ts w = (x, w')"
  shows "\<exists>ids. swept (expire_row ts) ids (db w) (db w') \<and> ids \<subseteq> fst ` set sts \<and> (x = Inr () \<longrightarrow> ids = fst ` set sts)"
  using assms
proof (induction sts arbitrary: w)
  case Nil
  then show ?case using swept_empty [of "db w" "expire_row ts"] by (auto simp: return_io_def)
next
  case (Cons st sts)
  obtain y w1 where one: "expireOne (fst st) (fst (snd st)) (snd (snd st)) ts w = (y, w1)" by fastforce
  show ?case
  proof (cases y)
    case (Inl e)
    with one Cons.prems have "db w' = db w" "x = Inl e"
      by (auto simp: bind_io_def dest: expireOne_Inl)
    then show ?thesis using swept_empty [OF Cons.prems(1)] by (intro exI [of _ "{}"]) auto
  next
    case (Inr z)
    have s1: "swept (expire_row ts) {fst st} (db w) (db w1)"
      using expireOne_Inr [OF one [unfolded Inr] Cons.prems(1)] Cons.prems(2) by (simp add: describes_def)
    have pre: "credits_inv (db w1)" "\<forall>st \<in> set sts. describes st (db w1)"
      using s1 Cons.prems(2) describes_swept [OF voids_expire s1] by (simp_all add: swept_def)
    have "expire_loop sts ts w1 = (x, w')" using Cons.prems(3) one Inr by (simp add: bind_io_def)
    from Cons.IH [OF pre this] obtain ids where ids: "swept (expire_row ts) ids (db w1) (db w')" "ids \<subseteq> fst ` set sts"
      "x = Inr () \<longrightarrow> ids = fst ` set sts" by blast
    then have "swept (expire_row ts) (insert (fst st) ids) (db w) (db w')" using swept_trans [OF voids_expire s1 ids(1)] by simp
    then show ?thesis using ids by (intro exI [of _ "insert (fst st) ids"]) auto
  qed
qed

lemma expireStale_swept:
  assumes inv: "credits_inv (db w)" and run: "expireStale s w = (x, w')"
  shows "\<exists>ids. swept (expire_row (now w)) ids (db w) (db w') \<and>
     ids \<subseteq> r_ID ` {r \<in> set (credit_reservations (db w)). stale (unix (clk w - ReservationTimeout s)) r} \<and>
     (x = Inr () \<longrightarrow> ids = r_ID ` {r \<in> set (credit_reservations (db w)). stale (unix (clk w - ReservationTimeout s)) r})"
proof -
  let ?cut = "unix (clk w - ReservationTimeout s)"
  have dist: "distinct (map r_ID (credit_reservations (db w)))" using inv by (simp add: credits_inv_def resv_inv_def)
  have ids: "fst ` set (stale_rows ?cut (db w)) = r_ID ` {r \<in> set (credit_reservations (db w)). stale ?cut r}"
    by (auto simp: stale_rows_def image_image)
  have desc: "\<forall>st \<in> set (stale_rows ?cut (db w)). describes st (db w)"
    using key_inj [OF dist] by (force simp: stale_rows_def describes_def)
  obtain l w1 where q: "query (\<lambda>d. Inr (stale_rows ?cut d)) w = (l, w1)" by fastforce
  then have w1: "db w1 = db w" "clk w1 = clk w" by (auto dest: query_any)
  show ?thesis
  proof (cases l)
    case (Inl e)
    then show ?thesis using run q w1 swept_empty [OF inv]
      by (intro exI [of _ "{}"]) (auto simp: expireStale_def bind_io_def read_io_def)
  next
    case (Inr sts)
    with q have "sts = stale_rows ?cut (db w)" by (simp add: query_Inr)
    then have "expire_loop (stale_rows ?cut (db w)) (now w) w1 = (x, w')"
      using run q Inr w1 by (simp add: expireStale_def bind_io_def read_io_def)
    from expire_loop_swept [OF _ _ this] show ?thesis using inv desc w1 ids by simp
  qed
qed

lemma detectDrift_any: "detectDrift w = (x, w') \<Longrightarrow> db w' = db w"
  by (cases "query (\<lambda>d. Inr (drift_rows d)) w")
    (auto simp: detectDrift_def bind_io_def return_io_def dest: query_any split: sum.splits)

text \<open>With unique accounts the join has one row per user.\<close>

lemma filter_key:
  "distinct (map key xs) \<Longrightarrow> filter (\<lambda>x. key x = k) xs = (case find (\<lambda>x. key x = k) xs of None \<Rightarrow> [] | Some x \<Rightarrow> [x])"
proof (induction xs)
  case (Cons x xs)
  from Cons.prems have "key x = k \<Longrightarrow> filter (\<lambda>x. key x = k) xs = []" by (auto simp: filter_empty_conv image_iff)
  with Cons show ?case by auto
qed simp

lemma drift_rows_users:
  assumes "ledger_wf d"
  shows "drift_rows d =
     map (\<lambda>u. \<lparr>m_UserID = u, m_LedgerSum = ledger_sum d u, m_Balance = balance_of d u\<rparr>)
       (remdups (map a_user_id (credit_accounts d) @ map t_user_id (credit_transactions d)))"
proof -
  have "filter (\<lambda>a. a_user_id a = u) (credit_accounts d) =
      (case find (\<lambda>a. a_user_id a = u) (credit_accounts d) of None \<Rightarrow> [] | Some a \<Rightarrow> [a])" for u
    using assms by (intro filter_key) (simp add: ledger_wf_def)
  then have row: "(let ls = sum_where (\<lambda>t. t_user_id t = u) t_amount (credit_transactions d);
           as = filter (\<lambda>a. a_user_id a = u) (credit_accounts d)
       in if as = [] then [\<lparr>m_UserID = u, m_LedgerSum = ls, m_Balance = 0\<rparr>]
          else map (\<lambda>a. \<lparr>m_UserID = u, m_LedgerSum = ls, m_Balance = a_balance a\<rparr>) as) =
      [\<lparr>m_UserID = u, m_LedgerSum = ledger_sum d u, m_Balance = balance_of d u\<rparr>]" for u
    by (simp add: Let_def ledger_sum_def balance_of_def split: option.splits)
  show ?thesis unfolding drift_rows_def row by (simp add: concat_map_singleton)
qed

lemma detectDrift_ok:
  assumes "faults w = []" "ledger_wf (db w)"
  shows "\<exists>ms. detectDrift w = (Inr ms, w) \<and>
     (\<forall>m. m \<in> set ms \<longleftrightarrow> m_Balance m = balance_of (db w) (m_UserID m) \<and>
        m_LedgerSum m = ledger_sum (db w) (m_UserID m) \<and> m_Balance m \<noteq> m_LedgerSum m)"
proof -
  have users: "u \<in> a_user_id ` set (credit_accounts (db w)) \<union> t_user_id ` set (credit_transactions (db w))"
    if "balance_of (db w) u \<noteq> ledger_sum (db w) u" for u
  proof (rule ccontr)
    assume "\<not> ?thesis"
    then have "find (\<lambda>a. a_user_id a = u) (credit_accounts (db w)) = None" "ledger_sum (db w) u = 0"
      by (auto simp: find_None_iff ledger_sum_def intro!: sum_where_none)
    with that show False by (simp add: balance_of_def)
  qed
  have "m \<in> set (filter (\<lambda>m. m_Balance m \<noteq> m_LedgerSum m) (drift_rows (db w))) \<longleftrightarrow>
      m_Balance m = balance_of (db w) (m_UserID m) \<and> m_LedgerSum m = ledger_sum (db w) (m_UserID m) \<and>
      m_Balance m \<noteq> m_LedgerSum m" for m
    using users [of "m_UserID m"] by (cases m) (auto simp: drift_rows_users [OF assms(2)])
  then show ?thesis using assms(1) by (simp add: detectDrift_def io_ok)
qed

lemma detectDrift_healthy:
  assumes "credits_inv (db w)" "detectDrift w = (Inr ms, w')"
  shows "ms = []"
  using assms drift_rows_users [OF credits_inv_wf [OF assms(1)]]
  by (auto simp: detectDrift_def io_inv credits_inv_def ledger_inv_def filter_empty_conv)

section \<open>The sweep without faults\<close>

text \<open>The ids that the next \<open>n\<close> calls of \<open>newID\<close> deliver.\<close>

primrec next_ids :: "nat \<Rightarrow> string \<Rightarrow> string list" where
  "next_ids 0 s = []"
| "next_ids (Suc n) s = hex_encode (take randomIDBytes s) # next_ids n (drop randomIDBytes s)"

lemma next_ids_snoc: "\<exists>x. next_ids (Suc n) s = next_ids n s @ [x]"
proof (induction n arbitrary: s)
  case (Suc n)
  from Suc [of "drop randomIDBytes s"] show ?case by auto
qed simp

definition enough_ids :: "nat \<Rightarrow> 'z world_scheme \<Rightarrow> bool" where
  "enough_ids n w \<longleftrightarrow>
     n * randomIDBytes \<le> length (rnd w) \<and> distinct (map t_id (credit_transactions (db w)) @ next_ids n (rnd w))"

lemma enough_ids_less: "enough_ids (Suc n) w \<Longrightarrow> enough_ids n w"
  using next_ids_snoc [of n "rnd w"] by (auto simp: enough_ids_def simp del: next_ids.simps)

lemma expireOne_ok:
  assumes nf: "faults w = []" and ids: "enough_ids (Suc n) w"
  shows "\<exists>w'. expireOne rid u a ts w = (Inr (), w') \<and> faults w' = [] \<and> enough_ids n w'"
proof (cases "count_where (\<lambda>r. r_ID r = rid \<and> r_Status r = reservationStatusReserved) (credit_reservations (db w)) = 0")
  case True
  then show ?thesis
    using nf enough_ids_less [OF ids] by (simp add: expireOne_def io_ok expire_reservation_def Let_def)
next
  case False
  let ?t = "\<lparr>t_id = hex_encode (take randomIDBytes (rnd w)), t_user_id = u, t_amount = a, t_type = ''reservation_release'',
      t_source = ''reconcile'', t_reference_id = Some rid, t_idempotency_key = None, t_metadata = None, t_created_at = ts\<rparr>"
  let ?d = "close_in rid (expire_row ts) (db w)"
  have fr: "insert_ledger ?t ?d = Inr (1, ?d\<lparr>credit_transactions := credit_transactions (db w) @ [?t]\<rparr>)"
    using ids by (subst insert_ledger_Inr) (force simp: fresh_row_def enough_ids_def)
  have len: "randomIDBytes \<le> length (rnd w)" using ids by (simp add: enough_ids_def)
  have "\<exists>w'. expireOne rid u a ts w = (Inr (), w') \<and> faults w' = [] \<and> rnd w' = drop randomIDBytes (rnd w) \<and>
      credit_transactions (db w') = credit_transactions (db w) @ [?t]"
    using False nf fr len
    by (simp add: expireOne_def io_ok expire_reservation_def Let_def newID_def close_in_def bump_account_def)
  then obtain w' where w': "expireOne rid u a ts w = (Inr (), w')" "faults w' = []" "rnd w' = drop randomIDBytes (rnd w)"
    "credit_transactions (db w') = credit_transactions (db w) @ [?t]" by blast
  have "enough_ids n w'" using ids w'(3,4) by (auto simp: enough_ids_def)
  then show ?thesis using w' by blast
qed

lemma expire_loop_ok:
  "faults w = [] \<Longrightarrow> enough_ids (length sts) w \<Longrightarrow> \<exists>w'. expire_loop sts ts w = (Inr (), w') \<and> faults w' = []"
proof (induction sts arbitrary: w)
  case (Cons st sts)
  then obtain w1 where "expireOne (fst st) (fst (snd st)) (snd (snd st)) ts w = (Inr (), w1)" "faults w1 = []"
    "enough_ids (length sts) w1"
    using expireOne_ok [of w "length sts"] by force
  with Cons.IH [of w1] show ?case by (auto simp: bind_io_def)
qed (simp add: return_io_def)


section \<open>Properties\<close>

text \<open>C15: \<open>Reconcile\<close> expires stale reservations and nothing else. In every run, also one cut short by a fault, the
  reservations afterwards are those before with some stale ones (still reserved and older than the timeout) marked
  expired, every user's balance has grown by exactly the amounts of the rows marked, and the invariant holds; if the
  call succeeds all stale rows were marked, and the drift report is empty.\<close>

theorem Reconcile_expires_stale:
  assumes "credits_inv (db w)"
  shows "case Reconcile s w of (x, w') \<Rightarrow>
     credits_inv (db w') \<and> (\<forall>ms. x = Inr ms \<longrightarrow> ms = []) \<and>
     (\<exists>expired.
        (\<forall>r. expired r \<longrightarrow> stale (unix (clk w - ReservationTimeout s)) r) \<and>
        (\<forall>ms. x = Inr ms \<longrightarrow> expired = stale (unix (clk w - ReservationTimeout s))) \<and>
        credit_reservations (db w') = update_where expired (expire_row (now w)) (credit_reservations (db w)) \<and>
        (\<forall>v. balance_of (db w') v =
           balance_of (db w) v + sum_where (\<lambda>r. r_UserID r = v \<and> expired r) r_Amount (credit_reservations (db w))))"
proof -
  let ?cut = "unix (clk w - ReservationTimeout s)" and ?rs = "credit_reservations (db w)"
  obtain x w' where run: "Reconcile s w = (x, w')" by fastforce
  obtain y w1 where ex: "expireStale s w = (y, w1)" by fastforce
  have db': "db w' = db w1" and y: "x = Inr ms \<Longrightarrow> y = Inr () \<and> detectDrift w1 = (Inr ms, w')" for ms
    using run ex by (cases y; auto simp: Reconcile_def bind_io_def dest: detectDrift_any)+
  from expireStale_swept [OF assms ex] obtain ids where sw: "swept (expire_row (now w)) ids (db w) (db w1)"
    and sub: "ids \<subseteq> r_ID ` {r \<in> set ?rs. stale ?cut r}" and all: "y = Inr () \<longrightarrow> ids = r_ID ` {r \<in> set ?rs. stale ?cut r}"
    by blast
  have dist: "distinct (map r_ID ?rs)" using assms by (simp add: credits_inv_def resv_inv_def)
  define expired where "expired = (\<lambda>r. stale ?cut r \<and> (y = Inr () \<or> r_ID r \<in> ids))"
  have eq: "(r_ID r \<in> ids \<and> r_Status r = reservationStatusReserved) \<longleftrightarrow> expired r" if r: "r \<in> set ?rs" for r
  proof
    assume a: "r_ID r \<in> ids \<and> r_Status r = reservationStatusReserved"
    with sub obtain r2 where r2: "r2 \<in> set ?rs" "stale ?cut r2" "r_ID r2 = r_ID r" by (auto simp: image_iff)
    have "r = r2" by (rule key_inj [OF dist r r2(1)]) (simp add: r2(3))
    then show "expired r" using a r2(2) by (simp add: expired_def)
  next
    assume "expired r"
    then show "r_ID r \<in> ids \<and> r_Status r = reservationStatusReserved" using all r by (auto simp: expired_def stale_def)
  qed
  have rows: "credit_reservations (db w') = update_where expired (expire_row (now w)) ?rs"
    using sw eq db' by (simp add: swept_def cong: update_where_cong)
  have "sum_where (\<lambda>r. r_UserID r = v \<and> r_ID r \<in> ids \<and> r_Status r = reservationStatusReserved) r_Amount ?rs =
      sum_where (\<lambda>r. r_UserID r = v \<and> expired r) r_Amount ?rs" for v
    using eq by (intro sum_where_cong) auto
  then have bal: "balance_of (db w') v = balance_of (db w) v + sum_where (\<lambda>r. r_UserID r = v \<and> expired r) r_Amount ?rs" for v
    using swept_balance [OF voids_expire assms sw, of v] db' by simp
  have inv: "credits_inv (db w')" using sw db' by (simp add: swept_def)
  have healthy: "ms = []" if "x = Inr ms" for ms
    using y [OF that] detectDrift_healthy inv db' by auto
  have "(\<forall>r. expired r \<longrightarrow> stale ?cut r) \<and> (\<forall>ms. x = Inr ms \<longrightarrow> expired = stale ?cut)"
    using y by (auto simp: expired_def)
  then show ?thesis unfolding run prod.case using inv healthy rows bal by blast
qed

theorem Reconcile_expires_stale_witness:
  "case Reconcile sample_service (sample_world sample_db) of (x, w') \<Rightarrow>
     credits_inv (db w') \<and> (\<forall>ms. x = Inr ms \<longrightarrow> ms = []) \<and>
     (\<exists>expired.
        (\<forall>r. expired r \<longrightarrow> stale (unix (clk (sample_world sample_db) - ReservationTimeout sample_service)) r) \<and>
        (\<forall>ms. x = Inr ms \<longrightarrow> expired = stale (unix (clk (sample_world sample_db) - ReservationTimeout sample_service))) \<and>
        credit_reservations (db w') =
          update_where expired (expire_row (now (sample_world sample_db))) (credit_reservations (db (sample_world sample_db))) \<and>
        (\<forall>v. balance_of (db w') v = balance_of (db (sample_world sample_db)) v +
           sum_where (\<lambda>r. r_UserID r = v \<and> expired r) r_Amount (credit_reservations (db (sample_world sample_db)))))"
  by (rule Reconcile_expires_stale) (simp add: sample_db_inv)

text \<open>The drift report is exact. Without faults and with unique accounts, \<open>detectDrift\<close> changes nothing and lists
  a user, with the stored balance and the ledger sum, if and only if the two differ.\<close>

theorem detectDrift_exact:
  assumes "faults w = []" "ledger_wf (db w)"
  shows "\<exists>ms. detectDrift w = (Inr ms, w) \<and>
     (\<forall>m. m \<in> set ms \<longleftrightarrow> m_Balance m = balance_of (db w) (m_UserID m) \<and>
        m_LedgerSum m = ledger_sum (db w) (m_UserID m) \<and> m_Balance m \<noteq> m_LedgerSum m)"
  using assms by (rule detectDrift_ok)

theorem detectDrift_exact_witness:
  "\<exists>ms. detectDrift (sample_world sample_db) = (Inr ms, sample_world sample_db) \<and>
     (\<forall>m. m \<in> set ms \<longleftrightarrow> m_Balance m = balance_of (db (sample_world sample_db)) (m_UserID m) \<and>
        m_LedgerSum m = ledger_sum (db (sample_world sample_db)) (m_UserID m) \<and> m_Balance m \<noteq> m_LedgerSum m)"
  by (rule detectDrift_exact) (use credits_inv_wf [OF sample_db_inv] in simp_all)

text \<open>Without faults, and if the random source delivers enough new ids for the rows to expire, \<open>Reconcile\<close> returns
  successfully (with an empty report, when the invariant holds).\<close>

theorem Reconcile_returns:
  assumes "faults w = []" "credits_inv (db w)"
    and "enough_ids (length (filter (stale (unix (clk w - ReservationTimeout s))) (credit_reservations (db w)))) w"
  shows "fst (Reconcile s w) = Inr []"
proof -
  let ?cut = "unix (clk w - ReservationTimeout s)"
  obtain w1 where w1: "expire_loop (stale_rows ?cut (db w)) (now w) w = (Inr (), w1)" "faults w1 = []"
    using expire_loop_ok [of w "stale_rows ?cut (db w)" "now w"] assms by (auto simp: stale_rows_def)
  then have ex: "expireStale s w = (Inr (), w1)"
    using assms(1) by (simp add: expireStale_def io_ok)
  then have inv: "credits_inv (db w1)" using expireStale_swept [OF assms(2) ex] by (auto simp: swept_def)
  from detectDrift_ok [OF w1(2) credits_inv_wf [OF inv]] obtain ms where dr: "detectDrift w1 = (Inr ms, w1)" by blast
  then have "ms = []" by (rule detectDrift_healthy [OF inv])
  then show ?thesis using ex dr by (simp add: Reconcile_def bind_io_def)
qed

theorem Reconcile_returns_witness: "fst (Reconcile sample_service (sample_world sample_db)) = Inr []"
proof (rule Reconcile_returns)
  have one: "filter (stale (unix (clk (sample_world sample_db) - ReservationTimeout sample_service)))
      (credit_reservations (db (sample_world sample_db))) = [sample_reservation]"
    by (simp add: stale_def unix_def sample_service_def)
  show "enough_ids (length (filter (stale (unix (clk (sample_world sample_db) - ReservationTimeout sample_service)))
      (credit_reservations (db (sample_world sample_db))))) (sample_world sample_db)"
    unfolding one using sample_rid [of sample_db]
    by (simp add: enough_ids_def) (simp add: randomIDBytes_def sample_db_def debit_row_def)
qed (simp_all add: sample_db_inv)

end
