(* ===== verification/Usages.thy ===== *)
theory Usages
  imports Ledger
begin

text \<open>
  The usage log of \<open>src/credits/usage.go\<close>: \<open>RecordUsage\<close> appends one row per request id to \<open>llm_usage\<close> and is
  idempotent by the table's unique constraint, which it recognises by the text of the driver's error;
  \<open>RecordUsageRetry\<close> repeats it, at most three times, while the driver reports contention.
\<close>

definition isUsageRequestDuplicate :: "error \<Rightarrow> bool" where
  "isUsageRequestDuplicate e \<longleftrightarrow> sublist ''UNIQUE constraint failed: llm_usage.request_id'' (error_text e)"

definition isBusyError :: "error \<Rightarrow> bool" where
  "isBusyError e \<longleftrightarrow> sublist ''database is locked'' (error_text e) \<or> sublist ''database is busy'' (error_text e)"

text \<open>\<open>INSERT INTO llm_usage\<close>, with its primary key and unique column.\<close>

definition insert_usage :: "usage_row \<Rightarrow> database \<Rightarrow> error + (nat \<times> database)" where
  "insert_usage l d =
     (if list_ex (\<lambda>x. l_id x = l_id l) (llm_usage d) then Inl (SqlUnique ''llm_usage.id'')
      else if list_ex (\<lambda>x. l_request_id x = l_request_id l) (llm_usage d) then Inl (SqlUnique ''llm_usage.request_id'')
      else Inr (1, d\<lparr>llm_usage := llm_usage d @ [l]\<rparr>))"

definition new_usage_row :: "Service \<Rightarrow> Usage \<Rightarrow> string \<Rightarrow> int \<Rightarrow> usage_row" where
  "new_usage_row s u lid createdAt =
     \<lparr>l_id = lid, l_request_id = u_RequestID u, l_user_id = u_UserID u, l_provider = u_Provider u, l_model = u_Model u,
      l_billing_mode = u_BillingMode u, l_input_tokens = u_InputTokens u, l_output_tokens = u_OutputTokens u,
      l_cached_input_tokens = u_CachedTokens u, l_reasoning_tokens = u_ReasoningTokens u,
      l_estimated_cost_microunits = None, l_actual_cost_microunits = Some (u_CostMicrounits u),
      l_credits_charged = u_CreditsCharged u,
      l_pricing_version = (if u_PricingVersion u = [] then version (pricer s) else u_PricingVersion u),
      l_created_at = unix createdAt\<rparr>"

definition RecordUsage :: "Service \<Rightarrow> Usage \<Rightarrow> 'z world_scheme \<Rightarrow> (error + unit) \<times> 'z world_scheme" where
  "RecordUsage s u =
     bind_io (read_io pick) (\<lambda>k.
     bind_io (check_io (validateUsage k u)) (\<lambda>_.
     bind_io (read_io (\<lambda>w. case u_CreatedAt u of None \<Rightarrow> clk w | Some t \<Rightarrow> t)) (\<lambda>createdAt.
     bind_io newID (\<lambda>lid.
     bind_io (try_io (stmt (insert_usage (new_usage_row s u lid createdAt)))) (\<lambda>r.
     case r of
       Inl e \<Rightarrow> if isUsageRequestDuplicate e then return_io () else throw_io e
     | Inr _ \<Rightarrow> return_io ())))))"

text \<open>
  The loop of \<open>RecordUsageRetry\<close> with \<open>n\<close> attempts left. \<open>ctx i\<close> is what the \<open>select\<close> after attempt \<open>i\<close> meets: the
  context's error, or the timer.
\<close>

primrec usage_attempts ::
  "Service \<Rightarrow> (nat \<Rightarrow> error option) \<Rightarrow> Usage \<Rightarrow> nat \<Rightarrow> 'z world_scheme \<Rightarrow> (error + unit) \<times> 'z world_scheme" where
  "usage_attempts s ctx u 0 = return_io ()"
| "usage_attempts s ctx u (Suc n) =
     bind_io (try_io (RecordUsage s u)) (\<lambda>r.
     case r of
       Inr _ \<Rightarrow> return_io ()
     | Inl e \<Rightarrow>
         if \<not> isBusyError e \<or> n = 0 then throw_io e
         else case ctx (3 - Suc n) of Some e' \<Rightarrow> throw_io e' | None \<Rightarrow> usage_attempts s ctx u n)"

definition RecordUsageRetry ::
  "Service \<Rightarrow> (nat \<Rightarrow> error option) \<Rightarrow> Usage \<Rightarrow> 'z world_scheme \<Rightarrow> (error + unit) \<times> 'z world_scheme" where
  "RecordUsageRetry s ctx u = usage_attempts s ctx u 3"

section \<open>What the operations do\<close>

definition usage_recorded :: "database \<Rightarrow> string \<Rightarrow> bool" where
  "usage_recorded d q \<longleftrightarrow> list_ex (\<lambda>l. l_request_id l = q) (llm_usage d)"

definition usage_wf :: "database \<Rightarrow> bool" where
  "usage_wf d \<longleftrightarrow> distinct (map l_id (llm_usage d)) \<and> distinct (map l_request_id (llm_usage d))"

lemma insert_usage_Inr:
  "insert_usage l d = Inr (n, d') \<longleftrightarrow>
     (\<forall>x \<in> set (llm_usage d). l_id x \<noteq> l_id l \<and> l_request_id x \<noteq> l_request_id l) \<and> n = 1 \<and>
     d' = d\<lparr>llm_usage := llm_usage d @ [l]\<rparr>"
  by (auto simp: insert_usage_def list_ex_iff)

text \<open>A fault whose text is not mistaken for the constraint on the request id.\<close>

definition honest_faults :: "'z world_scheme \<Rightarrow> bool" where
  "honest_faults w \<longleftrightarrow> (\<forall>f \<in> set (faults w). \<forall>m. f = Some m \<longrightarrow> \<not> isUsageRequestDuplicate (ErrDb m))"

lemma dup_texts:
  "\<not> isUsageRequestDuplicate (SqlUnique ''llm_usage.id'')" "isUsageRequestDuplicate (SqlUnique ''llm_usage.request_id'')"
  by (code_simp, code_simp)

text \<open>Every run either appends the one row or changes nothing.\<close>

definition appended :: "Service \<Rightarrow> Usage \<Rightarrow> database \<Rightarrow> database \<Rightarrow> bool" where
  "appended s u d d' \<longleftrightarrow>
     (\<exists>lid t. d' = d\<lparr>llm_usage := llm_usage d @ [new_usage_row s u lid t]\<rparr> \<and>
        (\<forall>x \<in> set (llm_usage d). l_id x \<noteq> lid \<and> l_request_id x \<noteq> u_RequestID u))"

lemma new_usage_row_simps [simp]: "l_id (new_usage_row s u i t) = i" "l_request_id (new_usage_row s u i t) = u_RequestID u"
  by (simp_all add: new_usage_row_def)

lemma stmt_usage_cases:
  assumes "stmt (insert_usage l) w = (r, w')"
  shows "(\<exists>n. r = Inr n \<and> insert_usage l (db w) = Inr (n, db w')) \<or>
     (\<exists>e. r = Inl e \<and> db w' = db w \<and> (insert_usage l (db w) = Inl e \<or> (\<exists>m. e = ErrDb m \<and> Some m \<in> set (faults w))))"
  using assms
  by (cases "faults w") (auto simp: stmt_def Let_def split: option.splits sum.splits if_splits)

lemma RecordUsage_run:
  assumes run: "RecordUsage s u w = (x, w')"
  shows "db w' = db w \<or> x = Inr () \<and> appended s u (db w) (db w')"
    and "honest_faults w \<Longrightarrow> x = Inr () \<Longrightarrow> usage_recorded (db w') (u_RequestID u)"
proof -
  have "(db w' = db w \<or> x = Inr () \<and> appended s u (db w) (db w')) \<and>
    (honest_faults w \<longrightarrow> x = Inr () \<longrightarrow> usage_recorded (db w') (u_RequestID u))"
  proof (cases "validateUsage (pick w) u = None \<and> randomIDBytes \<le> length (rnd w)")
    case False
    then show ?thesis using run by (auto simp: RecordUsage_def io_defs newID_def split: option.splits if_splits)
  next
    case True
    let ?t = "case u_CreatedAt u of None \<Rightarrow> clk w | Some t \<Rightarrow> t"
    let ?l = "new_usage_row s u (hex_encode (take randomIDBytes (rnd w))) ?t"
    let ?w = "w\<lparr>rnd := drop randomIDBytes (rnd w)\<rparr>"
    obtain r w1 where st: "stmt (insert_usage ?l) ?w = (r, w1)" by fastforce
    have x: "w' = w1" "x = (case r of Inr _ \<Rightarrow> Inr () | Inl e \<Rightarrow> if isUsageRequestDuplicate e then Inr () else Inl e)"
      using run True st by (cases r; auto simp: RecordUsage_def io_defs newID_def split: if_splits)+
    from stmt_usage_cases [OF st] show ?thesis
    proof (elim disjE exE conjE)
      fix n assume "r = Inr n" "insert_usage ?l (db ?w) = Inr (n, db w1)"
      then show ?thesis using x by (auto simp: insert_usage_Inr appended_def usage_recorded_def)
    next
      fix e assume e: "r = Inl e" "db w1 = db ?w" "insert_usage ?l (db ?w) = Inl e"
      then have "x = Inr () \<Longrightarrow> usage_recorded (db w) (u_RequestID u)"
        using x dup_texts by (auto simp: insert_usage_def usage_recorded_def split: if_splits)
      then show ?thesis using e x by simp
    next
      fix e m assume e: "r = Inl e" "db w1 = db ?w" "e = ErrDb m" "Some m \<in> set (faults ?w)"
      then have "honest_faults w \<Longrightarrow> x = Inl e" using x by (auto simp: honest_faults_def)
      then show ?thesis using e x by auto
    qed
  qed
  then show "db w' = db w \<or> x = Inr () \<and> appended s u (db w) (db w')"
    "honest_faults w \<Longrightarrow> x = Inr () \<Longrightarrow> usage_recorded (db w') (u_RequestID u)" by blast+
qed

lemma RecordUsage_faults: "RecordUsage s u w = (x, w') \<Longrightarrow> faults w' = faults w \<or> faults w' = tl (faults w)"
  by (auto simp: RecordUsage_def io_defs newID_def stmt_def Let_def split: option.splits sum.splits if_splits)

lemma usage_attempts_run:
  assumes "usage_attempts s ctx u n w = (x, w')"
  shows "(db w' = db w \<or> x = Inr () \<and> appended s u (db w) (db w')) \<and> (\<exists>k \<le> n. faults w' = drop k (faults w))"
  using assms
proof (induction n arbitrary: w)
  case 0
  then show ?case by (simp add: return_io_def)
next
  case (Suc n)
  obtain r w1 where one: "RecordUsage s u w = (r, w1)" by fastforce
  have f: "\<exists>k \<le> 1. faults w1 = drop k (faults w)"
    using RecordUsage_faults [OF one]
  proof
    assume "faults w1 = faults w"
    then show ?thesis by (intro exI [of _ 0]) simp
  next
    assume "faults w1 = tl (faults w)"
    then show ?thesis by (intro exI [of _ 1]) (simp add: drop_Suc)
  qed
  then obtain j where j: "j \<le> 1" "faults w1 = drop j (faults w)" by blast
  show ?case
  proof (cases "\<exists>e. r = Inl e \<and> isBusyError e \<and> n \<noteq> 0 \<and> ctx (3 - Suc n) = None")
    case True
    then have "db w1 = db w" using RecordUsage_run(1) [OF one] by auto
    moreover have "usage_attempts s ctx u n w1 = (x, w')" using Suc.prems True one by (auto simp: io_defs)
    from Suc.IH [OF this] obtain k where "k \<le> n" "faults w' = drop k (faults w1)"
      "db w' = db w1 \<or> x = Inr () \<and> appended s u (db w1) (db w')" by blast
    ultimately show ?thesis using j by (intro conjI exI [of _ "k + j"]) auto
  next
    case False
    then have "w' = w1" "x = Inr () \<longleftrightarrow> r = Inr ()"
      using Suc.prems one by (cases r; auto simp: io_defs split: if_splits option.splits)+
    then show ?thesis using RecordUsage_run(1) [OF one] j by (intro conjI exI [of _ j]) auto
  qed
qed

lemma RecordUsage_ok:
  assumes "validateUsage (pick w) u = None" "randomIDBytes \<le> length (rnd w)"
    and "\<forall>x \<in> set (llm_usage (db w)). l_id x \<noteq> hex_encode (take randomIDBytes (rnd w))"
  shows "faults w = [] \<Longrightarrow> RecordUsage s u w =
      (Inr (), w\<lparr>rnd := drop randomIDBytes (rnd w),
        db := (if usage_recorded (db w) (u_RequestID u) then db w
               else (db w)\<lparr>llm_usage := llm_usage (db w) @
                 [new_usage_row s u (hex_encode (take randomIDBytes (rnd w))) (case u_CreatedAt u of None \<Rightarrow> clk w | Some t \<Rightarrow> t)]\<rparr>)\<rparr>)"
    and "faults w = Some m # fs \<Longrightarrow> \<not> isUsageRequestDuplicate (ErrDb m) \<Longrightarrow>
      RecordUsage s u w = (Inl (ErrDb m), w\<lparr>rnd := drop randomIDBytes (rnd w), faults := fs\<rparr>)"
proof -
  have new: "\<not> list_ex (\<lambda>x. l_id x = hex_encode (take randomIDBytes (rnd w))) (llm_usage (db w))"
    using assms(3) by (auto simp: list_ex_iff)
  show "faults w = [] \<Longrightarrow> RecordUsage s u w =
      (Inr (), w\<lparr>rnd := drop randomIDBytes (rnd w),
        db := (if usage_recorded (db w) (u_RequestID u) then db w
               else (db w)\<lparr>llm_usage := llm_usage (db w) @
                 [new_usage_row s u (hex_encode (take randomIDBytes (rnd w))) (case u_CreatedAt u of None \<Rightarrow> clk w | Some t \<Rightarrow> t)]\<rparr>)\<rparr>)"
    using assms(1,2) new dup_texts
    by (cases "usage_recorded (db w) (u_RequestID u)")
      (simp_all add: RecordUsage_def io_ok newID_def insert_usage_def usage_recorded_def)
  show "faults w = Some m # fs \<Longrightarrow> \<not> isUsageRequestDuplicate (ErrDb m) \<Longrightarrow>
      RecordUsage s u w = (Inl (ErrDb m), w\<lparr>rnd := drop randomIDBytes (rnd w), faults := fs\<rparr>)"
    using assms(1,2) by (simp add: RecordUsage_def io_defs newID_def stmt_def)
qed

section \<open>Properties\<close>

text \<open>The usage log is idempotent by request id. Without faults, a valid usage record is stored as one new row with
  the service's clock and pricing version filled in, if its request id is new; if the id is already there the call
  succeeds and leaves the log as it is, even when the fields differ; an invalid record is refused before any
  statement runs.\<close>

theorem RecordUsage_idempotent:
  assumes "faults w = []" "randomIDBytes \<le> length (rnd w)"
    and "\<forall>x \<in> set (llm_usage (db w)). l_id x \<noteq> hex_encode (take randomIDBytes (rnd w))"
  shows "case validateUsage (pick w) u of
     Some e \<Rightarrow> RecordUsage s u w = (Inl e, w)
   | None \<Rightarrow> fst (RecordUsage s u w) = Inr () \<and>
       db (snd (RecordUsage s u w)) =
         (if usage_recorded (db w) (u_RequestID u) then db w
          else (db w)\<lparr>llm_usage := llm_usage (db w) @
            [new_usage_row s u (hex_encode (take randomIDBytes (rnd w))) (case u_CreatedAt u of None \<Rightarrow> clk w | Some t \<Rightarrow> t)]\<rparr>)"
proof (cases "validateUsage (pick w) u")
  case None
  then show ?thesis using RecordUsage_ok(1) [OF None assms(2,3,1)] by simp
next
  case (Some e)
  then show ?thesis by (simp add: RecordUsage_def io_defs)
qed

theorem RecordUsage_idempotent_witness:
  "fst (RecordUsage sample_service (sample_usage 10 20) (sample_world empty_db)) = Inr () \<and>
   usage_recorded (db (snd (RecordUsage sample_service (sample_usage 10 20) (sample_world empty_db)))) ''req-1''"
proof -
  have v: "validateUsage 0 (sample_usage 10 20) = None" and q: "u_RequestID (sample_usage 10 20) = ''req-1''" by code_simp+
  have p: "pick (sample_world empty_db) = 0" by (simp add: sample_world_def)
  show ?thesis
    using RecordUsage_idempotent [of "sample_world empty_db" sample_service "sample_usage 10 20"]
    by (simp add: v p q randomIDBytes_def usage_recorded_def)
qed

text \<open>The usage log is append-only and honest, whatever faults occur (provided no other driver error carries the text
  of the constraint on the request id). A failed call leaves every table alone; a successful one leaves them alone or
  appends exactly one row for the request, and the request is recorded afterwards.\<close>

theorem RecordUsage_append_only:
  assumes "honest_faults w"
  shows "case RecordUsage s u w of
     (Inl e, w') \<Rightarrow> db w' = db w
   | (Inr _, w') \<Rightarrow> usage_recorded (db w') (u_RequestID u) \<and> (db w' = db w \<or> appended s u (db w) (db w'))"
proof (cases "RecordUsage s u w")
  case (Pair x w')
  then show ?thesis using RecordUsage_run [OF Pair] assms by (cases x) auto
qed

theorem RecordUsage_append_only_witness:
  "case RecordUsage sample_service (sample_usage 10 20) (sample_world empty_db\<lparr>faults := [Some ''disk I/O error'']\<rparr>) of
     (Inl e, w') \<Rightarrow> db w' = db (sample_world empty_db\<lparr>faults := [Some ''disk I/O error'']\<rparr>)
   | (Inr _, w') \<Rightarrow> usage_recorded (db w') (u_RequestID (sample_usage 10 20)) \<and>
       (db w' = db (sample_world empty_db\<lparr>faults := [Some ''disk I/O error'']\<rparr>) \<or>
        appended sample_service (sample_usage 10 20)
          (db (sample_world empty_db\<lparr>faults := [Some ''disk I/O error'']\<rparr>)) (db w'))"
proof (rule RecordUsage_append_only)
  have "\<not> isUsageRequestDuplicate (ErrDb ''disk I/O error'')" by code_simp
  then show "honest_faults (sample_world empty_db\<lparr>faults := [Some ''disk I/O error'']\<rparr>)" by (simp add: honest_faults_def)
qed

text \<open>C38: \<open>RecordUsageRetry\<close> terminates after at most three attempts and has the effect of at most one of them: it
  consumes at most three of the driver's statements, and the tables are unchanged or have exactly one new usage row,
  the latter only if it reports success.\<close>

theorem RecordUsageRetry_bounded:
  "case RecordUsageRetry s ctx u w of (x, w') \<Rightarrow>
     (db w' = db w \<or> x = Inr () \<and> appended s u (db w) (db w')) \<and> (\<exists>k \<le> 3. faults w' = drop k (faults w))"
proof -
  obtain x w' where run: "RecordUsageRetry s ctx u w = (x, w')" by fastforce
  then show ?thesis using usage_attempts_run [of s ctx u 3 w x w'] by (simp add: RecordUsageRetry_def)
qed

text \<open>\<open>RecordUsageRetry\<close> survives contention: if the driver reports a busy database for the first two attempts and
  the context is not cancelled, the third attempt stores the row.\<close>

theorem RecordUsageRetry_survives_contention:
  assumes "faults w = [Some m1, Some m2]" "isBusyError (ErrDb m1)" "isBusyError (ErrDb m2)"
    and "\<not> isUsageRequestDuplicate (ErrDb m1)" "\<not> isUsageRequestDuplicate (ErrDb m2)"
    and "ctx 0 = None" "ctx 1 = None" "validateUsage (pick w) u = None" "3 * randomIDBytes \<le> length (rnd w)"
    and "llm_usage (db w) = []"
  shows "fst (RecordUsageRetry s ctx u w) = Inr () \<and>
     usage_recorded (db (snd (RecordUsageRetry s ctx u w))) (u_RequestID u)"
proof -
  let ?w1 = "w\<lparr>rnd := drop randomIDBytes (rnd w), faults := [Some m2]\<rparr>"
  let ?w2 = "w\<lparr>rnd := drop (2 * randomIDBytes) (rnd w), faults := []\<rparr>"
  have one: "RecordUsage s u w = (Inl (ErrDb m1), ?w1)"
    by (rule RecordUsage_ok(2)) (use assms in simp_all)
  have two: "RecordUsage s u ?w1 = (Inl (ErrDb m2), ?w2)"
    using RecordUsage_ok(2) [of ?w1 u m2 "[]" s] assms by (simp add: mult_2)
  have three: "\<exists>w3. RecordUsage s u ?w2 = (Inr (), w3) \<and> usage_recorded (db w3) (u_RequestID u)"
    using RecordUsage_ok(1) [of ?w2 u s] assms by (auto simp: usage_recorded_def)
  then show ?thesis
    using assms(2,3,6,7) by (auto simp: RecordUsageRetry_def numeral_3_eq_3 io_defs one two)
qed

theorem RecordUsageRetry_survives_contention_witness:
  "fst (RecordUsageRetry sample_service (\<lambda>_. None) (sample_usage 10 20)
     (sample_world empty_db\<lparr>faults := [Some ''database is locked'', Some ''database is locked'']\<rparr>)) = Inr ()"
proof -
  have v: "validateUsage 0 (sample_usage 10 20) = None" "isBusyError (ErrDb ''database is locked'')"
    "\<not> isUsageRequestDuplicate (ErrDb ''database is locked'')" by code_simp+
  have p: "pick (sample_world empty_db\<lparr>faults := fs\<rparr>) = 0" "rnd (sample_world empty_db\<lparr>faults := fs\<rparr>) = rnd (sample_world empty_db)" for fs
    by (simp_all add: sample_world_def)
  show ?thesis
    by (rule conjunct1 [OF RecordUsageRetry_survives_contention
          [where ?m1.0 = "''database is locked''" and ?m2.0 = "''database is locked''"]])
      (simp_all add: v p randomIDBytes_def)
qed

end
