(* ===== verification/Settlement.thy ===== *)
theory Settlement
  imports Reconcile Usages
begin

text \<open>
  The settlement outbox of \<open>src/credits/settlement.go\<close>: \<open>EnqueueSettlement\<close> records that a reservation is to be settled,
  \<open>SettleViaOutbox\<close> prices the usage and settles, \<open>ProcessSettlementOutbox\<close> is the periodic pass over pending rows.

  The operations are sequences of separate transactions whose errors are partly dropped (\<open>_ =\<close> in the code, \<open>try_io\<close>
  here), so the properties speak about every point at which a fault may cut them short. The pass measures the age of
  a row with \<open>time.Now()\<close> (\<open>wall\<close>), while the row was stamped with the service clock (\<open>clk\<close>).
\<close>

section \<open>Operations\<close>

text \<open>\<open>INSERT INTO settlement_outbox ... ON CONFLICT(request_id) DO NOTHING\<close>.\<close>

definition insert_outbox :: "outbox_row \<Rightarrow> database \<Rightarrow> error + (nat \<times> database)" where
  "insert_outbox ob d =
     (if list_ex (\<lambda>x. o_request_id x = o_request_id ob) (settlement_outbox d) then Inr (0, d)
      else Inr (1, d\<lparr>settlement_outbox := settlement_outbox d @ [ob]\<rparr>))"

definition EnqueueSettlement ::
  "string \<Rightarrow> string \<Rightarrow> string \<Rightarrow> string \<Rightarrow> string \<Rightarrow> 'z world_scheme \<Rightarrow> (error + unit) \<times> 'z world_scheme" where
  "EnqueueSettlement requestID userID reservationID provider model =
     bind_io (read_io now) (\<lambda>ts.
     bind_io (stmt (insert_outbox
       \<lparr>o_request_id = requestID, o_user_id = userID, o_reservation_id = reservationID, o_provider = provider,
        o_model = model, o_status = ''pending'', o_attempt_count = 0, o_last_error = None,
        o_created_at = ts, o_updated_at = ts\<rparr>)) (\<lambda>_.
     return_io ()))"

text \<open>\<open>UPDATE settlement_outbox SET ... WHERE request_id = ?\<close>.\<close>

definition update_outbox :: "(outbox_row \<Rightarrow> outbox_row) \<Rightarrow> string \<Rightarrow> database \<Rightarrow> error + (nat \<times> database)" where
  "update_outbox f requestID d =
     Inr (count_where (\<lambda>ob. o_request_id ob = requestID) (settlement_outbox d),
          d\<lparr>settlement_outbox := update_where (\<lambda>ob. o_request_id ob = requestID) f (settlement_outbox d)\<rparr>)"

text \<open>The second query of \<open>reservationByID\<close>, after an error of the first, leaves the two amounts at zero.\<close>

definition reservationByID :: "string \<Rightarrow> 'z world_scheme \<Rightarrow> (error + Reservation) \<times> 'z world_scheme" where
  "reservationByID rid =
     bind_io (try_io (query (\<lambda>d. row_or_none (find (\<lambda>r. r_ID r = rid) (credit_reservations d))))) (\<lambda>l.
     case l of
       Inr r \<Rightarrow> return_io r
     | Inl _ \<Rightarrow>
         bind_io (query (\<lambda>d. row_or_none (find (\<lambda>r. r_ID r = rid) (credit_reservations d)))) (\<lambda>r.
         return_io (r\<lparr>r_Captured := 0, r_Released := 0\<rparr>)))"

text \<open>Calls of \<open>Settle\<close> and \<open>Release\<close> whose struct is not looked at afterwards.\<close>

definition settle_row :: "Reservation \<Rightarrow> int \<Rightarrow> world \<Rightarrow> (error + unit) \<times> world" where
  "settle_row resv n w = (case Settle (Some resv) n w of (x, _, w') \<Rightarrow> (x, w'))"

definition release_row :: "Reservation \<Rightarrow> world \<Rightarrow> (error + unit) \<times> world" where
  "release_row resv w = (case Release (Some resv) w of (x, _, w') \<Rightarrow> (x, w'))"

definition SettleViaOutbox ::
  "Service \<Rightarrow> (nat \<Rightarrow> error option) \<Rightarrow> string \<Rightarrow> Usage \<Rightarrow> world \<Rightarrow> (error + unit) \<times> world" where
  "SettleViaOutbox s ctx requestID usage =
     bind_io (query (\<lambda>d. row_or_none (find (\<lambda>ob. o_request_id ob = requestID) (settlement_outbox d)))) (\<lambda>ob.
     bind_io (reservationByID (o_reservation_id ob)) (\<lambda>resv.
     case Credits s usage of
       Inl err \<Rightarrow>
         bind_io (try_io (release_row resv)) (\<lambda>_.
         bind_io (read_io now) (\<lambda>ts.
         bind_io (try_io (stmt (update_outbox (\<lambda>ob. ob\<lparr>o_status := ''failed'', o_last_error := Some (error_text err),
             o_updated_at := ts\<rparr>) requestID))) (\<lambda>_.
         throw_io err)))
     | Inr creditsCharged \<Rightarrow>
         bind_io (try_io (settle_row resv creditsCharged)) (\<lambda>settled.
         case settled of
           Inl err2 \<Rightarrow>
             bind_io (read_io now) (\<lambda>ts.
             bind_io (try_io (stmt (update_outbox (\<lambda>ob. ob\<lparr>o_status := ''failed'', o_last_error := Some (error_text err2),
                 o_attempt_count := o_attempt_count ob + 1, o_updated_at := ts\<rparr>) requestID))) (\<lambda>_.
             throw_io err2))
         | Inr _ \<Rightarrow>
             bind_io (try_io (RecordUsageRetry s ctx
               (usage\<lparr>u_CostMicrounits := (case Cost s usage of Inr c \<Rightarrow> c | Inl _ \<Rightarrow> 0),
                      u_CreditsCharged := creditsCharged\<rparr>))) (\<lambda>_.
             bind_io (read_io now) (\<lambda>ts.
             bind_io (stmt (update_outbox (\<lambda>ob. ob\<lparr>o_status := ''settled'', o_updated_at := ts\<rparr>) requestID)) (\<lambda>_.
             return_io ()))))))"

definition staleSettlementSeconds :: int where "staleSettlementSeconds = 3600"

text \<open>The body of the loop of \<open>ProcessSettlementOutbox\<close> for one request id; every error is dropped.\<close>

definition process_outbox_row :: "string \<Rightarrow> world \<Rightarrow> (error + unit) \<times> world" where
  "process_outbox_row q =
     bind_io (try_io (query (\<lambda>d. row_or_none (find (\<lambda>ob. o_request_id ob = q) (settlement_outbox d))))) (\<lambda>l.
     case l of
       Inl _ \<Rightarrow> return_io ()
     | Inr ob \<Rightarrow>
         bind_io (read_io (\<lambda>w. wrap64 (unix (wall w) - o_created_at ob))) (\<lambda>age.
         if age > staleSettlementSeconds then
           bind_io (try_io (reservationByID (o_reservation_id ob))) (\<lambda>r.
           case r of
             Inl _ \<Rightarrow> return_io ()
           | Inr resv \<Rightarrow>
               if r_Status resv = ''reserved'' then
                 bind_io (try_io (release_row resv)) (\<lambda>_.
                 bind_io (read_io now) (\<lambda>ts.
                 bind_io (try_io (stmt (update_outbox (\<lambda>ob. ob\<lparr>o_status := ''expired'', o_updated_at := ts\<rparr>) q))) (\<lambda>_.
                 return_io ())))
               else return_io ())
         else return_io ()))"

primrec process_outbox_rows :: "string list \<Rightarrow> world \<Rightarrow> (error + unit) \<times> world" where
  "process_outbox_rows [] = return_io ()"
| "process_outbox_rows (q # qs) = bind_io (process_outbox_row q) (\<lambda>_. process_outbox_rows qs)"

definition pending_ids :: "int \<Rightarrow> database \<Rightarrow> string list" where
  "pending_ids limit d =
     map o_request_id (take (nat limit) (sort_key o_created_at (filter (\<lambda>ob. o_status ob = ''pending'') (settlement_outbox d))))"

definition ProcessSettlementOutbox :: "int \<Rightarrow> world \<Rightarrow> (error + unit) \<times> world" where
  "ProcessSettlementOutbox limit =
     bind_io (query (\<lambda>d. Inr (pending_ids (if limit \<le> 0 then 100 else limit) d))) (\<lambda>ids.
     process_outbox_rows ids)"

section \<open>What the operations do\<close>

text \<open>The tables the outbox operations touch besides the ledger: their rows say nothing about money.\<close>

lemma inv_other_tables [simp]:
  "credits_inv (d\<lparr>settlement_outbox := obs\<rparr>) = credits_inv d" "credits_inv (d\<lparr>llm_usage := ls\<rparr>) = credits_inv d"
  "credits_inv (d\<lparr>subscriptions := ss\<rparr>) = credits_inv d"
  "balance_of (d\<lparr>settlement_outbox := obs\<rparr>) u = balance_of d u" "balance_of (d\<lparr>llm_usage := ls\<rparr>) u = balance_of d u"
  "funded (d\<lparr>settlement_outbox := obs\<rparr>) u = funded d u" "funded (d\<lparr>llm_usage := ls\<rparr>) u = funded d u"
  by (simp_all add: credits_inv_def ledger_inv_def ledger_wf_def resv_inv_def balance_of_def ledger_sum_def
      has_account_def ref_sum_def funded_def)

definition same_money :: "database \<Rightarrow> database \<Rightarrow> bool" where
  "same_money d d' \<longleftrightarrow>
     credit_accounts d' = credit_accounts d \<and> credit_transactions d' = credit_transactions d \<and>
     credit_reservations d' = credit_reservations d"

lemma same_money_refl [simp]: "same_money d d"
  by (simp add: same_money_def)

lemma same_money_trans: "same_money d d1 \<Longrightarrow> same_money d1 d2 \<Longrightarrow> same_money d d2"
  by (simp add: same_money_def)

lemma same_money_inv: "same_money d d' \<Longrightarrow> credits_inv d' = credits_inv d"
  by (simp add: same_money_def credits_inv_def ledger_inv_def ledger_wf_def resv_inv_def balance_of_def ledger_sum_def
      has_account_def ref_sum_def)

lemma same_money_balance: "same_money d d' \<Longrightarrow> balance_of d' u = balance_of d u"
  by (simp add: same_money_def balance_of_def)

lemma swept_same_money: "swept f ids d d1 \<Longrightarrow> same_money d1 d2 \<Longrightarrow> swept f ids d d2"
  by (simp add: swept_def same_money_inv) (simp add: same_money_def funded_def)

lemma stmt_outbox_same_money:
  "stmt (update_outbox f q) w = (x, w') \<Longrightarrow> same_money (db w) (db w') \<and> clk w' = clk w \<and> wall w' = wall w"
  by (auto simp: stmt_def Let_def update_outbox_def same_money_def split: option.splits sum.splits if_splits)

lemma RecordUsageRetry_same_money: "RecordUsageRetry s ctx u w = (x, w') \<Longrightarrow> same_money (db w) (db w')"
  using usage_attempts_run [of s ctx u 3 w x w']
  by (auto simp: RecordUsageRetry_def appended_def same_money_def)

lemma reservationByID_any: "reservationByID rid w = (x, w') \<Longrightarrow> db w' = db w \<and> clk w' = clk w \<and> wall w' = wall w"
  by (auto simp: reservationByID_def io_defs query_def stmt_def Let_def split: option.splits sum.splits prod.splits if_splits)

lemma reservationByID_Inr:
  assumes "reservationByID rid w = (Inr r, w')"
  shows "\<exists>r0. find (\<lambda>r. r_ID r = rid) (credit_reservations (db w)) = Some r0 \<and> r_ID r = rid \<and> r_Status r = r_Status r0"
proof -
  obtain l w1 where l: "query (\<lambda>d. row_or_none (find (\<lambda>r. r_ID r = rid) (credit_reservations d))) w = (l, w1)" by fastforce
  then have "db w1 = db w" by (auto dest: query_any)
  then show ?thesis
    using assms l by (cases l) (auto simp: reservationByID_def io_inv dest: find_SomeD)
qed

text \<open>A dropped \<open>Release\<close> either did nothing or gave the whole reservation back.\<close>

definition release_close :: "int \<Rightarrow> Reservation \<Rightarrow> Reservation" where
  "release_close ts r = close_row 0 (r_Amount r) reservationStatusReleased ts r"

lemma voids_release [simp]: "voids (release_close ts)"
  by (simp add: voids_def release_close_def held_def)

lemma release_row_swept:
  assumes inv: "credits_inv (db w)" and run: "release_row a w = (x, w')"
  shows "settlement_outbox (db w') = settlement_outbox (db w) \<and> llm_usage (db w') = llm_usage (db w) \<and>
     (\<exists>ids. swept (release_close (now w)) ids (db w) (db w') \<and> ids \<subseteq> {r_ID a} \<and> (x = Inr () \<longrightarrow> ids = {r_ID a}))"
proof -
  obtain b where arg: "with_arg (finalize 0 True) a w = (x, b, w')"
    using run by (auto simp: release_row_def Release_def split: prod.splits)
  show ?thesis
  proof (cases x)
    case (Inl e)
    then have "db w' = db w" using arg with_arg_Inl by blast
    then show ?thesis using Inl swept_empty [OF inv] by (intro conjI exI [of _ "{}"]) simp_all
  next
    case (Inr y)
    obtain r out where f: "find (\<lambda>x. r_ID x = r_ID a) (credit_reservations (db w)) = Some r"
      and fin: "finalized_from 0 True (db w) r out (now w) (db w')"
      using arg [unfolded Inr] inv by (rule with_arg_Inr)
    have r: "r \<in> set (credit_reservations (db w))" "r_ID r = r_ID a" "r_Status r = reservationStatusReserved"
      using f fin by (auto simp: finalized_from_def dest: find_SomeD)
    have amt: "1 \<le> r_Amount r" and dist: "distinct (map r_ID (credit_reservations (db w)))"
      using inv r by (auto simp: credits_inv_def resv_inv_def dest: row_okD)
    have inv': "credits_inv (db w')" by (rule credits_inv_finalized [OF inv fin]) (simp_all add: max_int64_def)
    obtain lid where d': "db w' = close_in (r_ID r) (close_row 0 (r_Amount r) reservationStatusReleased (now w))
        (posted (return_row lid r out (now w)) (now w) (db w))"
      using fin amt r(3) by (auto simp: finalized_from_def outcome_release Let_def split: if_splits)
    have only: "x = r" if "x \<in> set (credit_reservations (db w))" "r_ID x = r_ID a" for x
      by (rule key_inj [OF dist that(1) r(1)]) (simp add: that(2) r(2))
    have "update_where (\<lambda>x. r_ID x = r_ID r \<and> r_Status x = reservationStatusReserved)
        (close_row 0 (r_Amount r) reservationStatusReleased (now w)) (credit_reservations (db w)) =
      update_where (\<lambda>x. r_ID x \<in> {r_ID a} \<and> r_Status x = reservationStatusReserved)
        (release_close (now w)) (credit_reservations (db w))"
      by (rule update_where_cong) (auto simp: r(2) release_close_def dest: only)
    then have "credit_reservations (db w') = update_where (\<lambda>r. r_ID r \<in> {r_ID a} \<and> r_Status r = reservationStatusReserved)
        (release_close (now w)) (credit_reservations (db w))"
      unfolding d' by (simp add: close_in_def)
    moreover have "funded (db w') u = funded (db w) u" for u
      unfolding d' by (simp add: funded_def)
    ultimately have "swept (release_close (now w)) {r_ID a} (db w) (db w')" using inv' by (simp add: swept_def)
    moreover have "settlement_outbox (db w') = settlement_outbox (db w)" "llm_usage (db w') = llm_usage (db w)"
      unfolding d' by simp_all
    ultimately show ?thesis by auto
  qed
qed

lemma keeps_time_modify_arg [time_intros]: "keeps_time (modify_io (\<lambda>w. w\<lparr>arg := f w\<rparr>))"
  by (simp add: keeps_time_def modify_io_def)

lemma keeps_time_finalize: "keeps_time (finalize n rel)"
  unfolding finalize_def finalize_tx_def loadOutcome_def writeReturn_def by (intro time_intros)

lemma with_arg_time:
  assumes "keeps_time m" "with_arg m a w = (x, b, w')"
  shows "clk w' = clk w \<and> wall w' = wall w"
proof -
  obtain c where "m (world.extend w \<lparr>arg = a\<rparr>) = (x, c)" "w' = world.truncate c"
    using assms(2) by (auto simp: with_arg_def split: prod.splits)
  then show ?thesis using keeps_timeD [OF assms(1)] by (auto simp: world.extend_def world.truncate_def)
qed

lemma keeps_time_rows [time_intros]: "keeps_time (settle_row a n)" "keeps_time (release_row a)"
  by (rule keeps_timeI; auto simp: settle_row_def release_row_def Settle_def Release_def
      dest: with_arg_time [OF keeps_time_finalize] split: prod.splits)+

lemma keeps_time_reservationByID [time_intros]: "keeps_time (reservationByID rid)"
  unfolding reservationByID_def by (intro time_intros)

lemma keeps_time_process_outbox_row: "keeps_time (process_outbox_row q)"
  unfolding process_outbox_row_def by (intro time_intros)

section \<open>The periodic pass\<close>

text \<open>What the pass reads of the outbox does not change while it runs.\<close>

definition outbox_facts :: "database \<Rightarrow> (string \<times> string \<times> int) list" where
  "outbox_facts d = map (\<lambda>ob. (o_request_id ob, o_reservation_id ob, o_created_at ob)) (settlement_outbox d)"

definition overdue :: "string set \<Rightarrow> 'z world_scheme \<Rightarrow> string set" where
  "overdue qs w =
     {rid. \<exists>q t. (q, rid, t) \<in> set (outbox_facts (db w)) \<and> q \<in> qs \<and> wrap64 (unix (wall w) - t) > staleSettlementSeconds}"

lemma outbox_facts_update:
  "stmt (update_outbox (\<lambda>ob. ob\<lparr>o_status := st, o_updated_at := ts\<rparr>) q) w = (x, w') \<Longrightarrow>
     outbox_facts (db w') = outbox_facts (db w) \<and> llm_usage (db w') = llm_usage (db w)"
  by (auto simp: stmt_def Let_def update_outbox_def outbox_facts_def update_where_def
      split: option.splits sum.splits if_splits)

definition pass_ok :: "string set \<Rightarrow> world \<Rightarrow> database \<Rightarrow> bool" where
  "pass_ok qs w d' \<longleftrightarrow>
     outbox_facts d' = outbox_facts (db w) \<and> llm_usage d' = llm_usage (db w) \<and>
     (\<exists>ids. swept (release_close (now w)) ids (db w) d' \<and> ids \<subseteq> overdue qs w)"

lemma pass_ok_idle: "credits_inv (db w) \<Longrightarrow> pass_ok qs w (db w)"
  using swept_empty [of "db w" "release_close (now w)"] by (auto simp: pass_ok_def)

lemma process_outbox_row_pass:
  assumes inv: "credits_inv (db w)" and run: "process_outbox_row q w = (x, w')"
  shows "x = Inr () \<and> pass_ok {q} w (db w')"
proof -
  obtain l w1 where look: "query (\<lambda>d. row_or_none (find (\<lambda>ob. o_request_id ob = q) (settlement_outbox d))) w = (l, w1)"
    by fastforce
  then have w1: "db w1 = db w" by (auto dest: query_any)
  have t1: "clk w1 = clk w" "wall w1 = wall w" using keeps_timeD [OF keeps_time_stmt(2) look] by auto
  consider (idle) "x = Inr ()" "db w' = db w"
    | (release) ob r w2 w3 y z where "find (\<lambda>ob. o_request_id ob = q) (settlement_outbox (db w)) = Some ob"
        "wrap64 (unix (wall w) - o_created_at ob) > staleSettlementSeconds" "r_ID r = o_reservation_id ob"
        "db w2 = db w" "now w2 = now w" "release_row r w2 = (y, w3)"
        "stmt (update_outbox (\<lambda>ob. ob\<lparr>o_status := ''expired'', o_updated_at := now w\<rparr>) q) w3 = (z, w')" "x = Inr ()"
  proof (cases l)
    case (Inl e)
    then show thesis using idle run look w1 by (auto simp: process_outbox_row_def io_defs)
  next
    case (Inr ob)
    then have ob: "find (\<lambda>ob. o_request_id ob = q) (settlement_outbox (db w)) = Some ob"
      using look by (simp add: query_Inr row_or_none_Inr)
    obtain rr w2 where by_id: "reservationByID (o_reservation_id ob) w1 = (rr, w2)" by fastforce
    then have w2: "db w2 = db w" "clk w2 = clk w" using reservationByID_any w1 t1 by fastforce+
    show thesis
    proof (cases "wrap64 (unix (wall w) - o_created_at ob) > staleSettlementSeconds \<and>
        (\<exists>r. rr = Inr r \<and> r_Status r = ''reserved'')")
      case True
      then obtain r where r: "rr = Inr r" "r_Status r = ''reserved''" by auto
      obtain y w3 where rel: "release_row r w2 = (y, w3)" by fastforce
      then have t3: "clk w3 = clk w" using keeps_timeD [OF keeps_time_rows(2) rel] w2 by simp
      have "r_ID r = o_reservation_id ob" using reservationByID_Inr by_id r by blast
      moreover obtain z w4 where upd:
        "stmt (update_outbox (\<lambda>ob. ob\<lparr>o_status := ''expired'', o_updated_at := now w\<rparr>) q) w3 = (z, w4)" by fastforce
      moreover have "w' = w4" "x = Inr ()"
        using run look Inr by_id r True rel upd t1 t3 by (auto simp: process_outbox_row_def io_defs)
      ultimately show thesis using release [OF ob _ _ w2(1) _ rel] True w2 by simp
    next
      case False
      then show thesis
        using idle run look Inr by_id t1 w1 w2
        by (cases rr; cases "wrap64 (unix (wall w) - o_created_at ob) > staleSettlementSeconds")
          (auto simp: process_outbox_row_def io_defs split: if_splits)
    qed
  qed
  then show ?thesis
  proof cases
    case idle
    then show ?thesis using pass_ok_idle [OF inv] by simp
  next
    case (release ob r w2 w3 y z)
    have inv2: "credits_inv (db w2)" using inv release(4) by simp
    from release_row_swept [OF inv2 release(6)] obtain ids where ids: "swept (release_close (now w)) ids (db w) (db w3)"
      "ids \<subseteq> {o_reservation_id ob}" "settlement_outbox (db w3) = settlement_outbox (db w)" "llm_usage (db w3) = llm_usage (db w)"
      using release(3,4,5) by auto
    have "swept (release_close (now w)) ids (db w) (db w')"
      using swept_same_money [OF ids(1)] stmt_outbox_same_money [OF release(7)] by blast
    moreover have "o_reservation_id ob \<in> overdue {q} w"
      using release(1,2) by (force simp: overdue_def outbox_facts_def dest: find_SomeD)
    moreover have "outbox_facts (db w') = outbox_facts (db w)" "llm_usage (db w') = llm_usage (db w)"
      using outbox_facts_update [OF release(7)] ids(3,4) by (simp_all add: outbox_facts_def)
    ultimately show ?thesis using release(8) ids(2) unfolding pass_ok_def by blast
  qed
qed

lemma pass_ok_trans:
  assumes one: "pass_ok Q w (db w1)" and two: "pass_ok R w1 d" and t: "clk w1 = clk w" "wall w1 = wall w"
  shows "pass_ok (Q \<union> R) w d"
proof -
  from one obtain A where A: "outbox_facts (db w1) = outbox_facts (db w)" "llm_usage (db w1) = llm_usage (db w)"
    "swept (release_close (now w)) A (db w) (db w1)" "A \<subseteq> overdue Q w" unfolding pass_ok_def by blast
  from two t obtain B where B: "outbox_facts d = outbox_facts (db w1)" "llm_usage d = llm_usage (db w1)"
    "swept (release_close (now w)) B (db w1) d" "B \<subseteq> overdue R w1" unfolding pass_ok_def by auto
  have "overdue R w1 = overdue R w" using A(1) t by (simp add: overdue_def)
  moreover have "overdue (Q \<union> R) w = overdue Q w \<union> overdue R w" by (auto simp: overdue_def)
  ultimately show ?thesis
    using A B swept_trans [OF voids_release A(3) B(3)] unfolding pass_ok_def by (intro conjI exI [of _ "A \<union> B"]) auto
qed

lemma process_outbox_rows_pass:
  "credits_inv (db w) \<Longrightarrow> process_outbox_rows qs w = (x, w') \<Longrightarrow> x = Inr () \<and> pass_ok (set qs) w (db w')"
proof (induction qs arbitrary: w)
  case Nil
  then show ?case using pass_ok_idle by (auto simp: return_io_def)
next
  case (Cons q qs)
  obtain y w1 where one: "process_outbox_row q w = (y, w1)" by fastforce
  from process_outbox_row_pass [OF Cons.prems(1) one] have y: "y = Inr ()" and p: "pass_ok {q} w (db w1)" by auto
  have "credits_inv (db w1)" using p by (auto simp: pass_ok_def swept_def)
  moreover have "process_outbox_rows qs w1 = (x, w')" using Cons.prems(2) one y by (simp add: bind_io_def)
  ultimately have "x = Inr () \<and> pass_ok (set qs) w1 (db w')" by (rule Cons.IH)
  then show ?case
    using pass_ok_trans [OF p] keeps_timeD [OF keeps_time_process_outbox_row one] by auto
qed

lemma ProcessSettlementOutbox_pass:
  assumes inv: "credits_inv (db w)" and run: "ProcessSettlementOutbox limit w = (x, w')"
  shows "pass_ok (set (pending_ids (if limit \<le> 0 then 100 else limit) (db w))) w (db w')"
proof -
  let ?n = "if limit \<le> 0 then 100 else limit"
  obtain l w1 where q: "query (\<lambda>d. Inr (pending_ids ?n d)) w = (l, w1)" by fastforce
  then have w1: "db w1 = db w" "clk w1 = clk w" "wall w1 = wall w"
    using query_any [OF q] keeps_timeD [OF keeps_time_stmt(2) q] by auto
  show ?thesis
  proof (cases l)
    case (Inl e)
    then show ?thesis using run q w1 pass_ok_idle [OF inv] by (simp add: ProcessSettlementOutbox_def bind_io_def)
  next
    case (Inr ids)
    with q have "ids = pending_ids ?n (db w)" by (simp add: query_Inr)
    then have "process_outbox_rows (pending_ids ?n (db w)) w1 = (x, w')"
      using run q Inr by (simp add: ProcessSettlementOutbox_def bind_io_def)
    from process_outbox_rows_pass [OF _ this] have "pass_ok (set (pending_ids ?n (db w))) w1 (db w')" using inv w1 by simp
    then show ?thesis using w1 by (simp add: pass_ok_def overdue_def)
  qed
qed

section \<open>Settling through the outbox\<close>

lemma with_arg_tables:
  assumes "with_arg (finalize n rel) a w = (x, b, w')" "credits_inv (db w)"
  shows "settlement_outbox (db w') = settlement_outbox (db w)"
proof (cases x)
  case (Inl e)
  then show ?thesis using assms with_arg_Inl by fastforce
next
  case (Inr y)
  obtain r out where "finalized_from n rel (db w) r out (now w) (db w')"
    using assms(1) [unfolded Inr] assms(2) by (rule with_arg_Inr)
  then show ?thesis by (auto simp: finalized_from_def Let_def split: if_splits)
qed

lemma Credits_range: "Credits s u = Inr n \<Longrightarrow> n \<le> max_int64"
proof -
  assume "Credits s u = Inr n"
  then obtain mu where "n = creditsFromMicrounits mu (microunitsPerCredit (pricer s))"
    by (auto simp: Credits_def split: sum.splits)
  moreover have "wrap64 k \<le> max_int64" for k using in64_wrap64 [of k] by (simp add: in64_def max_int64_def)
  moreover have "0 \<le> max_int64" by (simp add: max_int64_def)
  ultimately show ?thesis by (simp add: creditsFromMicrounits_def go_div_def Let_def)
qed

text \<open>The one finalization a call may perform: the reservation of the outbox row, at the given price.\<close>

definition paid_from :: "string \<Rightarrow> int \<Rightarrow> database \<Rightarrow> database \<Rightarrow> bool" where
  "paid_from q price d d' \<longleftrightarrow>
     (\<exists>ob r. find (\<lambda>ob. o_request_id ob = q) (settlement_outbox d) = Some ob \<and>
        r \<in> set (credit_reservations d) \<and> r_ID r = o_reservation_id ob \<and> r_Status r = reservationStatusReserved \<and>
        closed_in d' (o_reservation_id ob) \<and>
        (\<forall>v. balance_of d' v = balance_of d v + (if v = r_UserID r then r_Amount r - price else 0)))"

lemma paid_from_same_money: "paid_from q p d d1 \<Longrightarrow> same_money d1 d2 \<Longrightarrow> paid_from q p d d2"
  unfolding paid_from_def closed_in_def by (auto simp: same_money_balance) (auto simp: same_money_def)

lemma finalize_row_paid:
  assumes run: "with_arg (finalize n rel) a w = (x, b, w')" and inv: "credits_inv (db w)"
    and n: "n \<le> max_int64" "rel \<Longrightarrow> n = 0"
    and ob: "find (\<lambda>ob. o_request_id ob = q) (settlement_outbox (db w)) = Some ob" "r_ID a = o_reservation_id ob"
  shows "credits_inv (db w') \<and> (if x = Inr () then paid_from q n (db w) (db w') else db w' = db w)"
proof (cases x)
  case (Inl e)
  then show ?thesis using run inv with_arg_Inl [of n rel a w e b w'] by simp
next
  case (Inr y)
  with run have run': "with_arg (finalize n rel) a w = (Inr y, b, w')" by simp
  from with_arg_contract [OF run' inv n] obtain r where "credits_inv (db w')" "closed_in (db w') (r_ID a)"
    "r \<in> set (credit_reservations (db w))" "r_ID r = r_ID a" "r_Status r = reservationStatusReserved"
    "\<forall>v. balance_of (db w') v = balance_of (db w) v + (if v = r_UserID r then r_Amount r - n else 0)" by blast
  then show ?thesis using Inr ob unfolding paid_from_def by (simp only: if_True) auto
qed

definition outbox_price :: "Service \<Rightarrow> Usage \<Rightarrow> int" where
  "outbox_price s usage = (case Credits s usage of Inl _ \<Rightarrow> 0 | Inr n \<Rightarrow> n)"

lemma update_whereD: "y \<in> set (update_where p f xs) \<Longrightarrow> \<exists>x. y = (if p x then f x else x)"
  by (auto simp: set_update_where)

lemma settled_rows:
  assumes "stmt (update_outbox (\<lambda>ob. ob\<lparr>o_status := ''settled'', o_updated_at := ts\<rparr>) q) w = (Inr n, w')"
    and ob: "ob \<in> set (settlement_outbox (db w'))" "o_request_id ob = q"
  shows "o_status ob = ''settled''"
proof -
  from assms(1) have rows: "settlement_outbox (db w') = update_where (\<lambda>ob. o_request_id ob = q)
      (\<lambda>ob. ob\<lparr>o_status := ''settled'', o_updated_at := ts\<rparr>) (settlement_outbox (db w))"
    unfolding stmt_Inr update_outbox_def by force
  from update_whereD [OF ob(1) [unfolded rows]]
  obtain x where "ob = (if o_request_id x = q then x\<lparr>o_status := ''settled'', o_updated_at := ts\<rparr> else x)" by blast
  with ob(2) show ?thesis by (cases "o_request_id x = q") simp_all
qed

text \<open>After the row and the reservation were read, in world \<open>w2\<close> over the same tables.\<close>

lemma SettleViaOutbox_stages:
  assumes run: "SettleViaOutbox s ctx q usage w = (x, w')"
  obtains (refused) e where "x = Inl e" "db w' = db w"
    | (unpriced) err ob resv w2 y w3 z where "Credits s usage = Inl err" "x = Inl err"
        "find (\<lambda>ob. o_request_id ob = q) (settlement_outbox (db w)) = Some ob" "db w2 = db w" "r_ID resv = o_reservation_id ob"
        "release_row resv w2 = (y, w3)"
        "stmt (update_outbox (\<lambda>ob. ob\<lparr>o_status := ''failed'', o_last_error := Some (error_text err), o_updated_at := now w3\<rparr>) q) w3 = (z, w')"
    | (unsettled) cc ob resv w2 err2 w3 z where "Credits s usage = Inr cc" "x = Inl err2"
        "find (\<lambda>ob. o_request_id ob = q) (settlement_outbox (db w)) = Some ob" "db w2 = db w" "r_ID resv = o_reservation_id ob"
        "settle_row resv cc w2 = (Inl err2, w3)"
        "stmt (update_outbox (\<lambda>ob. ob\<lparr>o_status := ''failed'', o_last_error := Some (error_text err2),
            o_attempt_count := o_attempt_count ob + 1, o_updated_at := now w3\<rparr>) q) w3 = (z, w')"
    | (settled) cc ob resv w2 w3 uu y w4 z where "Credits s usage = Inr cc"
        "find (\<lambda>ob. o_request_id ob = q) (settlement_outbox (db w)) = Some ob" "db w2 = db w" "r_ID resv = o_reservation_id ob"
        "settle_row resv cc w2 = (Inr (), w3)" "RecordUsageRetry s ctx uu w3 = (y, w4)"
        "stmt (update_outbox (\<lambda>ob. ob\<lparr>o_status := ''settled'', o_updated_at := now w4\<rparr>) q) w4 = (z, w')"
        "x = (case z of Inl e \<Rightarrow> Inl e | Inr _ \<Rightarrow> Inr ())"
proof -
  obtain l w1 where look: "query (\<lambda>d. row_or_none (find (\<lambda>ob. o_request_id ob = q) (settlement_outbox d))) w = (l, w1)"
    by fastforce
  then have w1: "db w1 = db w" by (auto dest: query_any)
  show thesis
  proof (cases l)
    case (Inl e)
    then show thesis using refused run look w1 by (auto simp: SettleViaOutbox_def bind_io_def)
  next
    case (Inr ob)
    then have ob: "find (\<lambda>ob. o_request_id ob = q) (settlement_outbox (db w)) = Some ob"
      using look by (simp add: query_Inr row_or_none_Inr)
    obtain rr w2 where by_id: "reservationByID (o_reservation_id ob) w1 = (rr, w2)" by fastforce
    then have w2: "db w2 = db w" using reservationByID_any w1 by fastforce
    note run' = run [unfolded SettleViaOutbox_def bind_io_def [of "query _"] look Inr prod.case sum.case
        bind_io_def [of "reservationByID _"] by_id]
    show thesis
    proof (cases rr)
      case (Inl e)
      then show thesis using refused run' w2 by auto
    next
      case (Inr resv)
      have id: "r_ID resv = o_reservation_id ob" using reservationByID_Inr by_id Inr by blast
      note run2 = run' [unfolded Inr prod.case sum.case]
      show thesis
      proof (cases "Credits s usage")
        case (Inl err)
        obtain y w3 where rel: "release_row resv w2 = (y, w3)" by fastforce
        obtain z w4 where upd: "stmt (update_outbox (\<lambda>ob. ob\<lparr>o_status := ''failed'', o_last_error := Some (error_text err),
            o_updated_at := now w3\<rparr>) q) w3 = (z, w4)" by fastforce
        have "x = Inl err" "w' = w4" using run2 Inl rel upd by (simp_all add: io_defs)
        then show thesis using unpriced [OF Inl _ ob w2 id rel] upd by simp
      next
        case (Inr cc)
        obtain y w3 where set: "settle_row resv cc w2 = (y, w3)" by fastforce
        show thesis
        proof (cases y)
          case (Inl err2)
          obtain z w4 where upd: "stmt (update_outbox (\<lambda>ob. ob\<lparr>o_status := ''failed'', o_last_error := Some (error_text err2),
              o_attempt_count := o_attempt_count ob + 1, o_updated_at := now w3\<rparr>) q) w3 = (z, w4)" by fastforce
          have "x = Inl err2" "w' = w4" using run2 Inr set Inl upd by (simp_all add: io_defs)
          then show thesis using unsettled [OF Inr _ ob w2 id] set Inl upd by simp
        next
          case (Inr u)
          let ?uu = "usage\<lparr>u_CostMicrounits := (case Cost s usage of Inr c \<Rightarrow> c | Inl _ \<Rightarrow> 0), u_CreditsCharged := cc\<rparr>"
          obtain yy w4 where rec: "RecordUsageRetry s ctx ?uu w3 = (yy, w4)" by fastforce
          obtain z w5 where upd: "stmt (update_outbox (\<lambda>ob. ob\<lparr>o_status := ''settled'', o_updated_at := now w4\<rparr>) q) w4 = (z, w5)"
            by fastforce
          have "w' = w5" "x = (case z of Inl e \<Rightarrow> Inl e | Inr _ \<Rightarrow> Inr ())"
            using run2 \<open>Credits s usage = Inr cc\<close> set Inr rec upd by (cases z; simp add: io_defs)+
          then show thesis using settled [OF \<open>Credits s usage = Inr cc\<close> ob w2 id _ rec] set Inr upd by simp
        qed
      qed
    qed
  qed
qed

lemma SettleViaOutbox_effect:
  assumes inv: "credits_inv (db w)" and run: "SettleViaOutbox s ctx q usage w = (x, w')"
  shows "credits_inv (db w') \<and>
     (x \<noteq> Inr () \<and> same_money (db w) (db w') \<or> paid_from q (outbox_price s usage) (db w) (db w')) \<and>
     (x = Inr () \<longrightarrow> Credits s usage = Inr (outbox_price s usage) \<and>
        (\<forall>ob \<in> set (settlement_outbox (db w')). o_request_id ob = q \<longrightarrow> o_status ob = ''settled''))"
  using run
proof (cases rule: SettleViaOutbox_stages)
  case (refused e)
  then show ?thesis using inv by simp
next
  case (unpriced err ob resv w2 y w3 z)
  obtain b where "with_arg (finalize 0 True) resv w2 = (y, b, w3)"
    using unpriced(6) by (auto simp: release_row_def Release_def split: prod.splits)
  from finalize_row_paid [OF this, of q ob, unfolded unpriced(4)] unpriced(3,5) inv
  have "credits_inv (db w3) \<and> (if y = Inr () then paid_from q 0 (db w) (db w3) else db w3 = db w)"
    by (simp add: max_int64_def)
  moreover have "same_money (db w3) (db w')" using stmt_outbox_same_money [OF unpriced(7)] by simp
  ultimately show ?thesis
    using unpriced(1,2) by (auto simp: outbox_price_def same_money_inv intro: paid_from_same_money split: if_splits)
next
  case (unsettled cc ob resv w2 err2 w3 z)
  obtain b where "with_arg (finalize cc False) resv w2 = (Inl err2, b, w3)"
    using unsettled(6) by (auto simp: settle_row_def Settle_def split: prod.splits)
  then have "db w3 = db w" using with_arg_Inl unsettled(4) by fastforce
  moreover have "same_money (db w3) (db w')" using stmt_outbox_same_money [OF unsettled(7)] by simp
  ultimately show ?thesis using unsettled(2) inv by (simp add: same_money_inv)
next
  case (settled cc ob resv w2 w3 uu y w4 z)
  obtain b where "with_arg (finalize cc False) resv w2 = (Inr (), b, w3)"
    using settled(5) by (auto simp: settle_row_def Settle_def split: prod.splits)
  from finalize_row_paid [OF this _ Credits_range [OF settled(1)], of q ob, unfolded settled(3)] settled(2,4) inv
  have paid: "credits_inv (db w3)" "paid_from q cc (db w) (db w3)" by simp_all
  have "same_money (db w3) (db w')"
    using RecordUsageRetry_same_money [OF settled(6)] stmt_outbox_same_money [OF settled(7)] same_money_trans by blast
  then have "credits_inv (db w')" "paid_from q cc (db w) (db w')"
    using paid by (simp_all add: same_money_inv paid_from_same_money)
  then show ?thesis
    using settled(1,7,8) settled_rows [of "now w4" q w4 _ w'] by (cases z) (auto simp: outbox_price_def)
qed

section \<open>Properties\<close>

text \<open>C16: settling through the outbox charges at most once, whatever faults occur and wherever they cut the call short.
  The invariant is kept; either no account, ledger row or reservation changed (and then the call failed), or exactly
  the reservation named by the outbox row was still open, is now closed, and its user paid exactly the price of the
  usage (nothing, if the usage cannot be priced). A successful call has priced the usage and marked the row settled.\<close>

theorem SettleViaOutbox_charges_once:
  assumes "credits_inv (db w)"
  shows "case SettleViaOutbox s ctx q usage w of (x, w') \<Rightarrow>
     credits_inv (db w') \<and>
     (x \<noteq> Inr () \<and> same_money (db w) (db w') \<or> paid_from q (outbox_price s usage) (db w) (db w')) \<and>
     (x = Inr () \<longrightarrow> Credits s usage = Inr (outbox_price s usage) \<and>
        (\<forall>ob \<in> set (settlement_outbox (db w')). o_request_id ob = q \<longrightarrow> o_status ob = ''settled''))"
  using SettleViaOutbox_effect [OF assms] by (cases "SettleViaOutbox s ctx q usage w") auto

definition sample_outbox_row :: outbox_row where
  "sample_outbox_row = \<lparr>o_request_id = ''req-0'', o_user_id = ''u1'', o_reservation_id = ''r1'', o_provider = ''openai'',
     o_model = ''gpt-4o-mini'', o_status = ''pending'', o_attempt_count = 0, o_last_error = None,
     o_created_at = 1786740000, o_updated_at = 1786740000\<rparr>"

definition sample_outbox_db :: database where
  "sample_outbox_db = sample_db\<lparr>settlement_outbox := [sample_outbox_row]\<rparr>"

lemma sample_outbox_inv: "credits_inv sample_outbox_db"
  using sample_db_inv by (simp add: sample_outbox_db_def)

theorem SettleViaOutbox_charges_once_witness:
  "case SettleViaOutbox sample_service (\<lambda>_. None) ''req-0'' (sample_usage 1000 500) (sample_world sample_outbox_db) of (x, w') \<Rightarrow>
     credits_inv (db w') \<and>
     (x \<noteq> Inr () \<and> same_money (db (sample_world sample_outbox_db)) (db w') \<or>
      paid_from ''req-0'' (outbox_price sample_service (sample_usage 1000 500)) (db (sample_world sample_outbox_db)) (db w')) \<and>
     (x = Inr () \<longrightarrow>
        Credits sample_service (sample_usage 1000 500) = Inr (outbox_price sample_service (sample_usage 1000 500)) \<and>
        (\<forall>ob \<in> set (settlement_outbox (db w')). o_request_id ob = ''req-0'' \<longrightarrow> o_status ob = ''settled''))"
  by (rule SettleViaOutbox_charges_once) (simp add: sample_outbox_inv)

text \<open>A repeated settlement marks the row failed. If the reservation is already closed, for instance because the
  process stopped after the settlement committed and before the row was marked, then without faults
  \<open>SettleViaOutbox\<close> reports \<open>ErrReservationClosed\<close>, moves no money, and turns the outbox row to \<open>failed\<close>, although the
  charge was made.\<close>

theorem SettleViaOutbox_again_marks_failed:
  assumes "faults w = []" "find (\<lambda>ob. o_request_id ob = q) (settlement_outbox (db w)) = Some ob"
    and "find (\<lambda>r. r_ID r = o_reservation_id ob) (credit_reservations (db w)) = Some r" "r_Status r \<noteq> reservationStatusReserved"
    and "Credits s usage = Inr cc" "0 \<le> cc"
  shows "fst (SettleViaOutbox s ctx q usage w) = Inl ErrReservationClosed \<and>
     same_money (db w) (db (snd (SettleViaOutbox s ctx q usage w))) \<and>
     (\<exists>ob'. find (\<lambda>ob. o_request_id ob = q) (settlement_outbox (db (snd (SettleViaOutbox s ctx q usage w)))) = Some ob' \<and>
        o_status ob' = ''failed'' \<and> o_attempt_count ob' = o_attempt_count ob + 1)"
proof -
  have id: "r_ID r = o_reservation_id ob" "o_request_id ob = q" using assms(2,3) by (auto dest: find_SomeD)
  have "Settle (Some r) cc w = (Inl ErrReservationClosed, Some r, w)"
    using finalize_refused [where w = w and a = r and e = ErrReservationClosed and n = cc] assms(1,3,4,6) id by simp
  then have "settle_row r cc w = (Inl ErrReservationClosed, w)" by (simp add: settle_row_def)
  then have run: "SettleViaOutbox s ctx q usage w =
      (Inl ErrReservationClosed, w\<lparr>db := (db w)\<lparr>settlement_outbox := update_where (\<lambda>ob. o_request_id ob = q)
         (\<lambda>ob. ob\<lparr>o_status := ''failed'', o_last_error := Some (error_text ErrReservationClosed),
            o_attempt_count := o_attempt_count ob + 1, o_updated_at := now w\<rparr>) (settlement_outbox (db w))\<rparr>\<rparr>)"
    using assms(1-3,5)
    by (simp add: SettleViaOutbox_def reservationByID_def io_ok row_or_none_def update_outbox_def)
  show ?thesis
    unfolding run using assms(2) id by (simp add: same_money_def find_update_where)
qed

definition sample_closed_db :: database where
  "sample_closed_db = sample_outbox_db\<lparr>credit_reservations :=
     [sample_reservation\<lparr>r_Status := reservationStatusCaptured, r_Captured := 300\<rparr>]\<rparr>"

theorem SettleViaOutbox_again_marks_failed_witness:
  "fst (SettleViaOutbox sample_service (\<lambda>_. None) ''req-0'' (sample_usage 1000 500) (sample_world sample_closed_db)) =
     Inl ErrReservationClosed"
proof -
  have c: "Credits sample_service (sample_usage 1000 500) = Inr 1" by code_simp
  show ?thesis
    using SettleViaOutbox_again_marks_failed [of "sample_world sample_closed_db" "''req-0''" sample_outbox_row
        "sample_reservation\<lparr>r_Status := reservationStatusCaptured, r_Captured := 300\<rparr>" sample_service "sample_usage 1000 500" 1] c
    by (simp add: sample_closed_db_def sample_outbox_db_def sample_outbox_row_def)
qed

text \<open>C37: the periodic pass never charges anybody. Whatever faults occur, \<open>ProcessSettlementOutbox\<close> keeps the invariant and
  records no usage; all it does to money is to release in full some reservations that were still open and whose
  pending outbox row is more than an hour old, so that no balance ever falls.\<close>

theorem ProcessSettlementOutbox_never_charges:
  assumes "credits_inv (db w)"
  shows "let d' = db (snd (ProcessSettlementOutbox limit w))
         in credits_inv d' \<and> llm_usage d' = llm_usage (db w) \<and>
            (\<exists>released.
               (\<forall>r. released r \<longrightarrow> r_Status r = reservationStatusReserved \<and>
                  (\<exists>ob \<in> set (settlement_outbox (db w)). o_reservation_id ob = r_ID r \<and>
                     o_request_id ob \<in> set (pending_ids (if limit \<le> 0 then 100 else limit) (db w)) \<and>
                     wrap64 (unix (wall w) - o_created_at ob) > staleSettlementSeconds)) \<and>
               credit_reservations d' = update_where released (release_close (now w)) (credit_reservations (db w)) \<and>
               (\<forall>v. balance_of d' v = balance_of (db w) v +
                  sum_where (\<lambda>r. r_UserID r = v \<and> released r) r_Amount (credit_reservations (db w))))"
proof -
  let ?qs = "set (pending_ids (if limit \<le> 0 then 100 else limit) (db w))"
  define d' where "d' = db (snd (ProcessSettlementOutbox limit w))"
  have "pass_ok ?qs w d'"
    using ProcessSettlementOutbox_pass [OF assms, of limit] unfolding d'_def
    by (cases "ProcessSettlementOutbox limit w") simp
  then obtain ids where u: "llm_usage d' = llm_usage (db w)" and sw: "swept (release_close (now w)) ids (db w) d'"
    and sub: "ids \<subseteq> overdue ?qs w" unfolding pass_ok_def by blast
  define released where "released = (\<lambda>r :: Reservation. r_ID r \<in> ids \<and> r_Status r = reservationStatusReserved)"
  have "\<exists>ob \<in> set (settlement_outbox (db w)). o_reservation_id ob = r_ID r \<and> o_request_id ob \<in> ?qs \<and>
      wrap64 (unix (wall w) - o_created_at ob) > staleSettlementSeconds" if "released r" for r
  proof -
    have "r_ID r \<in> overdue ?qs w" using that sub by (auto simp: released_def)
    then show ?thesis unfolding overdue_def outbox_facts_def by force
  qed
  moreover have "credit_reservations d' = update_where released (release_close (now w)) (credit_reservations (db w))"
    "credits_inv d'" using sw by (simp_all add: swept_def released_def)
  moreover have "balance_of d' v = balance_of (db w) v +
      sum_where (\<lambda>r. r_UserID r = v \<and> released r) r_Amount (credit_reservations (db w))" for v
    using swept_balance [OF voids_release assms sw, of v] by (simp add: released_def)
  ultimately show ?thesis
    unfolding Let_def d'_def [symmetric] using u by (intro conjI exI [of _ released]) (auto simp: released_def)
qed

theorem ProcessSettlementOutbox_never_charges_witness:
  "let d' = db (snd (ProcessSettlementOutbox 0 (sample_world sample_outbox_db)))
   in credits_inv d' \<and> llm_usage d' = llm_usage (db (sample_world sample_outbox_db)) \<and>
      (\<exists>released.
         (\<forall>r. released r \<longrightarrow> r_Status r = reservationStatusReserved \<and>
            (\<exists>ob \<in> set (settlement_outbox (db (sample_world sample_outbox_db))). o_reservation_id ob = r_ID r \<and>
               o_request_id ob \<in> set (pending_ids (if (0::int) \<le> 0 then 100 else 0) (db (sample_world sample_outbox_db))) \<and>
               wrap64 (unix (wall (sample_world sample_outbox_db)) - o_created_at ob) > staleSettlementSeconds)) \<and>
         credit_reservations d' = update_where released (release_close (now (sample_world sample_outbox_db)))
           (credit_reservations (db (sample_world sample_outbox_db))) \<and>
         (\<forall>v. balance_of d' v = balance_of (db (sample_world sample_outbox_db)) v +
            sum_where (\<lambda>r. r_UserID r = v \<and> released r) r_Amount (credit_reservations (db (sample_world sample_outbox_db)))))"
  by (rule ProcessSettlementOutbox_never_charges) (simp add: sample_outbox_inv)

lemma process_outbox_row_closed:
  assumes "process_outbox_row q w = (x, w')"
    and "\<forall>ob \<in> set (settlement_outbox (db w)). o_request_id ob = q \<longrightarrow>
      (\<forall>r \<in> set (credit_reservations (db w)). r_ID r = o_reservation_id ob \<longrightarrow> r_Status r \<noteq> ''reserved'')"
  shows "db w' = db w \<and> x = Inr ()"
proof -
  obtain l w1 where look: "query (\<lambda>d. row_or_none (find (\<lambda>ob. o_request_id ob = q) (settlement_outbox d))) w = (l, w1)"
    by fastforce
  then have w1: "db w1 = db w" by (auto dest: query_any)
  show ?thesis
  proof (cases l)
    case (Inl e)
    then show ?thesis using assms(1) look w1 by (auto simp: process_outbox_row_def io_defs)
  next
    case (Inr ob)
    then have ob: "find (\<lambda>ob. o_request_id ob = q) (settlement_outbox (db w)) = Some ob"
      using look by (simp add: query_Inr row_or_none_Inr)
    obtain rr w2 where by_id: "reservationByID (o_reservation_id ob) w1 = (rr, w2)" by fastforce
    then have w2: "db w2 = db w" using reservationByID_any w1 by fastforce
    have "r_Status r \<noteq> ''reserved''" if r: "rr = Inr r" for r
    proof -
      from reservationByID_Inr [OF by_id [unfolded r]] obtain r0
        where "find (\<lambda>r. r_ID r = o_reservation_id ob) (credit_reservations (db w)) = Some r0" "r_Status r = r_Status r0"
        using w1 by auto
      then show ?thesis using assms(2) ob by (auto dest!: find_SomeD)
    qed
    then show ?thesis
      using assms(1) look Inr by_id w1 w2
      by (cases rr; cases "wrap64 (unix (wall w1) - o_created_at ob) > staleSettlementSeconds")
        (auto simp: process_outbox_row_def io_defs)
  qed
qed

lemma process_outbox_rows_closed:
  "process_outbox_rows qs w = (x, w') \<Longrightarrow>
   \<forall>ob \<in> set (settlement_outbox (db w)). o_request_id ob \<in> set qs \<longrightarrow>
      (\<forall>r \<in> set (credit_reservations (db w)). r_ID r = o_reservation_id ob \<longrightarrow> r_Status r \<noteq> ''reserved'') \<Longrightarrow>
   db w' = db w"
proof (induction qs arbitrary: w)
  case (Cons q qs)
  obtain y w1 where one: "process_outbox_row q w = (y, w1)" by fastforce
  then have "db w1 = db w" "y = Inr ()" using process_outbox_row_closed [OF one] Cons.prems(2) by auto
  then show ?case using Cons.IH [of w1] Cons.prems one by (simp add: bind_io_def)
qed (simp add: return_io_def)

text \<open>A pending row whose reservation was closed by other means stays pending forever. If the reservations of all
  rows the pass selects are no longer reserved (settled by a process that then stopped, released, or expired by
  \<open>Reconcile\<close>), the pass changes no table, whatever the clocks and faults.\<close>

theorem ProcessSettlementOutbox_leaves_closed:
  assumes "\<forall>ob \<in> set (settlement_outbox (db w)). o_request_id ob \<in> set (pending_ids (if limit \<le> 0 then 100 else limit) (db w)) \<longrightarrow>
      (\<forall>r \<in> set (credit_reservations (db w)). r_ID r = o_reservation_id ob \<longrightarrow> r_Status r \<noteq> ''reserved'')"
  shows "db (snd (ProcessSettlementOutbox limit w)) = db w"
proof -
  let ?n = "if limit \<le> 0 then 100 else limit"
  obtain l w1 where q: "query (\<lambda>d. Inr (pending_ids ?n d)) w = (l, w1)" by fastforce
  then have w1: "db w1 = db w" using query_any [OF q] by simp
  show ?thesis
  proof (cases l)
    case (Inl e)
    then show ?thesis using q w1 by (simp add: ProcessSettlementOutbox_def bind_io_def)
  next
    case (Inr ids)
    with q have "ids = pending_ids ?n (db w)" by (simp add: query_Inr)
    then have "ProcessSettlementOutbox limit w = process_outbox_rows (pending_ids ?n (db w)) w1"
      using q Inr by (simp add: ProcessSettlementOutbox_def bind_io_def)
    moreover obtain x w' where rows: "process_outbox_rows (pending_ids ?n (db w)) w1 = (x, w')" by fastforce
    moreover have "db w' = db w1" by (rule process_outbox_rows_closed [OF rows]) (unfold w1, rule assms)
    ultimately show ?thesis using w1 by simp
  qed
qed

theorem ProcessSettlementOutbox_leaves_closed_witness:
  "db (snd (ProcessSettlementOutbox 10 (sample_world sample_closed_db))) = sample_closed_db"
proof -
  have "reservationStatusCaptured \<noteq> ''reserved''" by (simp add: reservationStatusCaptured_def)
  then show ?thesis
    using ProcessSettlementOutbox_leaves_closed [of "sample_world sample_closed_db" 10]
    by (simp add: sample_closed_db_def)
qed

text \<open>Enqueueing is idempotent by request id. Without faults it succeeds, and afterwards there is exactly the row that
  was there before, or a new pending row; no other row and no other table changes.\<close>

theorem EnqueueSettlement_idempotent:
  assumes "faults w = []"
  shows "\<exists>w'. EnqueueSettlement q u rid prov model w = (Inr (), w') \<and> same_money (db w) (db w') \<and>
     settlement_outbox (db w') = settlement_outbox (db w) @
       (if \<exists>ob \<in> set (settlement_outbox (db w)). o_request_id ob = q then []
        else [\<lparr>o_request_id = q, o_user_id = u, o_reservation_id = rid, o_provider = prov, o_model = model,
               o_status = ''pending'', o_attempt_count = 0, o_last_error = None, o_created_at = now w, o_updated_at = now w\<rparr>])"
  using assms by (auto simp: EnqueueSettlement_def io_ok insert_outbox_def list_ex_iff same_money_def)

theorem EnqueueSettlement_idempotent_witness:
  "\<exists>w'. EnqueueSettlement ''req-0'' ''u1'' ''r1'' ''openai'' ''gpt-4o-mini'' (sample_world sample_db) = (Inr (), w') \<and>
     same_money (db (sample_world sample_db)) (db w') \<and>
     settlement_outbox (db w') = settlement_outbox (db (sample_world sample_db)) @
       (if \<exists>ob \<in> set (settlement_outbox (db (sample_world sample_db))). o_request_id ob = ''req-0'' then []
        else [\<lparr>o_request_id = ''req-0'', o_user_id = ''u1'', o_reservation_id = ''r1'', o_provider = ''openai'',
               o_model = ''gpt-4o-mini'', o_status = ''pending'', o_attempt_count = 0, o_last_error = None,
               o_created_at = now (sample_world sample_db), o_updated_at = now (sample_world sample_db)\<rparr>])"
  by (rule EnqueueSettlement_idempotent) simp

end
