(* ===== verification/Monthly.thy ===== *)
theory Monthly
  imports Ledger
begin

text \<open>
  Subscriptions (\<open>src/credits/subscription.go\<close>) and the lazy monthly grant (\<open>src/credits/monthly.go\<close>), which is
  gated by them. The period of a grant is the UTC month of the service clock: \<open>period_of\<close> is
  \<open>Now().UTC().Format("2006-01")\<close>, computed from the seconds since the epoch by the calendar arithmetic of package
  \<open>time\<close>, and shown to be the Gregorian month.
\<close>

section \<open>Subscriptions\<close>

definition SubscriptionActive :: string where "SubscriptionActive = ''active''"
definition SubscriptionPaused :: string where "SubscriptionPaused = ''paused''"
definition SubscriptionCanceled :: string where "SubscriptionCanceled = ''cancelled''"

text \<open>\<open>INSERT INTO subscriptions ... ON CONFLICT(user_id) DO UPDATE SET plan, status, updated_at\<close>.\<close>

definition upsert_subscription :: "string \<Rightarrow> string \<Rightarrow> string \<Rightarrow> int \<Rightarrow> database \<Rightarrow> error + (nat \<times> database)" where
  "upsert_subscription userID plan status ts d =
     Inr (1, d\<lparr>subscriptions :=
       (if list_ex (\<lambda>s. s_UserID s = userID) (subscriptions d)
        then update_where (\<lambda>s. s_UserID s = userID) (\<lambda>s. s\<lparr>s_Plan := plan, s_Status := status, s_UpdatedAt := ts\<rparr>)
               (subscriptions d)
        else subscriptions d @
               [\<lparr>s_UserID = userID, s_Plan = plan, s_Status = status, s_CreatedAt = ts, s_UpdatedAt = ts\<rparr>])\<rparr>)"

definition SetSubscription :: "string \<Rightarrow> string \<Rightarrow> string \<Rightarrow> 'z world_scheme \<Rightarrow> (error + unit) \<times> 'z world_scheme" where
  "SetSubscription userID plan status =
     bind_io (check_io (requireIdentifier ''user_id'' userID)) (\<lambda>_.
     bind_io (check_io (requireIdentifier ''plan'' plan)) (\<lambda>_.
     if status \<noteq> SubscriptionActive \<and> status \<noteq> SubscriptionPaused \<and> status \<noteq> SubscriptionCanceled
     then throw_io (ErrMsg ''credits: invalid subscription status'') else
     bind_io (read_io now) (\<lambda>ts.
     bind_io (stmt (upsert_subscription userID plan status ts)) (\<lambda>_.
     return_io ()))))"

definition SubscriptionOf :: "string \<Rightarrow> 'z world_scheme \<Rightarrow> (error + Subscription) \<times> 'z world_scheme" where
  "SubscriptionOf userID w =
     (case query (\<lambda>d. row_or_none (find (\<lambda>s. s_UserID s = userID) (subscriptions d))) w of
        (Inl e, w') \<Rightarrow> (Inl (if e = ErrNoRows then ErrSubscriptionNotFound else e), w')
      | (Inr sub, w') \<Rightarrow> (Inr sub, w'))"

definition CancelSubscription :: "string \<Rightarrow> 'z world_scheme \<Rightarrow> (error + unit) \<times> 'z world_scheme" where
  "CancelSubscription userID =
     bind_io (SubscriptionOf userID) (\<lambda>sub.
     SetSubscription userID (s_Plan sub) SubscriptionCanceled)"

section \<open>The calendar\<close>

definition leap :: "int \<Rightarrow> bool" where
  "leap y \<longleftrightarrow> y mod 4 = 0 \<and> (y mod 100 \<noteq> 0 \<or> y mod 400 = 0)"

text \<open>Year and day of the year (from 0) of a day counted from 1 January of the year 1.\<close>

definition year_yday :: "int \<Rightarrow> int \<times> int" where
  "year_yday d0 =
     (let n400 = d0 div 146097; d1 = d0 - 146097 * n400;
          n100 = (let n = d1 div 36524 in n - n div 4); d2 = d1 - 36524 * n100;
          n4 = d2 div 1461; d3 = d2 - 1461 * n4;
          n1 = (let n = d3 div 365 in n - n div 4); d4 = d3 - 365 * n1
      in (1 + 400 * n400 + 100 * n100 + 4 * n4 + n1, d4))"

definition days_before :: "int list" where
  "days_before = [0, 31, 59, 90, 120, 151, 181, 212, 243, 273, 304, 334, 365]"

text \<open>Month (from 1) of a day of a year, which is a leap year or not.\<close>

definition month_of :: "bool \<Rightarrow> int \<Rightarrow> int" where
  "month_of lp yday =
     (if lp \<and> yday = 59 then 2
      else let day = (if lp \<and> yday > 59 then yday - 1 else yday);
               month = day div 31
           in if day \<ge> days_before ! nat (month + 1) then month + 2 else month + 1)"

definition pad :: "nat \<Rightarrow> nat \<Rightarrow> string" where
  "pad width n = replicate (width - length (digits n)) (CHR ''0'') @ digits n"

text \<open>The layout \<open>"2006-01"\<close>: the year with at least four digits, then the month with two.\<close>

definition format_month :: "int \<Rightarrow> int \<Rightarrow> string" where
  "format_month y m = (if y < 0 then ''-'' @ pad 4 (nat (- y)) else pad 4 (nat y)) @ ''-'' @ pad 2 (nat m)"

definition period_of :: "int \<Rightarrow> string" where
  "period_of ns = (let (y, yday) = year_yday (unix ns div 86400 + 719162) in format_month y (month_of (leap y) yday))"

section \<open>The monthly grant\<close>

definition Period :: "'z world_scheme \<Rightarrow> string" where
  "Period w = period_of (clk w)"

definition monthlyGrantKey :: "string \<Rightarrow> string \<Rightarrow> string" where
  "monthlyGrantKey userID period = ''monthly:'' @ userID @ '':'' @ period"

definition planCreditFor :: "Service \<Rightarrow> string \<Rightarrow> int" where
  "planCreditFor s plan =
     (if plan \<noteq> [] then (case PlanMonthlyCredits s plan of Some v \<Rightarrow> v | None \<Rightarrow> MonthlyCredits s) else MonthlyCredits s)"

definition mint_monthly :: "Service \<Rightarrow> string \<Rightarrow> string \<Rightarrow> 'z world_scheme \<Rightarrow> (error + bool) \<times> 'z world_scheme" where
  "mint_monthly s userID plan =
     (let amount = planCreditFor s plan
      in if amount \<le> 0 then return_io False else
         bind_io (read_io Period) (\<lambda>period.
         bind_io (try_io (Grant userID amount ''monthly'' ''monthly_grant'' (monthlyGrantKey userID period))) (\<lambda>r.
         case r of
           Inl e \<Rightarrow> if e = ErrDuplicateGrant then return_io False else throw_io e
         | Inr _ \<Rightarrow> return_io True)))"

definition EnsureMonthlyGrant :: "Service \<Rightarrow> string \<Rightarrow> string \<Rightarrow> 'z world_scheme \<Rightarrow> (error + bool) \<times> 'z world_scheme" where
  "EnsureMonthlyGrant s userID plan =
     bind_io (try_io (SubscriptionOf userID)) (\<lambda>r.
     case r of
       Inr sub \<Rightarrow> if s_Status sub \<noteq> SubscriptionActive then return_io False else mint_monthly s userID plan
     | Inl e \<Rightarrow> if e \<noteq> ErrSubscriptionNotFound then throw_io e else mint_monthly s userID plan)"

section \<open>The calendar is the Gregorian calendar\<close>

definition days_to_year :: "int \<Rightarrow> int" where
  "days_to_year y = 365 * (y - 1) + (y - 1) div 4 - (y - 1) div 100 + (y - 1) div 400"

definition year_days :: "int \<Rightarrow> int" where
  "year_days y = (if leap y then 366 else 365)"

lemma div_step:
  fixes y n :: int
  assumes "0 < n"
  shows "y div n = (y - 1) div n + (if y mod n = 0 then 1 else 0)"
proof (cases "y mod n = 0")
  case True
  then have "y - 1 = n * (y div n - 1) + (n - 1)" using mult_div_mod_eq [of n y] by (simp add: algebra_simps)
  then have "(y - 1) div n = y div n - 1" using assms by (intro int_div_pos_eq [where r = "n - 1"]) simp_all
  with True show ?thesis by simp
next
  case False
  then have "0 < y mod n" using pos_mod_sign [OF assms, of y] by linarith
  moreover have "y - 1 = n * (y div n) + (y mod n - 1)" by simp
  ultimately have "(y - 1) div n = y div n"
    using pos_mod_bound [OF assms, of y] by (intro int_div_pos_eq [where r = "y mod n - 1"]) linarith+
  with False show ?thesis by simp
qed

lemma days_to_year_Suc: "days_to_year (y + 1) = days_to_year y + year_days y"
proof -
  have imp: "y mod 400 = 0 \<Longrightarrow> y mod 100 = 0" "y mod 100 = 0 \<Longrightarrow> y mod 4 = 0"
    using dvd_trans [of 100 400 y] dvd_trans [of 4 100 y] by (simp_all add: mod_eq_0_iff_dvd)
  have gen: "365 * y + (p + (if A then 1 else 0)) - (q + (if B then 1 else 0)) + (r + (if C then 1 else 0)) =
      365 * (y - 1) + p - q + r + (if A \<and> (\<not> B \<or> C) then 366 else 365)"
    if "C \<Longrightarrow> B" "B \<Longrightarrow> A" for p q r :: int and A B C
    using that by (cases A; cases B; cases C) simp_all
  have steps: "y div 4 = (y - 1) div 4 + (if y mod 4 = 0 then 1 else 0)"
    "y div 100 = (y - 1) div 100 + (if y mod 100 = 0 then 1 else 0)"
    "y div 400 = (y - 1) div 400 + (if y mod 400 = 0 then 1 else 0)"
    by (rule div_step; simp)+
  show ?thesis
    unfolding days_to_year_def year_days_def leap_def add_diff_cancel_right' steps
    by (rule gen) (fact imp)+
qed

lemma year_yday_correct:
  assumes "0 \<le> k" "k < year_days y"
  shows "year_yday (days_to_year y + k) = (y, k)"
proof -
  define a where "a = (y - 1) div 400"
  define b where "b = (y - 1) mod 400 div 100"
  define c where "c = (y - 1) mod 400 mod 100 div 4"
  define e where "e = (y - 1) mod 400 mod 100 mod 4"
  have bnd: "0 \<le> b" "b < 4" "0 \<le> c" "c < 25" "0 \<le> e" "e < 4"
    by (simp_all add: b_def c_def e_def pos_imp_zdiv_nonneg_iff zdiv_less_iff)
  have y: "y - 1 = 400 * a + 100 * b + 4 * c + e" unfolding a_def b_def c_def e_def by simp
  have d: "(y - 1) div 4 = 100 * a + 25 * b + c" "(y - 1) div 100 = 4 * a + b" "(y - 1) div 400 = a"
    using int_div_pos_eq [of "y - 1" 4 _ e] int_div_pos_eq [of "y - 1" 100 _ "4 * c + e"]
      int_div_pos_eq [of "y - 1" 400 _ "100 * b + 4 * c + e"] bnd y by simp_all
  have m: "y mod 4 = (e + 1) mod 4" "y mod 100 = (4 * c + e + 1) mod 100" "y mod 400 = (100 * b + 4 * c + e + 1) mod 400"
  proof -
    have shift: "y mod n = r mod n" if "y = n * q + r" for n q r using that by simp
    show "y mod 4 = (e + 1) mod 4" by (rule shift [where q = "100 * a + 25 * b + c"]) (use y in \<open>simp add: algebra_simps\<close>)
    show "y mod 100 = (4 * c + e + 1) mod 100" by (rule shift [where q = "4 * a + b"]) (use y in \<open>simp add: algebra_simps\<close>)
    show "y mod 400 = (100 * b + 4 * c + e + 1) mod 400" by (rule shift [where q = a]) (use y in \<open>simp add: algebra_simps\<close>)
  qed
  have leap: "leap y \<longleftrightarrow> e = 3 \<and> (c \<noteq> 24 \<or> b = 3)"
  proof -
    have small: "x mod n = 0 \<longleftrightarrow> x = n" if "0 < x" "x \<le> n" for x n :: int
      using that by (cases "x = n") simp_all
    have "y mod 4 = 0 \<longleftrightarrow> e = 3" unfolding m(1) using bnd small [of "e + 1" 4] by simp
    moreover have "y mod 100 = 0 \<longleftrightarrow> c = 24" if "e = 3"
      unfolding m(2) using that bnd small [of "4 * c + e + 1" 100] by simp
    moreover have "y mod 400 = 0 \<longleftrightarrow> b = 3" if "e = 3" "c = 24"
      unfolding m(3) using that bnd small [of "100 * b + 4 * c + e + 1" 400] by simp
    moreover have "y mod 400 = 0 \<Longrightarrow> y mod 100 = 0"
      using dvd_trans [of 100 400 y] by (simp add: mod_eq_0_iff_dvd)
    ultimately show ?thesis unfolding leap_def by (cases "e = 3"; cases "c = 24") simp_all
  qed
  have days: "days_to_year y + k = 146097 * a + (36524 * b + (1461 * c + (365 * e + k)))"
    unfolding days_to_year_def d unfolding y by simp
  have k: "k < 365 \<or> k = 365 \<and> e = 3 \<and> (c \<noteq> 24 \<or> b = 3)"
    using assms leap by (auto simp: year_days_def split: if_splits)
  have k': "0 \<le> k" "k \<le> 365" using assms(1) k by linarith+
  have r1: "365 * e + k \<le> 1460" using k' bnd(5,6) by linarith
  have r2: "1461 * c + (365 * e + k) \<le> 36524" using k' bnd by linarith
  have r2': "b = 3" if "1461 * c + (365 * e + k) = 36524" using that k k' bnd by linarith
  have r3: "36524 * b + (1461 * c + (365 * e + k)) < 146097" using r2 r2' bnd by linarith
  have nn: "0 \<le> 365 * e + k" "0 \<le> 1461 * c + (365 * e + k)" "0 \<le> 36524 * b + (1461 * c + (365 * e + k))"
    using bnd k' by simp_all
  let ?S = "1461 * c + (365 * e + k)"
  have q400: "(days_to_year y + k) div 146097 = a" using days r3 nn(3) by (intro int_div_pos_eq)
  have "(36524 * b + ?S) div 36524 = (if ?S = 36524 then 4 else b)"
  proof (cases "?S = 36524")
    case True
    then have "36524 * b + ?S = 36524 * 4 + 0" using r2' by simp
    then show ?thesis using True by (simp only: if_True) simp
  next
    case False
    then have "?S < 36524" using r2 by simp
    then have "(36524 * b + ?S) div 36524 = b" using nn(2) by (intro int_div_pos_eq [OF refl])
    then show ?thesis using False by simp
  qed
  then have q100: "(36524 * b + ?S) div 36524 - (36524 * b + ?S) div 36524 div 4 = b"
    using r2' bnd by (cases "?S = 36524") simp_all
  have q4: "?S div 1461 = c" using r1 nn(1) by (intro int_div_pos_eq [OF refl]) simp_all
  have "(365 * e + k) div 365 = (if k = 365 then 4 else e)"
    using k assms(1) by (auto intro!: int_div_pos_eq [OF refl])
  then have q1: "(365 * e + k) div 365 - (365 * e + k) div 365 div 4 = e"
    using k bnd by (cases "k = 365") simp_all
  have s: "days_to_year y + k - 146097 * a = 36524 * b + ?S" "36524 * b + ?S - 36524 * b = ?S"
    "?S - 1461 * c = 365 * e + k" "365 * e + k - 365 * e = k" "1 + 400 * a + 100 * b + 4 * c + e = y"
    using days y by simp_all
  show ?thesis unfolding year_yday_def Let_def q400 s(1) q100 s(2) q4 s(3) q1 s(4,5) ..
qed

definition month_days :: "bool \<Rightarrow> int \<Rightarrow> int" where
  "month_days lp m = (if m = 2 then (if lp then 29 else 28) else if m \<in> {4, 6, 9, 11} then 30 else 31)"

definition days_to_month :: "bool \<Rightarrow> int \<Rightarrow> int" where
  "days_to_month lp m = sum_list (map (month_days lp) [1 .. m - 1])"

lemma month_of_correct:
  assumes "1 \<le> m" "m \<le> 12" "0 \<le> k" "k < month_days lp m"
  shows "month_of lp (days_to_month lp m + k) = m"
proof -
  have all: "\<forall>lp \<in> set [True, False]. \<forall>m \<in> set [1 .. 12]. \<forall>k \<in> set [0 .. month_days lp m - 1].
      month_of lp (days_to_month lp m + k) = m"
    by code_simp
  have "lp \<in> set [True, False]" "m \<in> set [1 .. 12]" "k \<in> set [0 .. month_days lp m - 1]" using assms by auto
  with all show ?thesis by blast
qed

lemma days_to_month_year:
  assumes "1 \<le> m" "m \<le> 12"
  shows "0 \<le> days_to_month lp m \<and> days_to_month lp m + month_days lp m \<le> (if lp then 366 else 365)"
proof -
  have all: "\<forall>lp \<in> set [True, False]. \<forall>m \<in> set [1 .. 12].
      0 \<le> days_to_month lp m \<and> days_to_month lp m + month_days lp m \<le> (if lp then 366 else 365)"
    by code_simp
  have "lp \<in> set [True, False]" "m \<in> set [1 .. 12]" using assms by auto
  with all show ?thesis by blast
qed

lemma period_of_correct:
  assumes "1 \<le> m" "m \<le> 12" "0 \<le> k" "k < month_days (leap y) m"
    and "unix ns div 86400 = days_to_year y - days_to_year 1970 + days_to_month (leap y) m + k"
  shows "period_of ns = format_month y m"
proof -
  have "days_to_year 1970 = 719162" by (simp add: days_to_year_def)
  then have day: "unix ns div 86400 + 719162 = days_to_year y + (days_to_month (leap y) m + k)" using assms(5) by simp
  have "year_yday (unix ns div 86400 + 719162) = (y, days_to_month (leap y) m + k)"
    unfolding day using days_to_month_year [OF assms(1,2), of "leap y"] assms(3,4)
    by (intro year_yday_correct) (auto simp: year_days_def split: if_splits)
  then show ?thesis using month_of_correct [OF assms(1-4)] by (simp add: period_of_def)
qed

text \<open>Different months have different names.\<close>

lemma undigits_zeros: "undigits (replicate k (CHR ''0'') @ s) = undigits s"
  by (induction k) (simp_all add: undigits_def hex_val_def)

lemma pad_inj: "pad w n = pad w n' \<longleftrightarrow> n = n'"
  by (metis pad_def undigits_zeros undigits_digits)

lemma length_digits: "n < 10 ^ k \<Longrightarrow> 0 < k \<Longrightarrow> length (digits n) \<le> k"
proof (induction k arbitrary: n)
  case (Suc k)
  show ?case
  proof (cases "n < 10")
    case False
    with Suc.prems have "n div 10 < 10 ^ k" "0 < k" by (auto simp: div_less_iff_less_mult mult.commute intro: gr0I)
    with Suc.IH [of "n div 10"] False show ?thesis by (subst digits.simps) simp
  qed (subst digits.simps, simp)
qed simp

lemma length_pad: "n < 10 ^ w \<Longrightarrow> 0 < w \<Longrightarrow> length (pad w n) = w"
  using length_digits [of n w] by (simp add: pad_def)

lemma length_format_month: "0 \<le> y \<Longrightarrow> y \<le> 9999 \<Longrightarrow> 1 \<le> m \<Longrightarrow> m \<le> 12 \<Longrightarrow> length (format_month y m) = 7"
  by (simp add: format_month_def length_pad)

lemma format_month_inj:
  assumes "0 \<le> y" "y \<le> 9999" "0 \<le> y'" "y' \<le> 9999" "1 \<le> m" "m \<le> 12" "1 \<le> m'" "m' \<le> 12"
  shows "format_month y m = format_month y' m' \<longleftrightarrow> y = y' \<and> m = m'"
proof -
  have "length (pad 4 (nat y)) = length (pad 4 (nat y'))" using assms by (simp add: length_pad)
  then show ?thesis using assms by (auto simp: format_month_def pad_inj)
qed

section \<open>What the operations do\<close>

definition gate_open :: "database \<Rightarrow> string \<Rightarrow> bool" where
  "gate_open d u \<longleftrightarrow>
     (case find (\<lambda>s. s_UserID s = u) (subscriptions d) of None \<Rightarrow> True | Some sub \<Rightarrow> s_Status sub = SubscriptionActive)"

lemma SubscriptionOf_any: "SubscriptionOf u w = (x, w') \<Longrightarrow> db w' = db w \<and> clk w' = clk w"
  by (auto simp: SubscriptionOf_def dest: query_any split: prod.splits sum.splits)

lemma SubscriptionOf_Inr: "SubscriptionOf u w = (Inr sub, w') \<Longrightarrow> find (\<lambda>s. s_UserID s = u) (subscriptions (db w)) = Some sub"
  by (auto simp: SubscriptionOf_def query_Inr row_or_none_Inr split: prod.splits sum.splits)

lemma SubscriptionOf_ok:
  "faults w = [] \<Longrightarrow>
   SubscriptionOf u w =
     (case find (\<lambda>s. s_UserID s = u) (subscriptions (db w)) of
        None \<Rightarrow> (Inl ErrSubscriptionNotFound, w) | Some sub \<Rightarrow> (Inr sub, w))"
  by (simp add: SubscriptionOf_def query_ok row_or_none_def split: option.splits)

lemma SubscriptionOf_not_found:
  "SubscriptionOf u w = (Inl ErrSubscriptionNotFound, w') \<Longrightarrow> find (\<lambda>s. s_UserID s = u) (subscriptions (db w)) = None"
  by (auto simp: SubscriptionOf_def query_def stmt_def Let_def row_or_none_def
      split: prod.splits sum.splits option.splits if_splits)

lemma mint_monthly_run:
  assumes run: "mint_monthly s u plan w = (x, w')"
  shows "x \<noteq> Inr True \<and> db w' = db w \<or>
     x = Inr True \<and> 0 < planCreditFor s plan \<and>
     Grant u (planCreditFor s plan) ''monthly'' ''monthly_grant'' (monthlyGrantKey u (Period w)) w = (Inr (), w')"
proof (cases "planCreditFor s plan \<le> 0")
  case True
  then show ?thesis using run by (auto simp: mint_monthly_def return_io_def)
next
  case False
  obtain y w1 where g: "Grant u (planCreditFor s plan) ''monthly'' ''monthly_grant'' (monthlyGrantKey u (Period w)) w = (y, w1)"
    by fastforce
  show ?thesis
  proof (cases y)
    case (Inl e)
    then have "db w1 = db w" using g Grant_Inl by blast
    then show ?thesis using run False g Inl by (cases "e = ErrDuplicateGrant") (auto simp: mint_monthly_def Let_def io_defs)
  next
    case (Inr z)
    then show ?thesis using run False g by (simp add: mint_monthly_def Let_def io_defs)
  qed
qed

lemma EnsureMonthlyGrant_run:
  assumes run: "EnsureMonthlyGrant s u plan w = (x, w')"
  shows "x \<noteq> Inr True \<and> db w' = db w \<or>
     x = Inr True \<and> gate_open (db w) u \<and> 0 < planCreditFor s plan \<and>
     (\<exists>w1. db w1 = db w \<and> clk w1 = clk w \<and>
        Grant u (planCreditFor s plan) ''monthly'' ''monthly_grant'' (monthlyGrantKey u (Period w)) w1 = (Inr (), w'))"
proof -
  obtain r w1 where sub: "SubscriptionOf u w = (r, w1)" by fastforce
  then have w1: "db w1 = db w" "clk w1 = clk w" by (auto dest: SubscriptionOf_any)
  then have per: "Period w1 = Period w" by (simp add: Period_def)
  consider (blocked) "x \<noteq> Inr True" "db w' = db w" | (minted) "gate_open (db w) u" "mint_monthly s u plan w1 = (x, w')"
  proof (cases r)
    case (Inl e)
    then show thesis
      using run sub w1 blocked minted SubscriptionOf_not_found [of u w w1]
      by (cases "e = ErrSubscriptionNotFound") (auto simp: EnsureMonthlyGrant_def io_defs gate_open_def)
  next
    case (Inr sb)
    then show thesis
      using run sub w1 blocked minted SubscriptionOf_Inr [of u w sb w1]
      by (cases "s_Status sb = SubscriptionActive") (auto simp: EnsureMonthlyGrant_def io_defs gate_open_def)
  qed
  then show ?thesis
  proof cases
    case minted
    then show ?thesis using mint_monthly_run [OF minted(2)] w1 per by auto
  qed simp
qed

lemma EnsureMonthlyGrant_granted:
  assumes "EnsureMonthlyGrant s u plan w = (Inr True, w')"
  shows "gate_open (db w) u \<and> 0 < planCreditFor s plan \<and> \<not> key_used (db w) (monthlyGrantKey u (Period w)) \<and>
     key_used (db w') (monthlyGrantKey u (Period w)) \<and>
     (\<forall>v. balance_of (db w') v = balance_of (db w) v + (if v = u then planCreditFor s plan else 0))"
proof -
  from EnsureMonthlyGrant_run [OF assms] obtain w1 where w1: "db w1 = db w" "gate_open (db w) u" "0 < planCreditFor s plan"
    and g: "Grant u (planCreditFor s plan) ''monthly'' ''monthly_grant'' (monthlyGrantKey u (Period w)) w1 = (Inr (), w')"
    by auto
  from Grant_Inr [OF g] w1 show ?thesis by (simp add: fresh_row_def)
qed

lemma EnsureMonthlyGrant_not_granted:
  "EnsureMonthlyGrant s u plan w = (x, w') \<Longrightarrow> x \<noteq> Inr True \<Longrightarrow> db w' = db w"
  using EnsureMonthlyGrant_run by blast

lemma EnsureMonthlyGrant_preserves:
  assumes "\<And>d t ts. I d \<Longrightarrow> fresh_row t d \<Longrightarrow> t_reference_id t = None \<Longrightarrow> I (posted t ts d)"
  shows "preserves I (EnsureMonthlyGrant s u plan)"
  unfolding preserves_def
proof (intro allI impI)
  fix w :: "'a world_scheme"
  assume I: "I (db w)"
  obtain x w' where run: "EnsureMonthlyGrant s u plan w = (x, w')" by fastforce
  show "I (db (snd (EnsureMonthlyGrant s u plan w)))"
  proof (cases "x = Inr True")
    case True
    then obtain w1 where "db w1 = db w"
      and g: "Grant u (planCreditFor s plan) ''monthly'' ''monthly_grant'' (monthlyGrantKey u (Period w)) w1 = (Inr (), w')"
      using EnsureMonthlyGrant_run [OF run] by auto
    then show ?thesis using Grant_Inr [OF g] assms I run by auto
  next
    case False
    then show ?thesis using EnsureMonthlyGrant_not_granted [OF run] I run by simp
  qed
qed

lemma SetSubscription_any:
  "SetSubscription u plan st w = (x, w') \<Longrightarrow> db w' = db w \<or> (\<exists>ss. db w' = (db w)\<lparr>subscriptions := ss\<rparr>)"
  by (auto simp: SetSubscription_def io_defs stmt_def Let_def upsert_subscription_def
      split: option.splits sum.splits if_splits)

lemma CancelSubscription_any:
  "CancelSubscription u w = (x, w') \<Longrightarrow> db w' = db w \<or> (\<exists>ss. db w' = (db w)\<lparr>subscriptions := ss\<rparr>)"
proof -
  assume run: "CancelSubscription u w = (x, w')"
  obtain r w1 where sub: "SubscriptionOf u w = (r, w1)" by fastforce
  then have "db w1 = db w" by (auto dest: SubscriptionOf_any)
  then show ?thesis
    using run sub by (cases r) (auto simp: CancelSubscription_def bind_io_def dest!: SetSubscription_any)
qed

text \<open>The stored row after \<open>SetSubscription\<close>: a new one, or the old one with its creation time.\<close>

lemma SetSubscription_ok:
  assumes "faults w = []" "valid_id u" "valid_id plan"
    and "status \<in> {SubscriptionActive, SubscriptionPaused, SubscriptionCanceled}"
  shows "\<exists>w'. SetSubscription u plan status w = (Inr (), w') \<and> faults w' = [] \<and>
     (\<forall>v. find (\<lambda>s. s_UserID s = v) (subscriptions (db w')) =
        (if v = u
         then Some \<lparr>s_UserID = u, s_Plan = plan, s_Status = status,
                s_CreatedAt = (case find (\<lambda>s. s_UserID s = u) (subscriptions (db w)) of None \<Rightarrow> now w | Some s \<Rightarrow> s_CreatedAt s),
                s_UpdatedAt = now w\<rparr>
         else find (\<lambda>s. s_UserID s = v) (subscriptions (db w))))"
proof -
  let ?ss = "subscriptions (db w)" and ?f = "\<lambda>s. s\<lparr>s_Plan := plan, s_Status := status, s_UpdatedAt := now w\<rparr>"
  let ?new = "if list_ex (\<lambda>s. s_UserID s = u) ?ss then update_where (\<lambda>s. s_UserID s = u) ?f ?ss
      else ?ss @ [\<lparr>s_UserID = u, s_Plan = plan, s_Status = status, s_CreatedAt = now w, s_UpdatedAt = now w\<rparr>]"
  have run: "SetSubscription u plan status w = (Inr (), w\<lparr>db := (db w)\<lparr>subscriptions := ?new\<rparr>\<rparr>)"
    using assms by (auto simp: SetSubscription_def io_ok upsert_subscription_def)
  have upd: "find (\<lambda>s. s_UserID s = v) (update_where (\<lambda>s. s_UserID s = u) ?f ?ss) =
      map_option (\<lambda>s. if v = u then ?f s else s) (find (\<lambda>s. s_UserID s = v) ?ss)" for v
    by (subst find_update_where) (auto dest: find_SomeD intro!: option.map_cong)
  have "find (\<lambda>s. s_UserID s = v) ?new =
      (if v = u
       then Some \<lparr>s_UserID = u, s_Plan = plan, s_Status = status,
              s_CreatedAt = (case find (\<lambda>s. s_UserID s = u) ?ss of None \<Rightarrow> now w | Some s \<Rightarrow> s_CreatedAt s),
              s_UpdatedAt = now w\<rparr>
       else find (\<lambda>s. s_UserID s = v) ?ss)" for v
  proof (cases "find (\<lambda>s. s_UserID s = u) ?ss")
    case None
    then have "\<not> list_ex (\<lambda>s. s_UserID s = u) ?ss" by (auto simp: find_None_iff list_ex_iff)
    then show ?thesis using None by (auto split: option.splits)
  next
    case (Some sb)
    then have ex: "list_ex (\<lambda>s. s_UserID s = u) ?ss" and sb: "s_UserID sb = u" by (auto simp: list_ex_iff dest: find_SomeD)
    have "?f sb = \<lparr>s_UserID = u, s_Plan = plan, s_Status = status, s_CreatedAt = s_CreatedAt sb, s_UpdatedAt = now w\<rparr>"
      using sb by (cases sb) simp
    then show ?thesis using ex Some by (simp only: if_True upd) (cases "find (\<lambda>s. s_UserID s = v) ?ss", auto)
  qed
  then show ?thesis using run assms(1) by (intro exI conjI) (assumption, simp_all)
qed

section \<open>Properties\<close>

text \<open>\<open>EnsureMonthlyGrant\<close> reports exactly what it did, whatever faults occur. It returns true only if the user has
  no subscription or an active one, the plan grants a positive amount and the period's key was unused; then the
  user's balance grew by the plan's amount, no other balance moved and the key is used. In every other case, errors
  included, no table changed.\<close>

theorem EnsureMonthlyGrant_reports:
  "case EnsureMonthlyGrant s u plan w of (x, w') \<Rightarrow>
     if x = Inr True
     then gate_open (db w) u \<and> 0 < planCreditFor s plan \<and> \<not> key_used (db w) (monthlyGrantKey u (Period w)) \<and>
          key_used (db w') (monthlyGrantKey u (Period w)) \<and>
          (\<forall>v. balance_of (db w') v = balance_of (db w) v + (if v = u then planCreditFor s plan else 0))
     else db w' = db w"
proof -
  obtain x w' where run: "EnsureMonthlyGrant s u plan w = (x, w')" by fastforce
  show ?thesis
  proof (cases "x = Inr True")
    case True
    then show ?thesis
      unfolding run using EnsureMonthlyGrant_granted [OF run [unfolded True]] by simp
  next
    case False
    then show ?thesis unfolding run using EnsureMonthlyGrant_not_granted [OF run] by simp
  qed
qed

definition monthly_calls :: "Service \<Rightarrow> string \<Rightarrow> (string \<times> world) list \<Rightarrow> database \<Rightarrow> database" where
  "monthly_calls s u calls d = fold (\<lambda>(plan, w) d. db (snd (EnsureMonthlyGrant s u plan (w\<lparr>db := d\<rparr>)))) calls d"

lemma monthly_calls_simps [simp]:
  "monthly_calls s u [] d = d"
  "monthly_calls s u ((plan, w) # calls) d = monthly_calls s u calls (db (snd (EnsureMonthlyGrant s u plan (w\<lparr>db := d\<rparr>))))"
  by (simp_all add: monthly_calls_def)

lemma Period_db [simp]: "Period (w\<lparr>db := d\<rparr>) = Period w"
  by (simp add: Period_def)

lemma EnsureMonthlyGrant_used:
  assumes "key_used (db w) (monthlyGrantKey u (Period w))"
  shows "db (snd (EnsureMonthlyGrant s u plan w)) = db w"
proof -
  obtain x w' where run: "EnsureMonthlyGrant s u plan w = (x, w')" by fastforce
  have "x \<noteq> Inr True" using EnsureMonthlyGrant_granted [of s u plan w w'] run assms by auto
  then show ?thesis using EnsureMonthlyGrant_not_granted [OF run] run by simp
qed

lemma monthly_calls_used:
  "key_used d (monthlyGrantKey u p) \<Longrightarrow> \<forall>(plan, w) \<in> set calls. Period w = p \<Longrightarrow> monthly_calls s u calls d = d"
proof (induction calls)
  case (Cons c calls)
  obtain plan w where c: "c = (plan, w)" by fastforce
  with Cons.prems have "db (snd (EnsureMonthlyGrant s u plan (w\<lparr>db := d\<rparr>))) = d"
    using EnsureMonthlyGrant_used [of "w\<lparr>db := d\<rparr>" u s plan] by simp
  with Cons c show ?case by simp
qed simp

text \<open>C17: one grant per user and month. Over any sequence of calls for a user within one period, with any plans, faults
  and interleaved restarts, either nothing was ever written or exactly one of the calls' plan amounts was credited to
  the user and to nobody else; if the period was already granted, nothing is written at all.\<close>

theorem one_grant_per_month:
  assumes "\<forall>(plan, w) \<in> set calls. Period w = p"
  shows "let d' = monthly_calls s u calls d
         in d' = d \<or>
            \<not> key_used d (monthlyGrantKey u p) \<and> key_used d' (monthlyGrantKey u p) \<and>
            (\<exists>plan \<in> fst ` set calls. \<forall>v. balance_of d' v = balance_of d v + (if v = u then planCreditFor s plan else 0))"
  using assms
proof (induction calls)
  case (Cons c calls)
  obtain plan w where c: "c = (plan, w)" by fastforce
  obtain x w' where run: "EnsureMonthlyGrant s u plan (w\<lparr>db := d\<rparr>) = (x, w')" by fastforce
  from Cons.prems c have p: "Period w = p" and rest: "\<forall>(plan, w) \<in> set calls. Period w = p" by auto
  show ?case
  proof (cases "x = Inr True")
    case True
    note g = EnsureMonthlyGrant_granted [OF run [unfolded True], simplified p Period_db]
    then have "monthly_calls s u (c # calls) d = db w'"
      using c run monthly_calls_used [OF _ rest, of "db w'" u s] by simp
    moreover have "plan \<in> fst ` set (c # calls)" using c by simp
    ultimately show ?thesis using g p unfolding Let_def by simp blast
  next
    case False
    then have "monthly_calls s u (c # calls) d = monthly_calls s u calls d"
      using EnsureMonthlyGrant_not_granted [OF run] c run by simp
    then show ?thesis using Cons.IH [OF rest] by (simp only: Let_def list.set image_insert) blast
  qed
qed simp

theorem one_grant_per_month_witness:
  "let d' = monthly_calls sample_service ''u1'' [([], sample_world empty_db), (''pro'', sample_world empty_db)] empty_db
   in d' = empty_db \<or>
      \<not> key_used empty_db (monthlyGrantKey ''u1'' (Period (sample_world empty_db))) \<and>
      key_used d' (monthlyGrantKey ''u1'' (Period (sample_world empty_db))) \<and>
      (\<exists>plan \<in> fst ` set [([], sample_world empty_db), (''pro'', sample_world empty_db)].
         \<forall>v. balance_of d' v = balance_of empty_db v + (if v = ''u1'' then planCreditFor sample_service plan else 0))"
  by (rule one_grant_per_month) simp

lemma mint_monthly_ok:
  assumes "faults w = []" "valid_id u" "valid_id (monthlyGrantKey u (Period w))" "randomIDBytes \<le> length (rnd w)"
    and "\<forall>x \<in> set (credit_transactions (db w)). t_id x \<noteq> hex_encode (take randomIDBytes (rnd w))"
  shows "fst (mint_monthly s u plan w) =
     Inr (0 < planCreditFor s plan \<and> \<not> key_used (db w) (monthlyGrantKey u (Period w)))"
proof -
  have "valid_id ''monthly''" "valid_id ''monthly_grant''" by code_simp+
  with assms show ?thesis by (simp add: mint_monthly_def Let_def Grant_def io_defs adjust_ok)
qed

text \<open>Without faults and with a new id from the random source, \<open>EnsureMonthlyGrant\<close> succeeds, and it grants if and
  only if the gate is open, the plan's amount is positive and the period was not granted yet.\<close>

theorem EnsureMonthlyGrant_decided:
  assumes "faults w = []" "valid_id u" "valid_id (monthlyGrantKey u (Period w))" "randomIDBytes \<le> length (rnd w)"
    and "\<forall>x \<in> set (credit_transactions (db w)). t_id x \<noteq> hex_encode (take randomIDBytes (rnd w))"
  shows "fst (EnsureMonthlyGrant s u plan w) =
     Inr (gate_open (db w) u \<and> 0 < planCreditFor s plan \<and> \<not> key_used (db w) (monthlyGrantKey u (Period w)))"
  using mint_monthly_ok [OF assms, of s plan] assms(1)
  by (auto simp: EnsureMonthlyGrant_def io_defs SubscriptionOf_ok gate_open_def split: option.splits)

lemma sample_period: "Period (sample_world d) = ''2026-08''"
  by (simp add: Period_def) code_simp

theorem EnsureMonthlyGrant_decided_witness:
  "fst (EnsureMonthlyGrant sample_service ''u1'' ''pro'' (sample_world empty_db)) = Inr True"
proof -
  have "valid_id (monthlyGrantKey ''u1'' ''2026-08'')" by code_simp
  then show ?thesis
    using EnsureMonthlyGrant_decided [of "sample_world empty_db" "''u1''" sample_service "''pro''"] valid_sample_ids
    by (simp add: sample_period gate_open_def planCreditFor_def sample_service_def randomIDBytes_def)
qed

text \<open>What \<open>SetSubscription\<close> writes is what \<open>Subscription\<close> reads. Without faults a valid call succeeds; afterwards
  the user's subscription has the plan, the status and the new update time and keeps its creation time if it
  existed, and every other user's subscription is as before.\<close>

theorem SetSubscription_roundtrip:
  assumes "faults w = []" "valid_id u" "valid_id plan"
    and "status \<in> {SubscriptionActive, SubscriptionPaused, SubscriptionCanceled}"
  shows "\<exists>w'. SetSubscription u plan status w = (Inr (), w') \<and>
     fst (SubscriptionOf u w') =
       Inr \<lparr>s_UserID = u, s_Plan = plan, s_Status = status,
            s_CreatedAt = (case fst (SubscriptionOf u w) of Inr s \<Rightarrow> s_CreatedAt s | Inl _ \<Rightarrow> now w),
            s_UpdatedAt = now w\<rparr> \<and>
     (\<forall>v. v \<noteq> u \<longrightarrow> fst (SubscriptionOf v w') = fst (SubscriptionOf v w))"
proof -
  from SetSubscription_ok [OF assms] obtain w' where run: "SetSubscription u plan status w = (Inr (), w')"
    and w': "faults w' = []" "\<And>v. find (\<lambda>s. s_UserID s = v) (subscriptions (db w')) =
        (if v = u
         then Some \<lparr>s_UserID = u, s_Plan = plan, s_Status = status,
                s_CreatedAt = (case find (\<lambda>s. s_UserID s = u) (subscriptions (db w)) of None \<Rightarrow> now w | Some s \<Rightarrow> s_CreatedAt s),
                s_UpdatedAt = now w\<rparr>
         else find (\<lambda>s. s_UserID s = v) (subscriptions (db w)))" by blast
  have "fst (SubscriptionOf v w') = fst (SubscriptionOf v w)" if "v \<noteq> u" for v
    using that w' assms(1) by (simp add: SubscriptionOf_ok split: option.splits)
  moreover have "fst (SubscriptionOf u w') =
       Inr \<lparr>s_UserID = u, s_Plan = plan, s_Status = status,
            s_CreatedAt = (case fst (SubscriptionOf u w) of Inr s \<Rightarrow> s_CreatedAt s | Inl _ \<Rightarrow> now w),
            s_UpdatedAt = now w\<rparr>"
    using w' assms(1) by (simp add: SubscriptionOf_ok split: option.splits)
  ultimately show ?thesis using run by blast
qed

theorem SetSubscription_roundtrip_witness:
  "\<exists>w'. SetSubscription ''u1'' ''pro'' SubscriptionPaused (sample_world empty_db) = (Inr (), w') \<and>
     fst (SubscriptionOf ''u1'' w') =
       Inr \<lparr>s_UserID = ''u1'', s_Plan = ''pro'', s_Status = SubscriptionPaused,
            s_CreatedAt = (case fst (SubscriptionOf ''u1'' (sample_world empty_db)) of
              Inr s \<Rightarrow> s_CreatedAt s | Inl _ \<Rightarrow> now (sample_world empty_db)),
            s_UpdatedAt = now (sample_world empty_db)\<rparr> \<and>
     (\<forall>v. v \<noteq> ''u1'' \<longrightarrow> fst (SubscriptionOf v w') = fst (SubscriptionOf v (sample_world empty_db)))"
proof -
  have "valid_id ''pro''" by code_simp
  then show ?thesis by (intro SetSubscription_roundtrip) (simp_all add: valid_sample_ids)
qed

text \<open>Cancelling closes the gate. Without faults, \<open>CancelSubscription\<close> of a user with a subscription succeeds; from
  then on, for every plan and in every world over these tables, whatever faults occur, \<open>EnsureMonthlyGrant\<close> never
  grants and changes no table.\<close>

theorem CancelSubscription_stops_grants:
  assumes "faults w = []" "valid_id u" "find (\<lambda>s. s_UserID s = u) (subscriptions (db w)) = Some sub" "valid_id (s_Plan sub)"
  shows "\<exists>w'. CancelSubscription u w = (Inr (), w') \<and>
     (\<forall>v. db v = db w' \<longrightarrow>
        fst (EnsureMonthlyGrant s u plan v) \<noteq> Inr True \<and> db (snd (EnsureMonthlyGrant s u plan v)) = db v)"
proof -
  from SetSubscription_ok [OF assms(1,2,4), of SubscriptionCanceled] obtain w'
    where set: "SetSubscription u (s_Plan sub) SubscriptionCanceled w = (Inr (), w')"
    and w': "find (\<lambda>s. s_UserID s = u) (subscriptions (db w')) \<noteq> None"
      "\<And>s. find (\<lambda>s. s_UserID s = u) (subscriptions (db w')) = Some s \<Longrightarrow> s_Status s = SubscriptionCanceled"
    by fastforce
  have "\<not> gate_open (db w') u" using w' by (auto simp: gate_open_def SubscriptionCanceled_def SubscriptionActive_def)
  then have "fst (EnsureMonthlyGrant s u plan v) \<noteq> Inr True \<and> db (snd (EnsureMonthlyGrant s u plan v)) = db v"
    if "db v = db w'" for v
    using that EnsureMonthlyGrant_run [of s u plan v] by (cases "EnsureMonthlyGrant s u plan v") auto
  moreover have "CancelSubscription u w = (Inr (), w')"
    using assms(1,3) set by (simp add: CancelSubscription_def bind_io_def SubscriptionOf_ok)
  ultimately show ?thesis by blast
qed

definition sample_subscribed :: database where
  "sample_subscribed = empty_db\<lparr>subscriptions :=
     [\<lparr>s_UserID = ''u1'', s_Plan = ''pro'', s_Status = SubscriptionActive, s_CreatedAt = 0, s_UpdatedAt = 0\<rparr>]\<rparr>"

theorem CancelSubscription_stops_grants_witness:
  "\<exists>w'. CancelSubscription ''u1'' (sample_world sample_subscribed) = (Inr (), w') \<and>
     (\<forall>v. db v = db w' \<longrightarrow>
        fst (EnsureMonthlyGrant sample_service ''u1'' ''pro'' v) \<noteq> Inr True \<and>
        db (snd (EnsureMonthlyGrant sample_service ''u1'' ''pro'' v)) = db v)"
proof -
  have "valid_id ''pro''" by code_simp
  then show ?thesis
    by (intro CancelSubscription_stops_grants [where sub =
          "\<lparr>s_UserID = ''u1'', s_Plan = ''pro'', s_Status = SubscriptionActive, s_CreatedAt = 0, s_UpdatedAt = 0\<rparr>"])
      (simp_all add: valid_sample_ids sample_subscribed_def)
qed

text \<open>The period is the Gregorian month of the clock, in UTC. On day \<open>k\<close> (from 0) of month \<open>m\<close> of year \<open>y\<close>, counted
  from 1 January 1970 with Gregorian years and months, the period is the name of that month.\<close>

theorem Period_is_the_month:
  assumes "1 \<le> m" "m \<le> 12" "0 \<le> k" "k < month_days (leap y) m"
    and "now w div 86400 = days_to_year y - days_to_year 1970 + days_to_month (leap y) m + k"
  shows "Period w = format_month y m"
  using period_of_correct [OF assms] by (simp add: Period_def)

theorem Period_is_the_month_witness: "Period (sample_world empty_db) = format_month 2026 8"
proof (rule Period_is_the_month [where k = 14])
  show "now (sample_world empty_db) div 86400 =
      days_to_year 2026 - days_to_year 1970 + days_to_month (leap 2026) 8 + 14"
    unfolding sample_world_simps by code_simp
  show "14 < month_days (leap 2026) 8" by code_simp
qed simp_all

text \<open>The keys of the monthly grants never collide: two keys for the years 0 to 9999 are equal only for the same user
  and the same month, whatever characters the user ids contain.\<close>

theorem monthlyGrantKey_unique:
  assumes "0 \<le> y" "y \<le> 9999" "0 \<le> y'" "y' \<le> 9999" "1 \<le> m" "m \<le> 12" "1 \<le> m'" "m' \<le> 12"
  shows "monthlyGrantKey u (format_month y m) = monthlyGrantKey u' (format_month y' m') \<longleftrightarrow> u = u' \<and> y = y' \<and> m = m'"
  using assms length_format_month [of y m] length_format_month [of y' m'] format_month_inj [of y y' m m']
  by (auto simp: monthlyGrantKey_def append_eq_append_conv)

theorem monthlyGrantKey_unique_witness:
  "monthlyGrantKey ''a'' (format_month 2026 7) \<noteq> monthlyGrantKey ''a'' (format_month 2026 8)"
  using monthlyGrantKey_unique [of 2026 2026 7 8 "''a''" "''a''"] by simp

end
