(* ===== verification/Credits_System.thy ===== *)
theory Credits_System
  imports Settlement Monthly
begin

text \<open>
  The credits service as a whole. \<open>credit_step\<close> is one action of any process on the shared database: a public operation of
  package \<open>credits\<close>, run in an arbitrary world (any faults, clocks and random bytes) over the current tables, or
  one of the single transactions that the longer operations (\<open>Reconcile\<close>, \<open>SettleViaOutbox\<close>,
  \<open>ProcessSettlementOutbox\<close>) consist of, so that other processes may act between them. \<open>reachable\<close> are the databases
  that such actions produce from the empty schema.

  Shown of every reachable database: the invariant \<open>credits_inv\<close>; the conservation law (a balance is what was granted
  and refunded minus what the reservations hold); that the ledger only grows and a closed reservation never
  changes; and that a balance is bounded by the turnover of the ledger, which justifies SQL integers without
  width in the model.
\<close>

section \<open>Preservation of the invariant, operation by operation\<close>

lemma Grant_inv: "preserves credits_inv (Grant u n src rsn k)"
  by (rule Grant_preserves) (rule credits_inv_posted)

lemma Refund_inv: "preserves credits_inv (Refund u n src rsn k)"
  by (rule Refund_preserves) (rule credits_inv_posted)

lemma EnsureMonthlyGrant_inv: "preserves credits_inv (EnsureMonthlyGrant s u plan)"
  by (rule EnsureMonthlyGrant_preserves) (rule credits_inv_posted)

lemma Reserve_inv:
  assumes "n \<le> max_int64"
  shows "preserves credits_inv (Reserve u q n)"
  unfolding preserves_def
proof (intro allI impI)
  fix w :: "'a world_scheme"
  assume inv: "credits_inv (db w)"
  obtain x w' where run: "Reserve u q n w = (x, w')" by fastforce
  show "credits_inv (db (snd (Reserve u q n w)))"
  proof (cases x)
    case (Inl e)
    then show ?thesis using run inv Reserve_Inl by fastforce
  next
    case (Inr r)
    from Reserve_Inr [OF run [unfolded Inr] credits_inv_wf [OF inv] assms] inv assms run
    show ?thesis by (auto intro: credits_inv_reserved)
  qed
qed

lemma with_arg_finalize_inv:
  assumes "credits_inv (db w)" "n \<le> max_int64" "rel \<Longrightarrow> n = 0" "with_arg (finalize n rel) a w = (x, b, w')"
  shows "credits_inv (db w')"
proof (cases x)
  case (Inl e)
  then show ?thesis using assms with_arg_Inl by fastforce
next
  case (Inr y)
  then show ?thesis using with_arg_contract [OF assms(4) [unfolded Inr] assms(1,2)] assms(3) by simp
qed

lemma Settle_inv:
  assumes "credits_inv (db w)" "n \<le> max_int64"
  shows "credits_inv (db (snd (snd (Settle r n w))))"
proof (cases r)
  case None
  then show ?thesis using assms by (simp add: Settle_def)
next
  case (Some a)
  obtain x b w' where run: "with_arg (finalize n False) a w = (x, b, w')" by (cases "with_arg (finalize n False) a w")
  from with_arg_finalize_inv [OF assms _ run] show ?thesis by (simp add: Settle_def Some run)
qed

lemma Release_inv:
  assumes "credits_inv (db w)"
  shows "credits_inv (db (snd (snd (Release r w))))"
proof (cases r)
  case None
  then show ?thesis using assms by (simp add: Release_def)
next
  case (Some a)
  obtain x b w' where run: "with_arg (finalize 0 True) a w = (x, b, w')" by (cases "with_arg (finalize 0 True) a w")
  have "(0::int) \<le> max_int64" by (simp add: max_int64_def)
  from with_arg_finalize_inv [OF assms this refl run] show ?thesis by (simp add: Release_def Some run)
qed

lemma expireOne_inv:
  assumes "credits_inv (db w)" "describes (rid, u, n) (db w)"
  shows "credits_inv (db (snd (expireOne rid u n ts w)))"
proof -
  obtain x w' where run: "expireOne rid u n ts w = (x, w')" by fastforce
  show ?thesis
  proof (cases x)
    case (Inl e)
    then show ?thesis using run assms expireOne_Inl by fastforce
  next
    case (Inr y)
    then show ?thesis using expireOne_Inr [OF run [unfolded Inr] assms] run by (simp add: swept_def)
  qed
qed

lemma Reconcile_inv: "credits_inv (db w) \<Longrightarrow> credits_inv (db (snd (Reconcile s w)))"
proof -
  assume inv: "credits_inv (db w)"
  obtain y w1 where ex: "expireStale s w = (y, w1)" by fastforce
  then have "credits_inv (db w1)" using expireStale_swept [OF inv ex] by (auto simp: swept_def)
  moreover obtain z w2 where dr: "detectDrift w1 = (z, w2)" by fastforce
  moreover have "db w2 = db w1" using detectDrift_any [OF dr] .
  ultimately show ?thesis using ex by (cases y) (simp_all add: Reconcile_def bind_io_def)
qed

lemma RecordUsage_inv: "credits_inv (db w) \<Longrightarrow> credits_inv (db (snd (RecordUsage s u w)))"
proof -
  assume inv: "credits_inv (db w)"
  obtain x w' where run: "RecordUsage s u w = (x, w')" by fastforce
  from RecordUsage_run(1) [OF run] have "db w' = db w \<or> (\<exists>ls. db w' = (db w)\<lparr>llm_usage := ls\<rparr>)"
    unfolding appended_def by blast
  then show ?thesis using run inv by auto
qed

lemma RecordUsageRetry_inv: "credits_inv (db w) \<Longrightarrow> credits_inv (db (snd (RecordUsageRetry s ctx u w)))"
  using RecordUsageRetry_same_money [of s ctx u w] same_money_inv by (cases "RecordUsageRetry s ctx u w") auto

lemma SetSubscription_inv: "credits_inv (db w) \<Longrightarrow> credits_inv (db (snd (SetSubscription u plan st w)))"
  using SetSubscription_any [of u plan st w] by (cases "SetSubscription u plan st w") auto

lemma CancelSubscription_inv: "credits_inv (db w) \<Longrightarrow> credits_inv (db (snd (CancelSubscription u w)))"
  using CancelSubscription_any [of u w] by (cases "CancelSubscription u w") auto

lemma EnqueueSettlement_inv: "preserves credits_inv (EnqueueSettlement q u rid prov model)"
  unfolding EnqueueSettlement_def
  by (intro pres_intros preserves_stmt) (auto simp: insert_outbox_def split: if_splits)

lemma update_outbox_inv: "preserves credits_inv (stmt (update_outbox f q))"
  by (rule preserves_stmt) (auto simp: update_outbox_def)

lemma SettleViaOutbox_inv: "credits_inv (db w) \<Longrightarrow> credits_inv (db (snd (SettleViaOutbox s ctx q usage w)))"
  using SettleViaOutbox_effect [of w s ctx q usage] by (cases "SettleViaOutbox s ctx q usage w") auto

lemma ProcessSettlementOutbox_inv: "credits_inv (db w) \<Longrightarrow> credits_inv (db (snd (ProcessSettlementOutbox limit w)))"
  using ProcessSettlementOutbox_pass [of w limit]
  by (cases "ProcessSettlementOutbox limit w") (auto simp: pass_ok_def swept_def)

section \<open>The transition system\<close>

text \<open>
  The clients of the service choose the idempotency keys and the reasons of the grants and refunds they ask for; \<open>own\<close> says
  which. A \<open>credit_step\<close> is a step with any key and reason.
\<close>

inductive client_step :: "(string option \<Rightarrow> (string \<times> string) list option \<Rightarrow> bool) \<Rightarrow> database \<Rightarrow> database \<Rightarrow> bool" for own where
  grant: "own (Some k) (Some [(''reason'', rsn)]) \<Longrightarrow> client_step own (db w) (db (snd (Grant u n src rsn k (w :: world))))"
| refund: "own (Some k) (Some [(''reason'', rsn)]) \<Longrightarrow> client_step own (db w) (db (snd (Refund u n src rsn k (w :: world))))"
| monthly: "client_step own (db w) (db (snd (EnsureMonthlyGrant s u plan (w :: world))))"
| reserve: "n \<le> max_int64 \<Longrightarrow> client_step own (db w) (db (snd (Reserve u q n (w :: world))))"
| settle: "n \<le> max_int64 \<Longrightarrow> client_step own (db w) (db (snd (snd (Settle r n w))))"
| release: "client_step own (db w) (db (snd (snd (Release r w))))"
| expire_one: "describes (rid, u, n) (db w) \<Longrightarrow> client_step own (db w) (db (snd (expireOne rid u n ts (w :: world))))"
| reconcile: "client_step own (db w) (db (snd (Reconcile s (w :: world))))"
| record_usage: "client_step own (db w) (db (snd (RecordUsage s usage (w :: world))))"
| record_usage_retry: "client_step own (db w) (db (snd (RecordUsageRetry s ctx usage (w :: world))))"
| set_subscription: "client_step own (db w) (db (snd (SetSubscription u plan st (w :: world))))"
| cancel_subscription: "client_step own (db w) (db (snd (CancelSubscription u (w :: world))))"
| enqueue: "client_step own (db w) (db (snd (EnqueueSettlement q u rid prov model (w :: world))))"
| mark_outbox: "(\<And>ob. o_request_id (f ob) = o_request_id ob) \<Longrightarrow>
    client_step own (db w) (db (snd (stmt (update_outbox f q) (w :: world))))"
| settle_outbox: "client_step own (db w) (db (snd (SettleViaOutbox s ctx q usage w)))"
| process_outbox: "client_step own (db w) (db (snd (ProcessSettlementOutbox limit w)))"

abbreviation credit_step :: "database \<Rightarrow> database \<Rightarrow> bool" where
  "credit_step \<equiv> client_step (\<lambda>_ _. True)"

inductive reachable :: "database \<Rightarrow> bool" where
  init: "reachable empty_db"
| step: "reachable d \<Longrightarrow> credit_step d d' \<Longrightarrow> reachable d'"

lemmas op_inv =
  preservesD [OF Grant_inv] preservesD [OF Refund_inv] preservesD [OF EnsureMonthlyGrant_inv] preservesD [OF Reserve_inv]
  Settle_inv Release_inv expireOne_inv Reconcile_inv RecordUsage_inv RecordUsageRetry_inv
  SetSubscription_inv CancelSubscription_inv preservesD [OF EnqueueSettlement_inv] preservesD [OF update_outbox_inv]
  SettleViaOutbox_inv ProcessSettlementOutbox_inv

lemma client_step_inv: "client_step own d d' \<Longrightarrow> credits_inv d \<Longrightarrow> credits_inv d'"
  by (induction rule: client_step.induct) (simp_all add: op_inv)

lemma reachable_inv: "reachable d \<Longrightarrow> credits_inv d"
  by (induction rule: reachable.induct) (auto simp: credits_inv_empty intro: client_step_inv)

section \<open>Laws of the tables\<close>

text \<open>
  A law is a property of the tables that every single SQL statement of the service keeps. It then holds at every point
  of every operation and so across every step; unlike \<open>credits_inv\<close> it may not be broken within a transaction.
\<close>

locale table_law_on =
  fixes I :: "database \<Rightarrow> bool" and own :: "string option \<Rightarrow> (string \<times> string) list option \<Rightarrow> bool"
  assumes own_plain: "own None None"
    and own_reserve: "own (Some (''resv:'' @ q)) None"
    and own_monthly: "own (Some (monthlyGrantKey u p)) (Some [(''reason'', ''monthly_grant'')])"
    and ledger_law: "I d \<Longrightarrow> own (t_idempotency_key t) (t_metadata t) \<Longrightarrow> insert_ledger t d = Inr (n, d') \<Longrightarrow> I d'"
    and account_law: "I d \<Longrightarrow> upsert_account u a ts d = Inr (n, d') \<Longrightarrow> I d'"
    and bump_law: "I d \<Longrightarrow> bump_account u a ts d = Inr (n, d') \<Longrightarrow> I d'"
    and debit_law: "I d \<Longrightarrow> debit_account u a ts d = Inr (n, d') \<Longrightarrow> I d'"
    and reservation_law: "I d \<Longrightarrow> insert_reservation r d = Inr (n, d') \<Longrightarrow> I d'"
    and close_law: "I d \<Longrightarrow> close_reservation c rel st ts rid d = Inr (n, d') \<Longrightarrow> I d'"
    and expire_law: "I d \<Longrightarrow> expire_reservation rid ts d = Inr (n, d') \<Longrightarrow> I d'"
    and usage_law: "I d \<Longrightarrow> insert_usage l d = Inr (n, d') \<Longrightarrow> I d'"
    and subscription_law: "I d \<Longrightarrow> upsert_subscription u plan st ts d = Inr (n, d') \<Longrightarrow> I d'"
    and enqueue_law: "I d \<Longrightarrow> insert_outbox ob d = Inr (n, d') \<Longrightarrow> I d'"
    and outbox_law: "I d \<Longrightarrow> (\<And>ob. o_request_id (f ob) = o_request_id ob) \<Longrightarrow> update_outbox f q d = Inr (n, d') \<Longrightarrow> I d'"
begin

lemma stmts:
  "preserves I (stmt (upsert_account u a ts))" "preserves I (stmt (bump_account u a ts))"
  "preserves I (stmt (debit_account u a ts))" "preserves I (stmt (insert_reservation r))"
  "preserves I (stmt (close_reservation c rel st ts rid))" "preserves I (stmt (expire_reservation rid ts))"
  "preserves I (stmt (insert_usage l))" "preserves I (stmt (upsert_subscription u plan st ts))"
  "preserves I (stmt (insert_outbox ob))"
  by (rule preserves_stmt; erule (1) account_law bump_law debit_law reservation_law close_law expire_law usage_law
      subscription_law enqueue_law)+

lemma ledger_stmt: "own (t_idempotency_key t) (t_metadata t) \<Longrightarrow> preserves I (stmt (insert_ledger t))"
  by (rule preserves_stmt) (rule ledger_law)

lemma outbox_stmt: "(\<And>ob. o_request_id (f ob) = o_request_id ob) \<Longrightarrow> preserves I (stmt (update_outbox f q))"
  by (rule preserves_stmt) (rule outbox_law)

lemma adjust_law: "own (Some k) (Some [(''reason'', rsn)]) \<Longrightarrow> preserves I (adjust u n src rsn k typ)"
  unfolding adjust_def adjust_body_def by (intro pres_intros stmts ledger_stmt) simp

lemma Grant_law: "own (Some k) (Some [(''reason'', rsn)]) \<Longrightarrow> preserves I (Grant u n src rsn k)"
  unfolding Grant_def by (intro pres_intros adjust_law)

lemma Refund_law: "own (Some k) (Some [(''reason'', rsn)]) \<Longrightarrow> preserves I (Refund u n src rsn k)"
  unfolding Refund_def by (intro pres_intros adjust_law)

lemma Reserve_law: "preserves I (Reserve u q n)"
  unfolding Reserve_def reserve_tx_def lookupReservation_def debitReservation_def by (intro pres_intros stmts ledger_stmt) (use own_reserve [of q] in simp)

lemma modify_arg_law: "preserves I (modify_io (\<lambda>w. w\<lparr>arg := f w\<rparr>))"
  by (simp add: preserves_def modify_io_def)

lemma finalize_law: "preserves I (finalize n rel)"
  unfolding finalize_def finalize_tx_def loadOutcome_def writeReturn_def
  by (intro pres_intros stmts ledger_stmt modify_arg_law) (simp add: own_plain)

lemma expireOne_law: "preserves I (expireOne rid u n ts)"
  unfolding expireOne_def by (intro pres_intros stmts ledger_stmt) (simp add: own_plain)

lemma expire_loop_law: "preserves I (expire_loop sts ts)"
  by (induction sts) (auto intro!: pres_intros expireOne_law)

lemma Reconcile_law: "preserves I (Reconcile s)"
  unfolding Reconcile_def expireStale_def detectDrift_def by (intro pres_intros expire_loop_law)

lemma RecordUsage_law: "preserves I (RecordUsage s u)"
  unfolding RecordUsage_def by (intro pres_intros stmts)

lemma RecordUsageRetry_law: "preserves I (RecordUsageRetry s ctx u)"
proof -
  have "preserves I (usage_attempts s ctx u n)" for n
    by (induction n) (auto intro!: pres_intros RecordUsage_law)
  then show ?thesis by (simp add: RecordUsageRetry_def)
qed

lemma SubscriptionOf_law: "preserves I (SubscriptionOf u)"
  unfolding preserves_def by (metis SubscriptionOf_any prod.collapse)

lemma SetSubscription_law: "preserves I (SetSubscription u plan st)"
  unfolding SetSubscription_def by (intro pres_intros stmts)

lemma CancelSubscription_law: "preserves I (CancelSubscription u)"
  unfolding CancelSubscription_def by (intro pres_intros SubscriptionOf_law SetSubscription_law)

lemma EnsureMonthlyGrant_law: "preserves I (EnsureMonthlyGrant s u plan)"
  unfolding EnsureMonthlyGrant_def mint_monthly_def Let_def by (intro pres_intros SubscriptionOf_law Grant_law own_monthly)

lemma EnqueueSettlement_law: "preserves I (EnqueueSettlement q u rid prov model)"
  unfolding EnqueueSettlement_def by (intro pres_intros stmts)

lemma with_arg_law: "I (db w) \<Longrightarrow> I (db (snd (snd (with_arg (finalize n rel) a w))))"
  using preservesD [OF finalize_law, of "world.extend w \<lparr>arg = a\<rparr>" n rel]
  by (cases "finalize n rel (world.extend w \<lparr>arg = a\<rparr>)") (simp add: with_arg_def)

lemma Settle_law: "I (db w) \<Longrightarrow> I (db (snd (snd (Settle r n w))))"
  by (cases r) (simp_all add: Settle_def split_beta with_arg_law)

lemma Release_law: "I (db w) \<Longrightarrow> I (db (snd (snd (Release r w))))"
  by (cases r) (simp_all add: Release_def split_beta with_arg_law)

lemma rows_law: "preserves I (settle_row a n)" "preserves I (release_row a)"
  unfolding preserves_def
  by (intro allI impI; frule Settle_law [of _ "Some a" n] Release_law [of _ "Some a"];
      simp add: settle_row_def release_row_def split_beta)+

lemma outbox_op_law: "preserves I (SettleViaOutbox s ctx q usage)" "preserves I (ProcessSettlementOutbox limit)"
proof -
  show "preserves I (SettleViaOutbox s ctx q usage)"
    unfolding SettleViaOutbox_def reservationByID_def by (intro pres_intros rows_law RecordUsageRetry_law outbox_stmt) simp_all
  have "preserves I (process_outbox_row q)" for q
    unfolding process_outbox_row_def reservationByID_def by (intro pres_intros rows_law outbox_stmt) simp_all
  then have "preserves I (process_outbox_rows qs)" for qs
    by (induction qs) (auto intro!: pres_intros)
  then show "preserves I (ProcessSettlementOutbox limit)"
    unfolding ProcessSettlementOutbox_def by (intro pres_intros)
qed

lemmas op_laws =
  preservesD [OF Grant_law] preservesD [OF Refund_law] preservesD [OF EnsureMonthlyGrant_law] preservesD [OF Reserve_law]
  Settle_law Release_law preservesD [OF expireOne_law] preservesD [OF Reconcile_law] preservesD [OF RecordUsage_law]
  preservesD [OF RecordUsageRetry_law] preservesD [OF SetSubscription_law] preservesD [OF CancelSubscription_law]
  preservesD [OF EnqueueSettlement_law] preservesD [OF outbox_stmt] preservesD [OF outbox_op_law(1)] preservesD [OF outbox_op_law(2)]

lemma step_law: "client_step own d d' \<Longrightarrow> I d \<Longrightarrow> I d'"
  by (induction rule: client_step.induct) (simp_all add: op_laws)

lemma steps_law: "(client_step own)\<^sup>*\<^sup>* d d' \<Longrightarrow> I d \<Longrightarrow> I d'"
  by (induction rule: rtranclp_induct) (auto intro: step_law)

end

text \<open>A law whatever keys and reasons the clients choose.\<close>

locale table_law = table_law_on I "\<lambda>_ _. True" for I

text \<open>The history of a database: its ledger as a prefix, its reservations by their identity, the closed ones unchanged.\<close>

definition same_reservation :: "Reservation \<Rightarrow> Reservation \<Rightarrow> bool" where
  "same_reservation r r' \<longleftrightarrow>
     r_ID r' = r_ID r \<and> r_UserID r' = r_UserID r \<and> r_RequestID r' = r_RequestID r \<and> r_Amount r' = r_Amount r \<and>
     r_CreatedAt r' = r_CreatedAt r \<and> (r_Status r \<noteq> reservationStatusReserved \<longrightarrow> r' = r)"

definition history :: "ledger_row list \<Rightarrow> Reservation set \<Rightarrow> database \<Rightarrow> bool" where
  "history T R d \<longleftrightarrow>
     prefix T (credit_transactions d) \<and> (\<forall>r \<in> R. \<exists>r' \<in> set (credit_reservations d). same_reservation r r')"

definition schema_wf :: "database \<Rightarrow> bool" where
  "schema_wf d \<longleftrightarrow>
     ledger_wf d \<and> distinct (map r_ID (credit_reservations d)) \<and> distinct (map r_RequestID (credit_reservations d)) \<and>
     usage_wf d \<and> distinct (map s_UserID (subscriptions d)) \<and> distinct (map o_request_id (settlement_outbox d))"

lemma same_reservation_refl [simp]: "same_reservation r r"
  by (simp add: same_reservation_def)

lemma same_reservation_trans: "same_reservation r r1 \<Longrightarrow> same_reservation r1 r2 \<Longrightarrow> same_reservation r r2"
  by (auto simp: same_reservation_def)

lemma same_reservation_close:
  "r_Status r = reservationStatusReserved \<Longrightarrow> same_reservation r (close_row c rel st ts r)"
  "r_Status r = reservationStatusReserved \<Longrightarrow> same_reservation r (expire_row ts r)"
  by (simp_all add: same_reservation_def close_row_def)

lemma history_self: "history (credit_transactions d) (set (credit_reservations d)) d"
  by (auto simp: history_def same_reservation_def)

lemma history_reservations:
  "history T R d \<Longrightarrow> prefix (credit_transactions d) (credit_transactions d') \<Longrightarrow>
   (\<And>r. r \<in> set (credit_reservations d) \<Longrightarrow> \<exists>r' \<in> set (credit_reservations d'). same_reservation r r') \<Longrightarrow> history T R d'"
  unfolding history_def by (meson prefix_order.trans same_reservation_trans)

lemma history_update:
  assumes "history T R d" "credit_transactions d' = credit_transactions d"
    "credit_reservations d' = update_where p f (credit_reservations d)" "\<And>r. p r \<Longrightarrow> same_reservation r (f r)"
  shows "history T R d'"
proof (rule history_reservations [OF assms(1)])
  show "\<exists>r' \<in> set (credit_reservations d'). same_reservation r r'" if "r \<in> set (credit_reservations d)" for r
    using that assms(3,4) by (intro bexI [of _ "if p r then f r else r"]) (auto simp: set_update_where)
qed (simp add: assms(2))

interpretation hist: table_law "history T R" for T R
proof
  fix d d' n
  assume h: "history T R d"
  have grow: "history T R d'" if "prefix (credit_transactions d) (credit_transactions d')"
      "set (credit_reservations d) \<subseteq> set (credit_reservations d')" for d'
    by (rule history_reservations [OF h that(1)]) (use that(2) in \<open>auto intro!: bexI\<close>)
  show "history T R d'" if "insert_ledger t d = Inr (n, d')" for t
    using that by (intro grow) (auto simp: insert_ledger_Inr)
  show "history T R d'" if "upsert_account u a ts d = Inr (n, d')" for u a ts
    using upsert_account_Inr [OF that] by (intro grow) simp_all
  show "history T R d'" if "bump_account u a ts d = Inr (n, d')" for u a ts
    using that by (intro grow) (auto simp: bump_account_def)
  show "history T R d'" if "debit_account u a ts d = Inr (n, d')" for u a ts
    using that by (intro grow) (auto simp: debit_account_def Let_def)
  show "history T R d'" if "insert_reservation r d = Inr (n, d')" for r
    using that by (intro grow) (auto simp: insert_reservation_Inr)
  show "history T R d'" if "close_reservation c rel st ts rid d = Inr (n, d')" for c rel st ts rid
    using that by (intro history_update [OF h, of d' "\<lambda>r. r_ID r = rid \<and> r_Status r = reservationStatusReserved" "close_row c rel st ts"])
      (auto simp: close_reservation_def Let_def same_reservation_close)
  show "history T R d'" if "expire_reservation rid ts d = Inr (n, d')" for rid ts
    using that by (intro history_update [OF h, of d' "\<lambda>r. r_ID r = rid \<and> r_Status r = reservationStatusReserved" "expire_row ts"])
      (auto simp: expire_reservation_def Let_def same_reservation_close)
  show "history T R d'" if "insert_usage l d = Inr (n, d')" for l
    using that by (intro grow) (auto simp: insert_usage_Inr)
  show "history T R d'" if "upsert_subscription u plan st ts d = Inr (n, d')" for u plan st ts
    using that by (intro grow) (auto simp: upsert_subscription_def)
  show "history T R d'" if "insert_outbox ob d = Inr (n, d')" for ob
    using that by (intro grow) (auto simp: insert_outbox_def split: if_splits)
  show "history T R d'" if "update_outbox f q d = Inr (n, d')" for f q
    using that by (intro grow) (auto simp: update_outbox_def)
qed simp_all

lemma ledger_wf_tables:
  "map a_user_id (credit_accounts d') = map a_user_id (credit_accounts d) \<Longrightarrow> credit_transactions d' = credit_transactions d \<Longrightarrow>
     ledger_wf d' = ledger_wf d"
  by (simp add: ledger_wf_def)

lemma ledger_wf_insert: "ledger_wf d \<Longrightarrow> fresh_row t d \<Longrightarrow> ledger_wf (d\<lparr>credit_transactions := credit_transactions d @ [t]\<rparr>)"
  by (auto simp: ledger_wf_def fresh_row_def key_used_iff List.map_filter_def split: option.splits)

interpretation wf: table_law schema_wf
proof
  fix d d' n
  assume h: "schema_wf d"
  show "schema_wf d'" if "insert_ledger t d = Inr (n, d')" for t
    using h that by (auto simp: insert_ledger_Inr schema_wf_def usage_wf_def ledger_wf_insert)
  show "schema_wf d'" if "upsert_account u a ts d = Inr (n, d')" for u a ts
    using h upsert_account_Inr [OF that] by (auto simp: schema_wf_def usage_wf_def ledger_wf_def distinct_add_balance)
  show "schema_wf d'" if "bump_account u a ts d = Inr (n, d')" for u a ts
    using h that by (auto simp: bump_account_def schema_wf_def usage_wf_def ledger_wf_def map_update_where)
  show "schema_wf d'" if "debit_account u a ts d = Inr (n, d')" for u a ts
    using h that by (auto simp: debit_account_def Let_def schema_wf_def usage_wf_def ledger_wf_def map_update_where)
  show "schema_wf d'" if "insert_reservation r d = Inr (n, d')" for r
    using h that by (auto simp: insert_reservation_Inr schema_wf_def usage_wf_def ledger_wf_def)
  show "schema_wf d'" if "close_reservation c rel st ts rid d = Inr (n, d')" for c rel st ts rid
    using h that by (auto simp: close_reservation_def Let_def schema_wf_def usage_wf_def ledger_wf_def map_update_where)
  show "schema_wf d'" if "expire_reservation rid ts d = Inr (n, d')" for rid ts
    using h that by (auto simp: expire_reservation_def Let_def schema_wf_def usage_wf_def ledger_wf_def map_update_where)
  show "schema_wf d'" if "insert_usage l d = Inr (n, d')" for l
    using h that by (auto simp: insert_usage_Inr schema_wf_def usage_wf_def ledger_wf_def)
  show "schema_wf d'" if "upsert_subscription u plan st ts d = Inr (n, d')" for u plan st ts
    using h that by (auto simp: upsert_subscription_def schema_wf_def usage_wf_def ledger_wf_def map_update_where list_ex_iff)
  show "schema_wf d'" if "insert_outbox ob d = Inr (n, d')" for ob
    using h that by (force simp: insert_outbox_def schema_wf_def usage_wf_def ledger_wf_def list_ex_iff split: if_splits)
  show "schema_wf d'" if "\<And>ob. o_request_id (f ob) = o_request_id ob" "update_outbox f q d = Inr (n, d')" for f q
    using h that by (auto simp: update_outbox_def schema_wf_def usage_wf_def ledger_wf_def map_update_where)
qed simp_all

lemma reachable_wf: "reachable d \<Longrightarrow> schema_wf d"
  by (induction rule: reachable.induct)
    (auto simp: schema_wf_def usage_wf_def ledger_wf_def List.map_filter_def dest: wf.step_law [unfolded schema_wf_def usage_wf_def ledger_wf_def])

section \<open>Refinement of an abstract account book\<close>

text \<open>
  What the service promises, without tables: each user has an amount available, each open hold has an owner and an
  amount. Funding moves the available amount, a hold is taken only from what is available, and a hold is
  paid off at some price, the rest going back to its owner.
\<close>

record book =
  avail :: "string \<Rightarrow> int"
  holds :: "string \<rightharpoonup> string \<times> int"

inductive book_step :: "book \<Rightarrow> book \<Rightarrow> bool" where
  idle: "book_step b b"
| fund: "book_step b (b\<lparr>avail := (avail b)(u := avail b u + n)\<rparr>)"
| hold: "holds b h = None \<Longrightarrow> 1 \<le> n \<Longrightarrow> n \<le> avail b u \<Longrightarrow>
    book_step b (b\<lparr>avail := (avail b)(u := avail b u - n), holds := (holds b)(h \<mapsto> (u, n))\<rparr>)"
| pay: "holds b h = Some (u, n) \<Longrightarrow> 0 \<le> price \<Longrightarrow>
    book_step b (b\<lparr>avail := (avail b)(u := avail b u + (n - price)), holds := (holds b)(h := None)\<rparr>)"

definition book_of :: "database \<Rightarrow> book" where
  "book_of d = \<lparr>avail = balance_of d,
     holds = (\<lambda>h. case find (\<lambda>r. r_ID r = h \<and> r_Status r = reservationStatusReserved) (credit_reservations d) of
                    None \<Rightarrow> None | Some r \<Rightarrow> Some (r_UserID r, r_Amount r))\<rparr>"

lemma book_eqI: "(\<And>u. balance_of d' u = f u) \<Longrightarrow> holds (book_of d') = g \<Longrightarrow> book_of d' = (book_of d)\<lparr>avail := f, holds := g\<rparr>"
  by (auto simp: book_of_def)

lemma avail_book [simp]: "avail (book_of d) = balance_of d"
  by (simp add: book_of_def)

lemma holds_posted: "credit_reservations d' = credit_reservations d \<Longrightarrow> holds (book_of d') = holds (book_of d)"
  by (simp add: book_of_def)

lemma book_posted: "t_reference_id t = None \<Longrightarrow> book_step (book_of d) (book_of (posted t ts d))"
proof -
  have "book_of (posted t ts d) = (book_of d)\<lparr>avail := (balance_of d)(t_user_id t := balance_of d (t_user_id t) + t_amount t)\<rparr>"
    by (auto simp: book_of_def)
  then show ?thesis using book_step.fund [of "book_of d" "t_user_id t" "t_amount t"] by simp
qed

lemma find_open:
  assumes "distinct (map r_ID rs)" "r \<in> set rs" "r_Status r = reservationStatusReserved"
  shows "find (\<lambda>x. r_ID x = r_ID r \<and> r_Status x = reservationStatusReserved) rs = Some r"
  using assms by (induction rs) (auto simp: image_iff)

lemma book_reserved:
  assumes "reserved_from d r d'" "1 \<le> r_Amount r"
  shows "book_step (book_of d) (book_of d')"
proof -
  let ?b = "book_of d"
  from assms(1) have new: "\<forall>x \<in> set (credit_reservations d). r_ID x \<noteq> r_ID r"
    and bal: "r_Amount r \<le> balance_of d (r_UserID r)"
    and st: "r = new_reservation (r_ID r) (r_UserID r) (r_RequestID r) (r_Amount r) (r_CreatedAt r)"
    and d': "credit_reservations d' = credit_reservations d @ [r]"
      "\<And>u. balance_of d' u = balance_of d u - (if u = r_UserID r then r_Amount r else 0)"
    by (simp_all add: reserved_from_def Let_def)
  have open_r: "r_Status r = reservationStatusReserved" by (subst st) simp
  have none: "find (\<lambda>x. r_ID x = r_ID r \<and> r_Status x = reservationStatusReserved) (credit_reservations d) = None"
    using new by (auto simp: find_None_iff)
  have app: "find P (xs @ [r]) = (case find P xs of None \<Rightarrow> if P r then Some r else None | Some x \<Rightarrow> Some x)" for P xs
    by (induction xs) auto
  have "holds (book_of d') = (holds ?b)(r_ID r \<mapsto> (r_UserID r, r_Amount r))"
    using open_r none by (auto simp: book_of_def d'(1) app fun_eq_iff split: option.splits)
  then have "book_of d' = ?b\<lparr>avail := (avail ?b)(r_UserID r := avail ?b (r_UserID r) - r_Amount r),
      holds := (holds ?b)(r_ID r \<mapsto> (r_UserID r, r_Amount r))\<rparr>"
    by (intro book_eqI) (auto simp: d'(2))
  moreover have "holds ?b (r_ID r) = None" using none by (simp add: book_of_def)
  ultimately show ?thesis using book_step.hold [of ?b "r_ID r" "r_Amount r" "r_UserID r"] bal assms(2) by simp
qed

lemma find_open_closed:
  assumes "\<And>x. r_ID (f x) = r_ID x" "\<And>x. r_Status (f x) \<noteq> reservationStatusReserved"
  shows "find (\<lambda>x. r_ID x = h \<and> r_Status x = reservationStatusReserved)
      (update_where (\<lambda>x. r_ID x = k \<and> r_Status x = reservationStatusReserved) f rs) =
    (if h = k then None else find (\<lambda>x. r_ID x = h \<and> r_Status x = reservationStatusReserved) rs)"
  by (induction rs) (use assms in auto)

lemma book_closed:
  assumes "credits_inv d" "r \<in> set (credit_reservations d)" "r_Status r = reservationStatusReserved"
    and "credit_reservations d' = update_where (\<lambda>x. r_ID x = r_ID r \<and> r_Status x = reservationStatusReserved) f (credit_reservations d)"
    and "\<And>x. r_ID (f x) = r_ID x" "\<And>x. r_Status (f x) \<noteq> reservationStatusReserved"
    and "\<And>u. balance_of d' u = balance_of d u + (if u = r_UserID r then r_Amount r - price else 0)" "0 \<le> price"
  shows "book_step (book_of d) (book_of d')"
proof -
  let ?b = "book_of d"
  have dist: "distinct (map r_ID (credit_reservations d))" using assms(1) by (simp add: credits_inv_def resv_inv_def)
  have "holds ?b (r_ID r) = Some (r_UserID r, r_Amount r)"
    using find_open [OF dist assms(2,3)] by (simp add: book_of_def)
  moreover have "holds (book_of d') = (holds ?b)(r_ID r := None)"
    using find_open_closed [of f, OF assms(5,6)] by (auto simp: book_of_def assms(4) fun_eq_iff)
  then have "book_of d' = ?b\<lparr>avail := (avail ?b)(r_UserID r := avail ?b (r_UserID r) + (r_Amount r - price)),
      holds := (holds ?b)(r_ID r := None)\<rparr>"
    by (intro book_eqI) (auto simp: assms(7))
  ultimately show ?thesis using book_step.pay [of ?b "r_ID r" "r_UserID r" "r_Amount r" price] assms(8) by simp
qed

lemma book_finalized:
  assumes inv: "credits_inv (db w)" and run: "with_arg (finalize n rel) a w = (x, b, w')"
    and n: "n \<le> max_int64" "rel \<Longrightarrow> n = 0"
  shows "book_step (book_of (db w)) (book_of (db w'))"
proof (cases x)
  case (Inl e)
  then show ?thesis using with_arg_Inl [of n rel a w e b w'] run by (simp add: book_step.idle)
next
  case (Inr y)
  with run obtain r out where rel: "rel \<or> 0 \<le> n" and fin: "finalized_from n rel (db w) r out (now w) (db w')"
    using inv by (auto elim: with_arg_Inr)
  then have n0: "0 \<le> n" using n(2) by auto
  note eff = finalized_effect [OF inv fin n0 n]
  have st: "out_status out \<noteq> reservationStatusReserved" using eff(4) by simp
  have "credit_reservations (db w') = update_where (\<lambda>x. r_ID x = r_ID r \<and> r_Status x = reservationStatusReserved)
      (close_row n (returnAmt out) (out_status out) (now w)) (credit_reservations (db w))"
    using fin by (auto simp: finalized_from_def Let_def close_in_def split: if_splits)
  then show ?thesis
    using book_closed [OF inv _ _ _ _ _ eff(2) n0, of "close_row n (returnAmt out) (out_status out) (now w)"] fin st
    by (simp add: finalized_from_def)
qed

lemma sum_where_one:
  assumes "distinct (map key rs)" "r \<in> set rs"
  shows "sum_where (\<lambda>x. P x \<and> key x = key r) f rs = (if P r then f r else 0)"
  using assms
proof (induction rs)
  case (Cons x rs)
  show ?case
  proof (cases "x = r")
    case True
    with Cons.prems have "sum_where (\<lambda>x. P x \<and> key x = key r) f rs = 0" by (intro sum_where_none) (auto simp: image_iff)
    with True show ?thesis by simp
  next
    case False
    with Cons.prems have "key x \<noteq> key r" "r \<in> set rs" by (auto simp: image_iff)
    with Cons show ?thesis by simp
  qed
qed simp

lemma book_swept_one:
  assumes "credits_inv d" "swept f {rid} d d'" "voids f"
  shows "book_step (book_of d) (book_of d')"
proof (cases "\<exists>r \<in> set (credit_reservations d). r_ID r = rid \<and> r_Status r = reservationStatusReserved")
  case True
  then obtain r where r: "r \<in> set (credit_reservations d)" "r_ID r = rid" "r_Status r = reservationStatusReserved" by blast
  have dist: "distinct (map r_ID (credit_reservations d))" using assms(1) by (simp add: credits_inv_def resv_inv_def)
  have only: "x = r" if "x \<in> set (credit_reservations d)" "r_ID x = rid" for x
    using key_inj [OF dist that(1) r(1)] that(2) r(2) by simp
  have "balance_of d' u = balance_of d u + (if u = r_UserID r then r_Amount r - 0 else 0)" for u
  proof -
    have "sum_where (\<lambda>x. r_UserID x = u \<and> r_ID x \<in> {rid} \<and> r_Status x = reservationStatusReserved) r_Amount
        (credit_reservations d) = sum_where (\<lambda>x. r_UserID x = u \<and> r_ID x = r_ID r) r_Amount (credit_reservations d)"
      by (rule sum_where_cong) (metis only r(2,3) singleton_iff)
    also have "\<dots> = (if u = r_UserID r then r_Amount r else 0)"
      using sum_where_one [OF dist r(1), of "\<lambda>x. r_UserID x = u" r_Amount] by auto
    finally have "sum_where (\<lambda>x. r_UserID x = u \<and> r_ID x \<in> {rid} \<and> r_Status x = reservationStatusReserved) r_Amount
        (credit_reservations d) = (if u = r_UserID r then r_Amount r else 0)" .
    then show ?thesis using swept_balance [OF assms(3,1,2), of u] by simp
  qed
  then show ?thesis
    using book_closed [OF assms(1) r(1,3), of d' f 0] assms(2,3) r(2) by (simp add: swept_def voids_def)
next
  case False
  then have "credit_reservations d' = credit_reservations d"
    using assms(2) by (auto simp: swept_def intro!: update_where_id)
  moreover have "balance_of d' u = balance_of d u" for u
    using swept_balance [OF assms(3,1,2), of u] False by (simp add: sum_where_none)
  ultimately have "book_of d' = book_of d" by (simp add: book_of_def fun_eq_iff)
  then show ?thesis by (simp add: book_step.idle)
qed

text \<open>The operations that move money, each a single transaction.\<close>

inductive money_step :: "database \<Rightarrow> database \<Rightarrow> bool" where
  grant: "money_step (db w) (db (snd (Grant u n src rsn k (w :: world))))"
| refund: "money_step (db w) (db (snd (Refund u n src rsn k (w :: world))))"
| monthly: "money_step (db w) (db (snd (EnsureMonthlyGrant s u plan (w :: world))))"
| reserve: "n \<le> max_int64 \<Longrightarrow> money_step (db w) (db (snd (Reserve u q n (w :: world))))"
| settle: "n \<le> max_int64 \<Longrightarrow> money_step (db w) (db (snd (snd (Settle (Some r) n w))))"
| release: "money_step (db w) (db (snd (snd (Release (Some r) w))))"
| expire: "describes (rid, u, n) (db w) \<Longrightarrow> money_step (db w) (db (snd (expireOne rid u n ts (w :: world))))"

lemma book_posting:
  assumes "m w = (x, w')" "\<And>e. x = Inl e \<Longrightarrow> db w' = db w"
    "\<And>y. x = Inr y \<Longrightarrow> db w' = db w \<or> (\<exists>t ts. t_reference_id t = None \<and> db w' = posted t ts (db w))"
  shows "book_step (book_of (db w)) (book_of (db (snd (m w))))"
  using assms by (cases x) (auto intro: book_step.idle book_posted)

lemma money_step_refines:
  assumes "money_step d d'" "credits_inv d"
  shows "book_step (book_of d) (book_of d')"
  using assms
proof (induction rule: money_step.induct)
  case (grant w u n src rsn k)
  obtain x w' where run: "Grant u n src rsn k w = (x, w')" by fastforce
  show ?case by (rule book_posting [of "Grant u n src rsn k", OF run]) (use run in \<open>force dest: Grant_Inl Grant_Inr\<close>)+
next
  case (refund w u n src rsn k)
  obtain x w' where run: "Refund u n src rsn k w = (x, w')" by fastforce
  show ?case by (rule book_posting [of "Refund u n src rsn k", OF run]) (use run in \<open>force dest: Refund_Inl Refund_Inr\<close>)+
next
  case (monthly w s u plan)
  obtain x w' where run: "EnsureMonthlyGrant s u plan w = (x, w')" by fastforce
  show ?case
  proof (rule book_posting [of "EnsureMonthlyGrant s u plan", OF run])
    show "db w' = db w" if "x = Inl e" for e using EnsureMonthlyGrant_not_granted [OF run] that by simp
    show "db w' = db w \<or> (\<exists>t ts. t_reference_id t = None \<and> db w' = posted t ts (db w))" if "x = Inr y" for y
    proof (cases "x = Inr True")
      case True
      then obtain w1 where "db w1 = db w"
        and "Grant u (planCreditFor s plan) ''monthly'' ''monthly_grant'' (monthlyGrantKey u (Period w)) w1 = (Inr (), w')"
        using EnsureMonthlyGrant_run [OF run] by auto
      then show ?thesis by (force dest: Grant_Inr)
    qed (use EnsureMonthlyGrant_not_granted [OF run] in simp)
  qed
next
  case (reserve n w u q)
  obtain x w' where run: "Reserve u q n w = (x, w')" by fastforce
  show ?case
  proof (cases x)
    case (Inl e)
    then show ?thesis using run Reserve_Inl [of u q n w e w'] by (simp add: book_step.idle)
  next
    case (Inr r)
    from Reserve_Inr [OF run [unfolded Inr] credits_inv_wf [OF reserve.prems] reserve.hyps]
    show ?thesis using run book_reserved [of "db w" r "db w'"] by (auto intro: book_step.idle)
  qed
next
  case (settle n w r)
  obtain x b w' where run: "with_arg (finalize n False) r w = (x, b, w')" by (cases "with_arg (finalize n False) r w")
  from book_finalized [OF settle.prems run settle.hyps] show ?case by (simp add: Settle_def run)
next
  case (release w r)
  obtain x b w' where run: "with_arg (finalize 0 True) r w = (x, b, w')" by (cases "with_arg (finalize 0 True) r w")
  from book_finalized [OF release.prems run] show ?case by (simp add: Release_def run max_int64_def)
next
  case (expire rid u n w ts)
  obtain x w' where run: "expireOne rid u n ts w = (x, w')" by fastforce
  show ?case
  proof (cases x)
    case (Inl e)
    then show ?thesis using run expireOne_Inl [of rid u n ts w e w'] by (simp add: book_step.idle)
  next
    case (Inr y)
    from book_swept_one [OF expire.prems expireOne_Inr [OF run [unfolded Inr] expire.prems expire.hyps]] run
    show ?thesis by simp
  qed
qed

section \<open>Properties\<close>

text \<open>C2: in every database that any number of processes can produce from the empty schema, through any operations with
  any arguments, faults, clocks and interleaving of transactions, the invariant holds: keys are unique, every balance
  is the sum of the user's ledger rows, and every reservation's ledger rows sum to minus what it costs.\<close>

theorem reachable_sound:
  assumes "reachable d"
  shows "credits_inv d \<and> schema_wf d"
  using reachable_inv [OF assms] reachable_wf [OF assms] by simp

lemma reachable_grant: "reachable (db (snd (Grant u n src rsn k (sample_world empty_db))))"
  using reachable.step [OF reachable.init] client_step.grant [of "\<lambda>_ _. True" k rsn "sample_world empty_db" u n src] by simp

theorem reachable_sound_witness:
  "credits_inv (db (snd (Grant ''u1'' 1000 ''signup'' ''welcome'' ''signup:u1'' (sample_world empty_db)))) \<and>
   schema_wf (db (snd (Grant ''u1'' 1000 ''signup'' ''welcome'' ''signup:u1'' (sample_world empty_db))))"
  by (rule reachable_sound) (rule reachable_grant)

text \<open>Credits are conserved. In every reachable database a user's balance is exactly what grants and refunds have put
  in, minus the full amount of the user's open reservations, minus the captured cost of the settled ones; released
  and expired reservations cost nothing.\<close>

theorem credits_conserved:
  assumes "reachable d"
  shows "balance_of d u =
     sum_where (\<lambda>t. t_user_id t = u \<and> t_reference_id t = None) t_amount (credit_transactions d) -
     sum_where (\<lambda>r. r_UserID r = u \<and> r_Status r = reservationStatusReserved) r_Amount (credit_reservations d) -
     sum_where (\<lambda>r. r_UserID r = u \<and> r_Status r = reservationStatusCaptured) r_Captured (credit_reservations d)"
proof -
  have "sum_where (\<lambda>r. r_UserID r = u) held rs =
      sum_where (\<lambda>r. r_UserID r = u \<and> r_Status r = reservationStatusReserved) r_Amount rs +
      sum_where (\<lambda>r. r_UserID r = u \<and> r_Status r = reservationStatusCaptured) r_Captured rs" for rs
    by (induction rs) (auto simp: held_def)
  then show ?thesis
    using balance_split [OF reachable_inv [OF assms], of u] by (simp add: funded_def held_total_def)
qed

theorem credits_conserved_witness:
  "let d = db (snd (Grant ''u1'' 1000 ''signup'' ''welcome'' ''signup:u1'' (sample_world empty_db)))
   in balance_of d ''u1'' =
     sum_where (\<lambda>t. t_user_id t = ''u1'' \<and> t_reference_id t = None) t_amount (credit_transactions d) -
     sum_where (\<lambda>r. r_UserID r = ''u1'' \<and> r_Status r = reservationStatusReserved) r_Amount (credit_reservations d) -
     sum_where (\<lambda>r. r_UserID r = ''u1'' \<and> r_Status r = reservationStatusCaptured) r_Captured (credit_reservations d)"
  unfolding Let_def by (rule credits_conserved) (rule reachable_grant)

text \<open>Nothing is rewritten. Over any sequence of steps from any database the ledger only grows at its end, no
  reservation disappears or changes its identity, owner or amount, and a reservation that is settled, released or
  expired never changes again.\<close>

theorem history_is_kept:
  assumes "credit_step\<^sup>*\<^sup>* d d'"
  shows "prefix (credit_transactions d) (credit_transactions d') \<and>
     (\<forall>r \<in> set (credit_reservations d). \<exists>r' \<in> set (credit_reservations d').
        r_ID r' = r_ID r \<and> r_UserID r' = r_UserID r \<and> r_RequestID r' = r_RequestID r \<and> r_Amount r' = r_Amount r \<and>
        (r_Status r \<noteq> reservationStatusReserved \<longrightarrow> r' = r))"
  using hist.steps_law [OF assms history_self] unfolding history_def same_reservation_def by blast

theorem history_is_kept_witness:
  "prefix (credit_transactions sample_db) (credit_transactions (db (snd (snd (Release (Some sample_reservation) (sample_world sample_db)))))) \<and>
   (\<exists>r \<in> set (credit_reservations (db (snd (snd (Release (Some sample_reservation) (sample_world sample_db)))))).
      r_ID r = ''r1'' \<and> r_UserID r = ''u1'' \<and> r_RequestID r = ''req-0'' \<and> r_Amount r = 300)"
proof -
  have "credit_step\<^sup>*\<^sup>* sample_db (db (snd (snd (Release (Some sample_reservation) (sample_world sample_db)))))"
    using client_step.release [of "\<lambda>_ _. True" "sample_world sample_db" "Some sample_reservation"] by (simp add: r_into_rtranclp)
  from history_is_kept [OF this] show ?thesis by auto
qed

text \<open>C3: the tables implement the abstract account book. Every operation that moves money, in any world and whatever
  faults occur, is one step of the book or none: it funds an account, takes a hold that the available amount covers,
  or pays a hold off at a price and returns the rest.\<close>

theorem money_refines_book:
  assumes "money_step d d'" "credits_inv d"
  shows "book_step (book_of d) (book_of d')"
  using assms by (rule money_step_refines)

theorem money_refines_book_witness:
  "book_step (book_of sample_db) (book_of (db (snd (snd (Settle (Some sample_reservation) 350 (sample_world sample_db))))))"
proof (rule money_refines_book)
  show "money_step sample_db (db (snd (snd (Settle (Some sample_reservation) 350 (sample_world sample_db)))))"
    using money_step.settle [of 350 "sample_world sample_db" sample_reservation] by (simp add: max_int64_def)
qed (rule sample_db_inv)

text \<open>In every reachable database a balance is bounded by the turnover of the user's ledger rows, so as long as that
  stays below \<open>2\<^sup>6\<^sup>3\<close> no SQL integer overflows.\<close>

theorem balance_bounded:
  assumes "reachable d"
  shows "\<bar>balance_of d u\<bar> \<le> sum_where (\<lambda>t. t_user_id t = u) (\<lambda>t. \<bar>t_amount t\<bar>) (credit_transactions d)"
  using reachable_inv [OF assms] sum_where_abs [of "\<lambda>t. t_user_id t = u" t_amount "credit_transactions d"]
  by (simp add: credits_inv_def ledger_inv_def ledger_sum_def)

theorem balance_bounded_witness:
  "let d = db (snd (Grant ''u1'' 1000 ''signup'' ''welcome'' ''signup:u1'' (sample_world empty_db)))
   in \<bar>balance_of d ''u1''\<bar> \<le> sum_where (\<lambda>t. t_user_id t = ''u1'') (\<lambda>t. \<bar>t_amount t\<bar>) (credit_transactions d)"
  unfolding Let_def by (rule balance_bounded) (rule reachable_grant)

end
