(* ===== verification/Payments.thy ===== *)
theory Payments
  imports Reservations
begin

text \<open>
  Package \<open>payments\<close> (\<open>src/payments/payments.go\<close>): purchases, the log of provider events and its processing, provider
  subscriptions and the reconcile report. The tables are those of \<open>src/payments/schema.sql\<close>.

  The ledger behind the service is a value of \<open>LedgerImpl\<close>: \<open>CreditsService\<close> is \<open>*credits.Service\<close>, for which
  \<open>processOne\<close> books the money, the purchase and the event in one transaction; \<open>OtherLedger\<close> is any other implementation
  of the interface \<open>Ledger\<close>, given by its two functions, for which the ledger is called first and the rest is written
  afterwards. The clock of this package is \<open>time.Now\<close> (\<open>wall\<close>).

  Transactions are opened with \<open>BEGIN IMMEDIATE\<close>, as the comment on \<open>immediateTx\<close> in \<open>src/credits/credits.go\<close> requires
  of the DSN. A statement that the code sends outside a transaction of its own that is still open is therefore locked out
  (\<open>fail_locked\<close>).
\<close>

section \<open>Types\<close>

record CatalogItem =
  ci_Credits :: int
  ci_Currency :: string
  ci_AmountMinor :: int

record Event =
  ev_Provider :: string
  ev_EventID :: string
  ev_PaymentID :: string
  ev_PurchaseID :: string
  ev_Status :: string
  ev_PayloadHash :: string
  ev_ReversedCredits :: int
  ev_ReversedMinor :: int
  ev_OccurredAt :: "int option"

record Purchase =
  pu_ID :: string
  pu_UserID :: string
  pu_SKU :: string
  pu_Provider :: string
  pu_Currency :: string
  pu_PaymentID :: string
  pu_Status :: string
  pu_Credits :: int
  pu_AmountMinor :: int
  pu_ReversedCredits :: int

type_synonym ledger_op = "string \<Rightarrow> int \<Rightarrow> string \<Rightarrow> string \<Rightarrow> string \<Rightarrow> world \<Rightarrow> (error + unit) \<times> world"

text \<open>The interface \<open>Ledger\<close>: the credits service, or another implementation with its \<open>Grant\<close> and \<open>Refund\<close>.\<close>

datatype LedgerImpl = CreditsService | OtherLedger ledger_op ledger_op

fun ledger_Grant :: "LedgerImpl \<Rightarrow> ledger_op" where
  "ledger_Grant CreditsService = Grant"
| "ledger_Grant (OtherLedger g r) = g"

record PaymentsService =
  ps_ledger :: LedgerImpl
  ps_catalog :: "(string \<times> CatalogItem) list"

abbreviation pnow :: "world \<Rightarrow> int" where
  "pnow w \<equiv> unix (wall w)"

section \<open>Purchases\<close>

text \<open>The check of \<open>New\<close> on the catalog (a Go map: distinct keys in no particular order).\<close>

definition invalid_item :: "string \<times> CatalogItem \<Rightarrow> bool" where
  "invalid_item = (\<lambda>(sku, item).
     trim_space sku = [] \<or> ci_Credits item \<le> 0 \<or> length (ci_Currency item) \<noteq> 3 \<or> ci_AmountMinor item \<le> 0)"

definition CatalogItemOf :: "PaymentsService \<Rightarrow> string \<Rightarrow> CatalogItem option" where
  "CatalogItemOf s sku = map_of (ps_catalog s) sku"

text \<open>\<open>INSERT INTO payment_purchases\<close> with the table's checks and keys; the inserted \<open>payment_id\<close> is \<open>NULL\<close>.\<close>

definition insert_purchase :: "purchase_row \<Rightarrow> database \<Rightarrow> error + (nat \<times> database)" where
  "insert_purchase p d =
     (if p_credits p \<le> 0 then Inl (SqlCheck ''credits > 0'')
      else if p_amount_minor p \<le> 0 then Inl (SqlCheck ''amount_minor > 0'')
      else if list_ex (\<lambda>x. p_id x = p_id p) (payment_purchases d) then Inl (SqlUnique ''payment_purchases.id'')
      else Inr (1, d\<lparr>payment_purchases := payment_purchases d @ [p]\<rparr>))"

text \<open>\<open>UPDATE payment_purchases SET ... WHERE id=?\<close>, subject to \<open>UNIQUE(provider, payment_id)\<close>.\<close>

definition update_purchase :: "(purchase_row \<Rightarrow> purchase_row) \<Rightarrow> string \<Rightarrow> database \<Rightarrow> error + (nat \<times> database)" where
  "update_purchase f pid d =
     (if list_ex (\<lambda>p. p_id p = pid \<and>
           list_ex (\<lambda>q. p_id q \<noteq> pid \<and> p_provider q = p_provider p \<and> p_payment_id q \<noteq> None \<and>
                        p_payment_id q = p_payment_id (f p)) (payment_purchases d)) (payment_purchases d)
      then Inl (SqlUnique ''payment_purchases.provider, payment_purchases.payment_id'')
      else Inr (count_where (\<lambda>p. p_id p = pid) (payment_purchases d),
                d\<lparr>payment_purchases := update_where (\<lambda>p. p_id p = pid) f (payment_purchases d)\<rparr>))"

text \<open>\<open>strings.ToLower\<close> of a currency code, which is three ASCII letters.\<close>

definition to_lower :: "string \<Rightarrow> string" where
  "to_lower s = map lower_char s"

definition CreatePurchase :: "PaymentsService \<Rightarrow> string \<Rightarrow> string \<Rightarrow> string \<Rightarrow> world \<Rightarrow> (error + Purchase) \<times> world" where
  "CreatePurchase s provider userID sku =
     (case CatalogItemOf s sku of
        None \<Rightarrow> throw_io (ErrMsg ''payments: unknown sku'')
      | Some item \<Rightarrow>
         if trim_space provider = [] \<or> trim_space userID = []
         then throw_io (ErrMsg ''payments: provider and user_id required'') else
         bind_io NewRequestID (\<lambda>id.
         bind_io (read_io pnow) (\<lambda>ts.
         bind_io (stmt (insert_purchase
           \<lparr>p_id = id, p_provider = provider, p_user_id = userID, p_sku = sku, p_credits = ci_Credits item,
            p_currency = to_lower (ci_Currency item), p_amount_minor = ci_AmountMinor item, p_payment_id = None,
            p_status = ''pending'', p_created_at = ts, p_updated_at = ts, p_fulfilled_at = None, p_reversed_at = None,
            p_reversed_credits = 0\<rparr>)) (\<lambda>_.
         return_io
           \<lparr>pu_ID = id, pu_UserID = userID, pu_SKU = sku, pu_Provider = provider,
            pu_Currency = to_lower (ci_Currency item), pu_PaymentID = [], pu_Status = ''pending'',
            pu_Credits = ci_Credits item, pu_AmountMinor = ci_AmountMinor item, pu_ReversedCredits = 0\<rparr>))))"

definition purchase_of_row :: "purchase_row \<Rightarrow> Purchase" where
  "purchase_of_row p =
     \<lparr>pu_ID = p_id p, pu_UserID = p_user_id p, pu_SKU = p_sku p, pu_Provider = p_provider p, pu_Currency = p_currency p,
      pu_PaymentID = (case p_payment_id p of None \<Rightarrow> [] | Some x \<Rightarrow> x), pu_Status = p_status p,
      pu_Credits = p_credits p, pu_AmountMinor = p_amount_minor p, pu_ReversedCredits = p_reversed_credits p\<rparr>"

text \<open>The method \<open>Purchase\<close>.\<close>

definition PurchaseOf :: "string \<Rightarrow> world \<Rightarrow> (error + Purchase) \<times> world" where
  "PurchaseOf pid =
     bind_io (query (\<lambda>d. row_or_none (find (\<lambda>p. p_id p = pid) (payment_purchases d)))) (\<lambda>p.
     return_io (purchase_of_row p))"

section \<open>Processing an event\<close>

definition is_event :: "Event \<Rightarrow> event_row \<Rightarrow> bool" where
  "is_event e r \<longleftrightarrow> e_provider r = ev_Provider e \<and> e_event_id r = ev_EventID e"

definition waiting :: "event_row \<Rightarrow> bool" where
  "waiting r \<longleftrightarrow> e_process_status r = ''received'' \<or> e_process_status r = ''failed''"

text \<open>\<open>UPDATE payment_events SET ... WHERE ...\<close>.\<close>

definition update_events :: "(event_row \<Rightarrow> bool) \<Rightarrow> (event_row \<Rightarrow> event_row) \<Rightarrow> database \<Rightarrow> error + (nat \<times> database)" where
  "update_events q f d =
     Inr (count_where q (payment_events d), d\<lparr>payment_events := update_where q f (payment_events d)\<rparr>)"

definition grantLeaseSeconds :: int where "grantLeaseSeconds = 30"

definition claim_row :: "int \<Rightarrow> event_row \<Rightarrow> event_row" where
  "claim_row ts r =
     r\<lparr>e_process_status := ''processing'', e_attempt_count := e_attempt_count r + 1, e_last_error := None,
       e_lease_until := Some (wrap64 (ts + grantLeaseSeconds))\<rparr>"

definition fail_row :: "error \<Rightarrow> event_row \<Rightarrow> event_row" where
  "fail_row cause r = r\<lparr>e_process_status := ''failed'', e_last_error := Some (error_text cause)\<rparr>"

definition applied_row :: "int \<Rightarrow> event_row \<Rightarrow> event_row" where
  "applied_row ts r =
     r\<lparr>e_process_status := ''applied'', e_processed_at := Some ts, e_last_error := None, e_lease_until := None\<rparr>"

definition fail :: "Event \<Rightarrow> error \<Rightarrow> world \<Rightarrow> (error + 'a) \<times> world" where
  "fail e cause =
     bind_io (try_io (stmt (update_events (is_event e) (fail_row cause)))) (\<lambda>_.
     throw_io cause)"

text \<open>
  \<open>fail\<close> called while the transaction is still open (its \<open>Rollback\<close> is deferred): the update goes through another
  connection, finds the database locked, and its error is dropped.
\<close>

definition fail_locked :: "Event \<Rightarrow> error \<Rightarrow> world \<Rightarrow> (error + 'a) \<times> world" where
  "fail_locked e cause =
     bind_io (try_io (stmt (\<lambda>_. Inl (ErrDb ''database is locked'')) :: world \<Rightarrow> (error + nat) \<times> world)) (\<lambda>_.
     throw_io cause)"

definition payment_key :: "string \<Rightarrow> string \<Rightarrow> string" where
  "payment_key provider paymentID = ''payment:'' @ provider @ '':'' @ paymentID"

definition reversal_key :: "string \<Rightarrow> string \<Rightarrow> string" where
  "reversal_key provider eventID = ''reversal:'' @ provider @ '':'' @ eventID"

text \<open>The credits an event takes back: \<open>ReversedMinor\<close> is the provider's cumulative figure, zero means everything.\<close>

definition reversal_amount :: "Purchase \<Rightarrow> Event \<Rightarrow> int" where
  "reversal_amount p e =
     (if ev_ReversedMinor e > 0
      then wrap64 (go_div (wrap64 (wrap64 (wrap64 (pu_Credits p * min (ev_ReversedMinor e) (pu_AmountMinor p))
                                           + pu_AmountMinor p) - 1)) (pu_AmountMinor p) - pu_ReversedCredits p)
      else wrap64 (pu_Credits p - pu_ReversedCredits p))"

definition ignore_duplicate :: "(world \<Rightarrow> (error + unit) \<times> world) \<Rightarrow> world \<Rightarrow> (error + unit) \<times> world" where
  "ignore_duplicate m =
     bind_io (try_io m) (\<lambda>r.
     case r of
       Inl e \<Rightarrow> if e = ErrDuplicateGrant then return_io () else throw_io e
     | Inr _ \<Rightarrow> return_io ())"

text \<open>The booking, with the ledger operations of either path; returns \<open>e\<close> with \<open>ReversedCredits\<close> set.\<close>

definition book_event :: "ledger_op \<Rightarrow> ledger_op \<Rightarrow> Event \<Rightarrow> Purchase \<Rightarrow> world \<Rightarrow> (error + Event) \<times> world" where
  "book_event grant refund e p =
     (if ev_Status e = ''paid'' then
        bind_io (ignore_duplicate (grant (pu_UserID p) (pu_Credits p) (ev_Provider e) (''purchase '' @ pu_ID p)
          (payment_key (ev_Provider e) (ev_PaymentID e)))) (\<lambda>_.
        return_io e)
      else
        (let amount = reversal_amount p e
         in bind_io (if amount > 0
              then ignore_duplicate (refund (pu_UserID p) amount (ev_Provider e) (''reversal '' @ pu_ID p)
                (reversal_key (ev_Provider e) (ev_EventID e)))
              else return_io ()) (\<lambda>_.
            return_io (e\<lparr>ev_ReversedCredits := amount\<rparr>))))"

definition paid_row :: "Event \<Rightarrow> int \<Rightarrow> purchase_row \<Rightarrow> purchase_row" where
  "paid_row e ts p =
     p\<lparr>p_payment_id := Some (ev_PaymentID e), p_status := ''paid'', p_fulfilled_at := Some ts, p_updated_at := ts\<rparr>"

definition reversed_row :: "Event \<Rightarrow> int \<Rightarrow> int \<Rightarrow> purchase_row \<Rightarrow> purchase_row" where
  "reversed_row e newReversed ts p =
     p\<lparr>p_payment_id := Some (ev_PaymentID e), p_status := ev_Status e, p_reversed_credits := newReversed,
       p_reversed_at := Some ts, p_updated_at := ts\<rparr>"

definition newReversed :: "Purchase \<Rightarrow> int \<Rightarrow> int" where
  "newReversed p amount = wrap64 (pu_ReversedCredits p + max amount 0)"

text \<open>The two updates that follow the booking inside the transaction.\<close>

definition write_event :: "Event \<Rightarrow> Purchase \<Rightarrow> int \<Rightarrow> world \<Rightarrow> (error + unit) \<times> world" where
  "write_event e p ts =
     bind_io (stmt (update_purchase
       (if ev_Status e = ''paid'' then paid_row e ts
        else reversed_row e (newReversed p (ev_ReversedCredits e)) ts) (pu_ID p))) (\<lambda>_.
     bind_io (stmt (update_events (is_event e) (applied_row ts))) (\<lambda>_.
     return_io ()))"

text \<open>How a transaction of \<open>processOne\<close> ends when it gets that far.\<close>

datatype applied = Applied | LedgerFailed error | WriteFailed error

definition write_tx :: "Event \<Rightarrow> Purchase \<Rightarrow> int \<Rightarrow> world \<Rightarrow> (error + applied txout) \<times> world" where
  "write_tx e p ts =
     bind_io (try_io (write_event e p ts)) (\<lambda>r.
     case r of
       Inl err \<Rightarrow> return_io (Abandon (WriteFailed err))
     | Inr _ \<Rightarrow> return_io (Commit Applied))"

definition process_tx :: "Event \<Rightarrow> Purchase \<Rightarrow> int \<Rightarrow> world \<Rightarrow> (error + applied txout) \<times> world" where
  "process_tx e p ts =
     bind_io (try_io (book_event GrantTx RefundTx e p)) (\<lambda>r.
     case r of
       Inl err \<Rightarrow> return_io (Abandon (LedgerFailed err))
     | Inr e' \<Rightarrow> write_tx e' p ts)"

definition finish_event :: "Event \<Rightarrow> error + applied \<Rightarrow> world \<Rightarrow> (error + unit) \<times> world" where
  "finish_event e r =
     (case r of
        Inl err \<Rightarrow> fail e err
      | Inr (LedgerFailed err) \<Rightarrow> fail e err
      | Inr (WriteFailed err) \<Rightarrow> fail_locked e err
      | Inr Applied \<Rightarrow> return_io ())"

definition identity_conflict :: "Event \<Rightarrow> Purchase \<Rightarrow> bool" where
  "identity_conflict e p \<longleftrightarrow> pu_Provider p \<noteq> ev_Provider e \<or> pu_PaymentID p \<noteq> [] \<and> pu_PaymentID p \<noteq> ev_PaymentID e"

definition processOne :: "PaymentsService \<Rightarrow> Event \<Rightarrow> world \<Rightarrow> (error + unit) \<times> world" where
  "processOne s e =
     bind_io (read_io pnow) (\<lambda>ts.
     bind_io (stmt (update_events (\<lambda>r. is_event e r \<and> waiting r) (claim_row ts))) (\<lambda>n.
     if n = 0 then return_io () else
     bind_io (try_io (PurchaseOf (ev_PurchaseID e))) (\<lambda>l.
     case l of
       Inl err \<Rightarrow> fail e err
     | Inr p \<Rightarrow>
         if identity_conflict e p then fail e (ErrMsg ''payments: payment identity conflict'') else
         (case ps_ledger s of
            CreditsService \<Rightarrow>
              bind_io (try_io (transaction (process_tx e p ts))) (finish_event e)
          | OtherLedger grant refund \<Rightarrow>
              bind_io (try_io (book_event grant refund e p)) (\<lambda>r.
              case r of
                Inl err \<Rightarrow> fail e err
              | Inr e' \<Rightarrow> bind_io (try_io (transaction (write_tx e' p ts))) (finish_event e'))))))"

section \<open>Receiving and processing the log\<close>

text \<open>\<open>INSERT INTO payment_events ... ON CONFLICT(provider,event_id) DO NOTHING\<close>.\<close>

definition insert_event :: "event_row \<Rightarrow> database \<Rightarrow> error + (nat \<times> database)" where
  "insert_event r d =
     (if list_ex (\<lambda>x. e_provider x = e_provider r \<and> e_event_id x = e_event_id r) (payment_events d) then Inr (0, d)
      else Inr (1, d\<lparr>payment_events := payment_events d @ [r]\<rparr>))"

definition new_event_row :: "Event \<Rightarrow> int \<Rightarrow> event_row" where
  "new_event_row e ts =
     \<lparr>e_provider = ev_Provider e, e_event_id = ev_EventID e, e_purchase_id = ev_PurchaseID e, e_payment_id = ev_PaymentID e,
      e_status = ev_Status e, e_payload_hash = Some (ev_PayloadHash e), e_process_status = ''received'',
      e_attempt_count = 0, e_last_error = None, e_received_at = ts, e_processed_at = None, e_lease_until = None,
      e_reversed_minor = ev_ReversedMinor e\<rparr>"

definition event_of_row :: "event_row \<Rightarrow> Event" where
  "event_of_row r =
     \<lparr>ev_Provider = e_provider r, ev_EventID = e_event_id r, ev_PaymentID = e_payment_id r, ev_PurchaseID = e_purchase_id r,
      ev_Status = e_status r, ev_PayloadHash = [], ev_ReversedCredits = 0, ev_ReversedMinor = e_reversed_minor r,
      ev_OccurredAt = None\<rparr>"

text \<open>\<open>... WHERE process_status IN ('received','failed') ORDER BY received_at LIMIT ?\<close>; ties in insertion order.\<close>

definition pending_events :: "int \<Rightarrow> database \<Rightarrow> Event list" where
  "pending_events limit d =
     map event_of_row (take (nat limit) (sort_key e_received_at (filter waiting (payment_events d))))"

definition lease_expired :: "int \<Rightarrow> event_row \<Rightarrow> bool" where
  "lease_expired ts r \<longleftrightarrow>
     e_process_status r = ''processing'' \<and> (case e_lease_until r of None \<Rightarrow> 0 | Some u \<Rightarrow> u) < ts"

definition expire_lease :: "event_row \<Rightarrow> event_row" where
  "expire_lease r = r\<lparr>e_process_status := ''failed'', e_last_error := Some ''worker lease expired''\<rparr>"

fun process_events :: "PaymentsService \<Rightarrow> Event list \<Rightarrow> world \<Rightarrow> (error + unit) \<times> world" where
  "process_events s [] = return_io ()"
| "process_events s (e # es) = bind_io (processOne s e) (\<lambda>_. process_events s es)"

definition ProcessPending :: "PaymentsService \<Rightarrow> int \<Rightarrow> world \<Rightarrow> (error + unit) \<times> world" where
  "ProcessPending s limit =
     bind_io (read_io pnow) (\<lambda>ts.
     bind_io (stmt (update_events (lease_expired ts) expire_lease)) (\<lambda>_.
     bind_io (query (\<lambda>d. Inr (pending_events (if limit \<le> 0 then 100 else limit) d))) (\<lambda>events.
     process_events s events)))"

text \<open>The verb \<open>%q\<close>; bytes from 0x80 on are kept, which is right for printable UTF-8.\<close>

definition go_escape :: "char \<Rightarrow> string" where
  "go_escape c =
     (let n = (of_char c :: nat); bs = CHR 0x5C
      in if n = 34 \<or> n = 92 then [bs, c]
         else if n = 7 then [bs, CHR ''a''] else if n = 8 then [bs, CHR ''b''] else if n = 9 then [bs, CHR ''t'']
         else if n = 10 then [bs, CHR ''n''] else if n = 11 then [bs, CHR ''v''] else if n = 12 then [bs, CHR ''f'']
         else if n = 13 then [bs, CHR ''r'']
         else if n < 32 \<or> n = 127 then [bs, CHR ''x''] @ hex_encode [c]
         else [c])"

definition go_quote :: "string \<Rightarrow> string" where
  "go_quote s = [CHR 0x22] @ concat (map go_escape s) @ [CHR 0x22]"

definition Receive :: "PaymentsService \<Rightarrow> Event \<Rightarrow> world \<Rightarrow> (error + unit) \<times> world" where
  "Receive s e =
     (if ev_Provider e = [] \<or> ev_EventID e = [] \<or> ev_PaymentID e = [] \<or> ev_PurchaseID e = []
      then throw_io (ErrMsg ''payments: incomplete event'')
      else if ev_Status e \<noteq> ''paid'' \<and> ev_Status e \<noteq> ''refunded'' \<and> ev_Status e \<noteq> ''disputed''
      then throw_io (ErrMsg (''payments: unsupported status '' @ go_quote (ev_Status e)))
      else
        bind_io (read_io pnow) (\<lambda>ts.
        bind_io (stmt (insert_event (new_event_row e ts))) (\<lambda>n.
        bind_io (if n = 0 then
            bind_io (query (\<lambda>d. row_or_none (find (is_event e) (payment_events d)))) (\<lambda>r.
            if (case e_payload_hash r of None \<Rightarrow> [] | Some h \<Rightarrow> h) \<noteq> ev_PayloadHash e
            then throw_io (ErrMsg ''payments: event id reused with different payload'')
            else return_io ())
          else return_io ()) (\<lambda>_.
        ProcessPending s 100))))"

definition Apply :: "PaymentsService \<Rightarrow> Event \<Rightarrow> world \<Rightarrow> (error + unit) \<times> world" where
  "Apply s e = Receive s e"

section \<open>Subscriptions at the provider\<close>

record SubscriptionEvent =
  se_Provider :: string
  se_EventID :: string
  se_SubscriptionID :: string
  se_UserID :: string
  se_Plan :: string
  se_Status :: string
  se_PeriodStart :: int
  se_PeriodEnd :: int
  se_Created :: int
  se_TrialStart :: int
  se_TrialEnd :: int
  se_CancelAt :: int
  se_CancelAtPeriodEnd :: bool

text \<open>\<open>payments.Subscription\<close>.\<close>

record PaySubscription =
  ps_Provider :: string
  ps_ID :: string
  ps_UserID :: string
  ps_Plan :: string
  ps_Status :: string
  ps_PeriodStart :: int
  ps_PeriodEnd :: int
  ps_TrialStart :: int
  ps_TrialEnd :: int
  ps_CancelAt :: int
  ps_CancelAtPeriodEnd :: bool
  ps_CanceledAt :: int

text \<open>The \<open>switch\<close> on the status: the stored status, or none for the default branch.\<close>

definition subscription_status :: "string \<Rightarrow> string option" where
  "subscription_status st =
     (if st = ''active'' \<or> st = ''trialing'' \<or> st = ''paused'' \<or> st = ''past_due'' \<or> st = ''unpaid'' \<or> st = ''cancelled''
      then Some st
      else if st = ''canceled'' then Some ''cancelled''
      else if st = ''incomplete'' \<or> st = ''incomplete_expired'' then Some ''past_due''
      else None)"

definition boolToInt :: "bool \<Rightarrow> int" where
  "boolToInt b = (if b then 1 else 0)"

text \<open>
  \<open>INSERT INTO payment_subscriptions ... ON CONFLICT(provider,subscription_id) DO UPDATE SET ... WHERE
  excluded.last_event_created > payment_subscriptions.last_event_created\<close>: every column but the key is replaced.
\<close>

definition upsert_psub :: "psub_row \<Rightarrow> database \<Rightarrow> error + (nat \<times> database)" where
  "upsert_psub q d =
     (let same = (\<lambda>x. q_provider x = q_provider q \<and> q_subscription_id x = q_subscription_id q)
      in if list_ex same (payment_subscriptions d)
         then let older = (\<lambda>x. same x \<and> q_last_event_created q > q_last_event_created x)
              in Inr (count_where older (payment_subscriptions d),
                      d\<lparr>payment_subscriptions := update_where older (\<lambda>_. q) (payment_subscriptions d)\<rparr>)
         else Inr (1, d\<lparr>payment_subscriptions := payment_subscriptions d @ [q]\<rparr>))"

definition psub_of_event :: "SubscriptionEvent \<Rightarrow> string \<Rightarrow> int \<Rightarrow> psub_row" where
  "psub_of_event e st ts =
     \<lparr>q_provider = se_Provider e, q_subscription_id = se_SubscriptionID e, q_user_id = se_UserID e, q_plan = se_Plan e,
      q_status = st, q_period_start = se_PeriodStart e, q_period_end = se_PeriodEnd e, q_last_event_created = se_Created e,
      q_updated_at = ts, q_trial_start = se_TrialStart e, q_trial_end = se_TrialEnd e, q_cancel_at = se_CancelAt e,
      q_cancel_at_period_end = boolToInt (se_CancelAtPeriodEnd e),
      q_canceled_at = (if st = ''cancelled'' then ts else 0)\<rparr>"

definition ApplySubscription :: "SubscriptionEvent \<Rightarrow> world \<Rightarrow> (error + unit) \<times> world" where
  "ApplySubscription e =
     (if se_Provider e = [] \<or> se_EventID e = [] \<or> se_SubscriptionID e = [] \<or> se_UserID e = [] \<or> se_Plan e = [] \<or>
         se_Created e \<le> 0
      then throw_io (ErrMsg ''payments: incomplete subscription event'')
      else case subscription_status (se_Status e) of
        None \<Rightarrow> throw_io (ErrMsg ''payments: invalid subscription status'')
      | Some st \<Rightarrow>
          bind_io (read_io pnow) (\<lambda>ts.
          bind_io (stmt (upsert_psub (psub_of_event e st ts))) (\<lambda>_.
          return_io ())))"

text \<open>The method \<open>Subscription\<close>; the columns it coalesces are never \<open>NULL\<close> here.\<close>

definition PaySubscriptionOf :: "string \<Rightarrow> string \<Rightarrow> world \<Rightarrow> (error + PaySubscription) \<times> world" where
  "PaySubscriptionOf provider sid =
     bind_io (query (\<lambda>d. row_or_none (find (\<lambda>x. q_provider x = provider \<and> q_subscription_id x = sid)
       (payment_subscriptions d)))) (\<lambda>q.
     return_io
       \<lparr>ps_Provider = q_provider q, ps_ID = q_subscription_id q, ps_UserID = q_user_id q, ps_Plan = q_plan q,
        ps_Status = q_status q, ps_PeriodStart = q_period_start q, ps_PeriodEnd = q_period_end q,
        ps_TrialStart = q_trial_start q, ps_TrialEnd = q_trial_end q, ps_CancelAt = q_cancel_at q,
        ps_CancelAtPeriodEnd = (q_cancel_at_period_end q = 1), ps_CanceledAt = q_canceled_at q\<rparr>)"

definition subscription_key :: "string \<Rightarrow> string \<Rightarrow> int \<Rightarrow> string \<Rightarrow> string" where
  "subscription_key provider subscriptionID periodStart invoiceID =
     ''subscription:'' @ provider @ '':'' @ subscriptionID @ '':'' @ sprint_int periodStart @ '':'' @ invoiceID"

definition GrantSubscriptionPeriod ::
  "PaymentsService \<Rightarrow> string \<Rightarrow> string \<Rightarrow> string \<Rightarrow> string \<Rightarrow> int \<Rightarrow> int \<Rightarrow> world \<Rightarrow> (error + unit) \<times> world" where
  "GrantSubscriptionPeriod s provider subscriptionID invoiceID userID creditsAmount periodStart =
     (if creditsAmount \<le> 0 \<or> provider = [] \<or> subscriptionID = [] \<or> invoiceID = [] \<or> userID = [] \<or> periodStart \<le> 0
      then throw_io (ErrMsg ''payments: invalid subscription grant'')
      else ignore_duplicate (ledger_Grant (ps_ledger s) userID creditsAmount provider
             (''subscription period '' @ subscriptionID)
             (subscription_key provider subscriptionID periodStart invoiceID)))"

section \<open>The reconcile report\<close>

record ReconcileIssue =
  ri_Kind :: string
  ri_ID :: string

text \<open>The three arms of the \<open>UNION ALL\<close>, with the cut-off for old pending purchases.\<close>

definition reconcile_rows :: "int \<Rightarrow> database \<Rightarrow> ReconcileIssue list" where
  "reconcile_rows cutoff d =
     map (\<lambda>r. \<lparr>ri_Kind = ''event'', ri_ID = e_provider r @ '':'' @ e_event_id r\<rparr>)
       (filter (\<lambda>r. e_process_status r \<noteq> ''applied'') (payment_events d)) @
     map (\<lambda>p. \<lparr>ri_Kind = ''purchase'', ri_ID = p_id p\<rparr>)
       (filter (\<lambda>p. p_status p = ''pending'' \<and> p_created_at p < cutoff) (payment_purchases d)) @
     map (\<lambda>p. \<lparr>ri_Kind = ''payment-without-event'', ri_ID = p_id p\<rparr>)
       (filter (\<lambda>p. (p_status p = ''paid'' \<or> p_status p = ''refunded'' \<or> p_status p = ''disputed'') \<and>
          \<not> list_ex (\<lambda>r. e_purchase_id r = p_id p \<and> e_process_status r = ''applied'') (payment_events d))
         (payment_purchases d))"

text \<open>The method \<open>Reconcile\<close> of package \<open>payments\<close>.\<close>

definition PaymentsReconcile :: "world \<Rightarrow> (error + ReconcileIssue list) \<times> world" where
  "PaymentsReconcile =
     bind_io (read_io (\<lambda>w. unix (wall w - 3600 * 1000000000))) (\<lambda>cutoff.
     query (\<lambda>d. Inr (reconcile_rows cutoff d)))"

definition ReconcileWithStripe :: "string \<Rightarrow> world \<Rightarrow> (error + ReconcileIssue list) \<times> world" where
  "ReconcileWithStripe stripeSecret =
     bind_io PaymentsReconcile (\<lambda>issues.
     if stripeSecret = [] then return_io issues else return_io issues)"

end
