(* ===== verification/Fulfilment.thy ===== *)
theory Fulfilment
  imports Payments
begin

text \<open>
  What processing a payment event does, and the invariant that ties the three records of a purchase together: its row,
  the log of its events, and the rows of the credit ledger it caused.
\<close>

section \<open>How much an event takes back\<close>

text \<open>The reference: the share of the credits that corresponds to the returned money, rounded up; at most all of them.\<close>

definition reversal_target :: "int \<Rightarrow> int \<Rightarrow> int \<Rightarrow> int" where
  "reversal_target credits amount minor =
     (if minor > 0 then - ((- (credits * min minor amount)) div amount) else credits)"

definition small_price :: "int \<Rightarrow> int \<Rightarrow> bool" where
  "small_price credits amount \<longleftrightarrow> 0 < credits \<and> 0 < amount \<and> credits * amount + amount \<le> max_int64"

lemma small_priceD: "small_price c a \<Longrightarrow> 0 < c \<and> 0 < a \<and> c \<le> max_int64"
  using mult_left_mono [of 1 a c] unfolding small_price_def by linarith

lemma ceil_div:
  fixes a b :: int
  assumes "0 < b"
  shows "(a + b - 1) div b = - ((- a) div b)"
proof -
  define q where "q = - ((- a) div b)"
  have m: "- a = b * (- q) + (- a) mod b" by (simp add: q_def)
  have r: "0 \<le> (- a) mod b" "(- a) mod b < b" using assms by simp_all
  have "a + b - 1 = b * q + (b - 1 - (- a) mod b)" using m by (simp add: algebra_simps)
  then have "(a + b - 1) div b = q" using r by (intro int_div_pos_eq [where r = "b - 1 - (- a) mod b"]) auto
  then show ?thesis by (simp add: q_def)
qed

lemma neg_mult_div: "0 < b \<Longrightarrow> - (a * b) div b = - (a::int)"
  by (metis less_irrefl minus_mult_left nonzero_mult_div_cancel_right)

lemma reversal_target_bounds:
  assumes "0 < credits" "0 < amount"
  shows "0 < reversal_target credits amount minor \<and> reversal_target credits amount minor \<le> credits"
proof (cases "minor > 0")
  case True
  let ?m = "min minor amount"
  have m: "0 < ?m" "?m \<le> amount" using True assms by auto
  have "- (credits * amount) div amount \<le> - (credits * ?m) div amount"
    using m assms by (intro zdiv_mono1) auto
  then have "- credits \<le> - (credits * ?m) div amount" using assms by (simp add: neg_mult_div)
  moreover have "- (credits * ?m) div amount < 0"
    using m assms by (simp add: div_neg_pos_less0)
  ultimately show ?thesis using True by (simp add: reversal_target_def)
qed (simp add: reversal_target_def assms)

lemma reversal_target_full: "0 < amount \<Longrightarrow> amount \<le> minor \<Longrightarrow> reversal_target credits amount minor = credits"
  by (simp add: reversal_target_def min_def neg_mult_div)

lemma reversal_target_mono:
  assumes "0 < credits" "0 < amount" "0 < m" "m \<le> n"
  shows "reversal_target credits amount m \<le> reversal_target credits amount n"
proof -
  have "min m amount \<le> min n amount" using assms(4) by auto
  then have "credits * min m amount \<le> credits * min n amount" using assms(1) by (intro mult_left_mono) auto
  then have "- (credits * min n amount) div amount \<le> - (credits * min m amount) div amount"
    using assms(2) by (intro zdiv_mono1) auto
  then show ?thesis using assms by (simp add: reversal_target_def)
qed

text \<open>Within the 64-bit range the code's arithmetic is the reference minus what was already taken back.\<close>

lemma reversal_amount_eq:
  assumes sp: "small_price (pu_Credits p) (pu_AmountMinor p)"
    and rv: "0 \<le> pu_ReversedCredits p" "pu_ReversedCredits p \<le> pu_Credits p"
  shows "reversal_amount p e =
         reversal_target (pu_Credits p) (pu_AmountMinor p) (ev_ReversedMinor e) - pu_ReversedCredits p"
proof -
  let ?c = "pu_Credits p" and ?a = "pu_AmountMinor p" and ?m = "min (ev_ReversedMinor e) (pu_AmountMinor p)"
  have c: "0 < ?c" and a: "0 < ?a" and ca: "?c * ?a + ?a \<le> max_int64" using sp by (auto simp: small_price_def)
  have cle: "?c \<le> max_int64" using small_priceD [OF sp] by simp
  have diff: "in64 (x - pu_ReversedCredits p)" if "0 \<le> x" "x \<le> ?c" for x
    using that rv cle by (auto simp: in64_def max_int64_def)
  show ?thesis
  proof (cases "ev_ReversedMinor e > 0")
    case True
    then have m: "0 < ?m" "?m \<le> ?a" using a by auto
    have cm: "?c * ?m \<le> ?c * ?a" "0 \<le> ?c * ?m" using m c by (simp_all add: mult_left_mono)
    have w1: "wrap64 (?c * ?m) = ?c * ?m" "wrap64 (?c * ?m + ?a) = ?c * ?m + ?a"
      "wrap64 (?c * ?m + ?a - 1) = ?c * ?m + ?a - 1" "in64 (?c * ?m + ?a - 1)"
      using cm ca a by (auto intro!: wrap64_id simp: in64_def max_int64_def)
    have "go_div (?c * ?m + ?a - 1) ?a = (?c * ?m + ?a - 1) div ?a"
      using w1(4) cm a by (intro go_div_nonneg) auto
    also have "\<dots> = reversal_target ?c ?a (ev_ReversedMinor e)"
      using True a by (simp add: ceil_div reversal_target_def)
    finally have g: "go_div (?c * ?m + ?a - 1) ?a = reversal_target ?c ?a (ev_ReversedMinor e)" .
    have "in64 (reversal_target ?c ?a (ev_ReversedMinor e) - pu_ReversedCredits p)"
      using reversal_target_bounds [OF c a, of "ev_ReversedMinor e"] by (intro diff) auto
    then show ?thesis using True by (simp add: reversal_amount_def w1 g wrap64_id)
  next
    case False
    then show ?thesis using diff [of ?c] c by (simp add: reversal_amount_def reversal_target_def wrap64_id)
  qed
qed

section \<open>The booking inside the transaction\<close>

lemma newID_Inl: "newID w = (Inl e, w') \<Longrightarrow> e \<noteq> ErrDuplicateGrant"
  by (auto simp: newID_def split: if_splits)

lemma insert_ledger_stmt_Inl: "stmt (insert_ledger t) w = (Inl e, w') \<Longrightarrow> e \<noteq> ErrDuplicateGrant"
  by (auto simp: stmt_def Let_def insert_ledger_def split: option.splits if_splits)

lemma insert_ledger_stmt_Inr: "stmt (insert_ledger t) w = (Inr n, w') \<Longrightarrow> 0 < n"
  by (auto simp: stmt_Inr insert_ledger_Inr)

lemma upsert_stmt_Inl: "stmt (upsert_account u a ts) w = (Inl e, w') \<Longrightarrow> e \<noteq> ErrDuplicateGrant"
  by (auto simp: stmt_def Let_def upsert_account_def bump_account_def split: option.splits if_splits)

lemma adjust_body_duplicate:
  assumes "adjust_body u n src rsn k typ w = (Inl ErrDuplicateGrant, w')"
  shows "db w' = db w \<and> key_used (db w) k"
proof -
  let ?q = "query (\<lambda>d. Inr (count_where (\<lambda>t. t_idempotency_key t = Some k) (credit_transactions d))) w"
  obtain c w1 where q: "?q = (c, w1)" by fastforce
  show ?thesis
  proof (cases c)
    case (Inl e)
    with q assms show ?thesis
      by (auto simp: adjust_body_def bind_io_def query_def stmt_def Let_def split: option.splits if_splits)
  next
    case (Inr m)
    with q have m: "m = count_where (\<lambda>t. t_idempotency_key t = Some k) (credit_transactions (db w))" and d: "db w1 = db w"
      by (auto simp: query_Inr)
    show ?thesis
    proof (cases "m > 0")
      case True
      then have "adjust_body u n src rsn k typ w = (Inl ErrDuplicateGrant, w1)"
        using q Inr by (simp add: adjust_body_def bind_io_def throw_io_def)
      with assms True m d show ?thesis by (auto simp: key_used_def list_ex_iff)
    next
      case False
      with assms q Inr show ?thesis
        by (auto simp: adjust_body_def bind_io_def read_io_def return_io_def dest!: newID_Inl insert_ledger_stmt_Inl upsert_stmt_Inl
            insert_ledger_stmt_Inr split: prod.splits sum.splits if_splits)
    qed
  qed
qed

text \<open>A keyed posting: the key was used and nothing happened, or one fresh row with the given content was posted.\<close>

definition keyed_post :: "string \<Rightarrow> int \<Rightarrow> string \<Rightarrow> string \<Rightarrow> string \<Rightarrow> database \<Rightarrow> database \<Rightarrow> bool" where
  "keyed_post u n typ rsn k d d' \<longleftrightarrow>
     key_used d k \<and> d' = d \<or>
     (\<exists>t ts. fresh_row t d \<and> d' = posted t ts d \<and> t_user_id t = u \<and> t_amount t = n \<and> t_type t = typ \<and>
        t_reference_id t = None \<and> t_idempotency_key t = Some k \<and> t_metadata t = Some [(''reason'', rsn)])"

lemma adjustTx_post:
  assumes "ignore_duplicate (adjustTx u n src rsn k typ) w = (Inr x, w')"
  shows "keyed_post u n typ rsn k (db w) (db w')"
proof -
  obtain r w1 where run: "adjustTx u n src rsn k typ w = (r, w1)" by fastforce
  have body: "adjust_body u n src rsn k typ w = (r, w1) \<or> (\<exists>e. r = Inl e \<and> e \<noteq> ErrDuplicateGrant)"
  proof (cases "requireAll (pick w) (adjust_ids u src rsn k)")
    case None
    then show ?thesis using run by (simp add: adjustTx_def bind_io_def read_io_def check_io_def)
  next
    case (Some e)
    then have "e \<noteq> ErrDuplicateGrant"
      using requireAll_Some [OF Some] by (auto simp: requireIdentifier_def split: if_splits)
    then show ?thesis using run Some by (auto simp: adjustTx_def bind_io_def read_io_def check_io_def)
  qed
  show ?thesis
  proof (cases r)
    case (Inl e)
    with assms run have "e = ErrDuplicateGrant" "w' = w1"
      by (auto simp: ignore_duplicate_def bind_io_def try_io_def return_io_def throw_io_def split: if_splits)
    then show ?thesis using body Inl by (auto dest: adjust_body_duplicate simp: keyed_post_def)
  next
    case (Inr y)
    with assms run have w': "w' = w1" by (simp add: ignore_duplicate_def bind_io_def try_io_def return_io_def)
    from body Inr have b: "adjust_body u n src rsn k typ w = (Inr y, w1)" by auto
    let ?t = "adjust_row u n src rsn k typ w"
    from adjust_body_Inr [OF b] have "fresh_row ?t (db w) \<and> db w1 = posted ?t (now w) (db w)" .
    moreover have "t_metadata ?t = Some [(''reason'', rsn)]" by (simp add: adjust_row_def)
    ultimately show ?thesis unfolding keyed_post_def w'
      by (intro disjI2 exI [of _ ?t] exI [of _ "now w"]) simp
  qed
qed

definition booked :: "Event \<Rightarrow> Purchase \<Rightarrow> database \<Rightarrow> database \<Rightarrow> bool" where
  "booked e p d d' \<longleftrightarrow>
     (if ev_Status e = ''paid''
      then keyed_post (pu_UserID p) (pu_Credits p) ''grant'' (''purchase '' @ pu_ID p)
             (payment_key (ev_Provider e) (ev_PaymentID e)) d d'
      else if reversal_amount p e > 0
      then keyed_post (pu_UserID p) (wrap64 (- reversal_amount p e)) ''refund'' (''reversal '' @ pu_ID p)
             (reversal_key (ev_Provider e) (ev_EventID e)) d d'
      else d' = d)"

lemma ignore_throw: "ignore_duplicate (throw_io (ErrMsg m)) w = (Inr x, w') \<Longrightarrow> False"
  by (simp add: ignore_duplicate_def bind_io_def try_io_def throw_io_def)

lemma book_event_Inr:
  assumes "book_event GrantTx RefundTx e p w = (Inr e', w')"
  shows "booked e p (db w) (db w') \<and>
         e' = (if ev_Status e = ''paid'' then e else e\<lparr>ev_ReversedCredits := reversal_amount p e\<rparr>)"
proof (cases "ev_Status e = ''paid''")
  case True
  from assms True have run: "ignore_duplicate (GrantTx (pu_UserID p) (pu_Credits p) (ev_Provider e) (''purchase '' @ pu_ID p)
      (payment_key (ev_Provider e) (ev_PaymentID e))) w = (Inr (), w')" and e': "e' = e"
    by (auto simp: book_event_def io_inv)
  then show ?thesis using True
    by (auto simp: booked_def GrantTx_def dest: adjustTx_post ignore_throw split: if_splits)
next
  case False
  show ?thesis
  proof (cases "reversal_amount p e > 0")
    case pos: True
    from assms False pos have "ignore_duplicate (RefundTx (pu_UserID p) (reversal_amount p e) (ev_Provider e)
        (''reversal '' @ pu_ID p) (reversal_key (ev_Provider e) (ev_EventID e))) w = (Inr (), w')"
      and "e' = e\<lparr>ev_ReversedCredits := reversal_amount p e\<rparr>"
      by (auto simp: book_event_def Let_def io_inv)
    then show ?thesis using False pos
      by (auto simp: booked_def RefundTx_def dest: adjustTx_post)
  next
    case neg: False
    with assms False show ?thesis by (auto simp: book_event_def Let_def io_inv booked_def)
  qed
qed

section \<open>The effect of processing one event\<close>

text \<open>
  What a run of \<open>processOne\<close> leaves behind. \<open>put_off\<close>: only the bookkeeping fields of the event's row moved, and its
  status is not \<open>applied\<close>. \<open>fulfilled\<close>: the booking, the purchase and the event were written together.
\<close>

definition same_fact :: "event_row \<Rightarrow> event_row \<Rightarrow> bool" where
  "same_fact r r' \<longleftrightarrow>
     e_provider r' = e_provider r \<and> e_event_id r' = e_event_id r \<and> e_purchase_id r' = e_purchase_id r \<and>
     e_payment_id r' = e_payment_id r \<and> e_status r' = e_status r \<and> e_payload_hash r' = e_payload_hash r \<and>
     e_received_at r' = e_received_at r \<and> e_reversed_minor r' = e_reversed_minor r"

definition put_off :: "Event \<Rightarrow> database \<Rightarrow> database \<Rightarrow> bool" where
  "put_off e d d' \<longleftrightarrow>
     d' = d \<or>
     (\<exists>g. (\<forall>r. same_fact r (g r) \<and> e_process_status (g r) \<noteq> ''applied'') \<and>
        d' = d\<lparr>payment_events := update_where (\<lambda>r. is_event e r \<and> waiting r) g (payment_events d)\<rparr>)"

definition purchase_update :: "Event \<Rightarrow> int \<Rightarrow> purchase_row \<Rightarrow> purchase_row \<Rightarrow> purchase_row" where
  "purchase_update e ts p =
     (if ev_Status e = ''paid'' then paid_row e ts
      else reversed_row e (newReversed (purchase_of_row p) (reversal_amount (purchase_of_row p) e)) ts)"

definition no_clash :: "Event \<Rightarrow> purchase_row \<Rightarrow> database \<Rightarrow> bool" where
  "no_clash e p d \<longleftrightarrow>
     (\<forall>q \<in> set (payment_purchases d).
        p_id q \<noteq> p_id p \<longrightarrow> p_provider q = p_provider p \<longrightarrow> p_payment_id q \<noteq> Some (ev_PaymentID e))"

definition fulfilled :: "Event \<Rightarrow> int \<Rightarrow> database \<Rightarrow> database \<Rightarrow> bool" where
  "fulfilled e ts d d' \<longleftrightarrow>
     (\<exists>p d1. p \<in> set (payment_purchases d) \<and> p_id p = ev_PurchaseID e \<and> \<not> identity_conflict e (purchase_of_row p) \<and>
        no_clash e p d \<and>
        (\<exists>r \<in> set (payment_events d). is_event e r \<and> waiting r) \<and> booked e (purchase_of_row p) d d1 \<and>
        d' = d1\<lparr>payment_purchases := update_where (\<lambda>x. p_id x = ev_PurchaseID e) (purchase_update e ts p) (payment_purchases d),
                payment_events := update_where (\<lambda>r. is_event e r \<and> waiting r) (applied_row ts \<circ> claim_row ts)
                  (payment_events d)\<rparr>)"

lemma same_fact_rows:
  "same_fact r (claim_row ts r)" "same_fact r (fail_row c r)" "same_fact r (applied_row ts r)" "same_fact r (expire_lease r)"
  by (simp_all add: same_fact_def claim_row_def fail_row_def applied_row_def expire_lease_def)

lemma same_fact_trans: "same_fact a b \<Longrightarrow> same_fact b c \<Longrightarrow> same_fact a c"
  by (simp add: same_fact_def)

lemma keyed_post_events:
  "keyed_post u n typ rsn k (d\<lparr>payment_events := x\<rparr>) d' \<Longrightarrow>
     \<exists>d1. keyed_post u n typ rsn k d d1 \<and> d' = d1\<lparr>payment_events := x\<rparr>"
proof (unfold keyed_post_def, elim disjE conjE exE)
  fix t ts
  assume "fresh_row t (d\<lparr>payment_events := x\<rparr>)" "d' = posted t ts (d\<lparr>payment_events := x\<rparr>)" "t_user_id t = u" "t_amount t = n"
    "t_type t = typ" "t_reference_id t = None" "t_idempotency_key t = Some k" "t_metadata t = Some [(''reason'', rsn)]"
  then show "\<exists>d1. (key_used d k \<and> d1 = d \<or> (\<exists>t ts. fresh_row t d \<and> d1 = posted t ts d \<and> t_user_id t = u \<and> t_amount t = n \<and>
      t_type t = typ \<and> t_reference_id t = None \<and> t_idempotency_key t = Some k \<and> t_metadata t = Some [(''reason'', rsn)])) \<and>
      d' = d1\<lparr>payment_events := x\<rparr>"
    by (intro exI [of _ "posted t ts d"] conjI disjI2 exI [of _ t] exI [of _ ts])
      (simp_all add: fresh_row_def key_used_def posted_def split: option.splits)
qed (auto simp: key_used_def)

lemma booked_events:
  "booked e p (d\<lparr>payment_events := x\<rparr>) d' \<Longrightarrow> \<exists>d1. booked e p d d1 \<and> d' = d1\<lparr>payment_events := x\<rparr>"
  unfolding booked_def by (auto split: if_splits dest: keyed_post_events)

lemma keyed_post_other:
  "keyed_post u n typ rsn k d d' \<Longrightarrow>
     payment_purchases d' = payment_purchases d \<and> payment_events d' = payment_events d"
  by (auto simp: keyed_post_def)

lemma booked_other: "booked e p d d' \<Longrightarrow> payment_purchases d' = payment_purchases d \<and> payment_events d' = payment_events d"
  unfolding booked_def by (auto split: if_splits dest: keyed_post_other)

text \<open>The steps of a run, one by one.\<close>

definition events_wf :: "database \<Rightarrow> bool" where
  "events_wf d \<longleftrightarrow> distinct (map (\<lambda>r. (e_provider r, e_event_id r)) (payment_events d))"

lemma events_wf_same: "events_wf d \<Longrightarrow> x \<in> set (payment_events d) \<Longrightarrow> y \<in> set (payment_events d) \<Longrightarrow>
    is_event e x \<Longrightarrow> is_event e y \<Longrightarrow> x = y"
  unfolding events_wf_def is_event_def
  by (rule key_inj [where key = "\<lambda>r. (e_provider r, e_event_id r)"]) auto

lemma update_claimed:
  assumes "events_wf d" "r \<in> set (payment_events d)" "is_event e r" "waiting r"
  shows "update_where (is_event e) f (update_where (\<lambda>r. is_event e r \<and> waiting r) (claim_row ts) (payment_events d)) =
         update_where (\<lambda>r. is_event e r \<and> waiting r) (f \<circ> claim_row ts) (payment_events d)"
proof -
  have "is_event e x \<longrightarrow> waiting x" if "x \<in> set (payment_events d)" for x
    using events_wf_same [OF assms(1) that assms(2)] assms(3,4) by auto
  moreover have "is_event e (claim_row ts x) = is_event e x" for x by (simp add: is_event_def claim_row_def)
  ultimately show ?thesis by (simp add: update_where_def)
qed

lemma fail_any:
  assumes "fail e cause w = (x, w')"
  shows "x = Inl cause \<and> (db w' = db w \<or>
     db w' = (db w)\<lparr>payment_events := update_where (is_event e) (fail_row cause) (payment_events (db w))\<rparr>)"
  using assms by (auto simp: fail_def bind_io_def try_io_def throw_io_def stmt_def Let_def update_events_def
      split: option.splits if_splits)

lemma fail_locked_any: "fail_locked e cause w = (x, w') \<Longrightarrow> x = Inl cause \<and> db w' = db w"
  by (auto simp: fail_locked_def bind_io_def try_io_def throw_io_def stmt_def Let_def split: option.splits if_splits)

lemma PurchaseOf_any:
  assumes "PurchaseOf pid w = (x, w')"
  shows "db w' = db w \<and> (\<forall>p. x = Inr p \<longrightarrow> (\<exists>row \<in> set (payment_purchases (db w)). p_id row = pid \<and> p = purchase_of_row row))"
proof -
  obtain y w1 where q: "query (\<lambda>d. row_or_none (find (\<lambda>p. p_id p = pid) (payment_purchases d))) w = (y, w1)" by fastforce
  show ?thesis
  proof (cases y)
    case (Inl e)
    then show ?thesis using assms q query_any [OF q] by (auto simp: PurchaseOf_def bind_io_def)
  next
    case (Inr row)
    then have "find (\<lambda>p. p_id p = pid) (payment_purchases (db w)) = Some row" using q by (simp add: query_Inr row_or_none_Inr)
    then show ?thesis using assms q Inr query_any [OF q] find_SomeD by (fastforce simp: PurchaseOf_def bind_io_def return_io_def)
  qed
qed

lemma process_tx_Commit:
  assumes "process_tx e p ts w = (Inr (Commit a), w')"
  shows "\<exists>e' w1. book_event GrantTx RefundTx e p w = (Inr e', w1) \<and> write_event e' p ts w1 = (Inr (), w')"
proof -
  from assms obtain r w1 where b: "book_event GrantTx RefundTx e p w = (r, w1)"
    and k: "(case r of Inl err \<Rightarrow> return_io (Abandon (LedgerFailed err)) | Inr e' \<Rightarrow> write_tx e' p ts) w1 = (Inr (Commit a), w')"
    by (auto simp: process_tx_def io_inv)
  show ?thesis
  proof (cases r)
    case (Inl err)
    with k show ?thesis by (simp add: return_io_def)
  next
    case (Inr e')
    with k obtain r' w2 where w: "write_event e' p ts w1 = (r', w2)"
      and "(case r' of Inl err \<Rightarrow> return_io (Abandon (WriteFailed err)) | Inr _ \<Rightarrow> return_io (Commit Applied)) w2 = (Inr (Commit a), w')"
      by (auto simp: write_tx_def io_inv)
    then have "r' = Inr ()" "w2 = w'" by (auto simp: return_io_def split: sum.splits)
    with b w Inr show ?thesis by blast
  qed
qed

lemma process_tx_Abandon: "process_tx e p ts w = (Inr (Abandon a), w') \<Longrightarrow> a \<noteq> Applied"
  by (auto simp: process_tx_def write_tx_def bind_io_def try_io_def return_io_def split: sum.splits prod.splits)

lemma write_event_Inr:
  assumes "write_event e p ts w = (Inr (), w')"
  defines "f \<equiv> (if ev_Status e = ''paid'' then paid_row e ts
        else reversed_row e (newReversed p (ev_ReversedCredits e)) ts)"
  shows "db w' = (db w)\<lparr>payment_purchases := update_where (\<lambda>x. p_id x = pu_ID p) f (payment_purchases (db w)),
      payment_events := update_where (is_event e) (applied_row ts) (payment_events (db w))\<rparr> \<and>
    (\<forall>x \<in> set (payment_purchases (db w)). \<forall>q \<in> set (payment_purchases (db w)). p_id x = pu_ID p \<longrightarrow>
       p_id q \<noteq> pu_ID p \<longrightarrow> p_provider q = p_provider x \<longrightarrow> p_payment_id q \<noteq> Some (ev_PaymentID e))"
proof -
  from assms(1) have "\<exists>n d1. update_purchase f (pu_ID p) (db w) = Inr (n, d1) \<and>
      db w' = d1\<lparr>payment_events := update_where (is_event e) (applied_row ts) (payment_events d1)\<rparr>"
    by (auto simp: write_event_def f_def io_inv update_events_def)
  then obtain n d1 where u: "update_purchase f (pu_ID p) (db w) = Inr (n, d1)"
    and w': "db w' = d1\<lparr>payment_events := update_where (is_event e) (applied_row ts) (payment_events d1)\<rparr>" by blast
  have pid: "p_payment_id (f x) = Some (ev_PaymentID e)" for x by (simp add: f_def paid_row_def reversed_row_def)
  from u have d1: "d1 = (db w)\<lparr>payment_purchases := update_where (\<lambda>x. p_id x = pu_ID p) f (payment_purchases (db w))\<rparr>"
    and free: "\<not> list_ex (\<lambda>x. p_id x = pu_ID p \<and> list_ex (\<lambda>q. p_id q \<noteq> pu_ID p \<and> p_provider q = p_provider x \<and>
       p_payment_id q \<noteq> None \<and> p_payment_id q = p_payment_id (f x)) (payment_purchases (db w))) (payment_purchases (db w))"
    by (auto simp: update_purchase_def split: if_splits)
  from free have "\<forall>x \<in> set (payment_purchases (db w)). \<forall>q \<in> set (payment_purchases (db w)). p_id x = pu_ID p \<longrightarrow>
       p_id q \<noteq> pu_ID p \<longrightarrow> p_provider q = p_provider x \<longrightarrow> p_payment_id q \<noteq> Some (ev_PaymentID e)"
    by (simp add: list_ex_iff pid) (metis option.distinct(1))
  then show ?thesis using w' d1 by simp
qed

text \<open>The whole run, on the credits service.\<close>

lemma put_off_fail:
  assumes wf: "events_wf d" and r: "r \<in> set (payment_events d)" "is_event e r" "waiting r"
    and d0: "d0 = d\<lparr>payment_events := update_where (\<lambda>r. is_event e r \<and> waiting r) (claim_row ts) (payment_events d)\<rparr>"
    and d': "d' = d0 \<or> d' = d0\<lparr>payment_events := update_where (is_event e) (fail_row c) (payment_events d0)\<rparr>"
  shows "put_off e d d'"
proof -
  have "d' = d\<lparr>payment_events := update_where (\<lambda>r. is_event e r \<and> waiting r) (claim_row ts) (payment_events d)\<rparr> \<or>
        d' = d\<lparr>payment_events := update_where (\<lambda>r. is_event e r \<and> waiting r) (fail_row c \<circ> claim_row ts) (payment_events d)\<rparr>"
    using d' unfolding d0 by (simp add: update_claimed [OF wf r])
  moreover have "same_fact r (claim_row ts r) \<and> e_process_status (claim_row ts r) \<noteq> ''applied''" for r
    by (simp add: same_fact_rows) (simp add: claim_row_def)
  moreover have "same_fact r ((fail_row c \<circ> claim_row ts) r) \<and> e_process_status ((fail_row c \<circ> claim_row ts) r) \<noteq> ''applied''" for r
    using same_fact_trans [OF same_fact_rows(1,2)] by (simp add: fail_row_def)
  ultimately show ?thesis unfolding put_off_def by blast
qed

lemma process_tx_fulfilled:
  assumes wf: "events_wf d" and r: "r \<in> set (payment_events d)" "is_event e r" "waiting r"
    and w: "db w = d\<lparr>payment_events := update_where (\<lambda>r. is_event e r \<and> waiting r) (claim_row ts) (payment_events d)\<rparr>"
    and p: "p \<in> set (payment_purchases d)" "p_id p = ev_PurchaseID e" "\<not> identity_conflict e (purchase_of_row p)"
    and run: "process_tx e (purchase_of_row p) ts w = (Inr (Commit a), w')"
  shows "fulfilled e ts d (db w')"
proof -
  let ?p = "purchase_of_row p"
  obtain e' w1 where b: "book_event GrantTx RefundTx e ?p w = (Inr e', w1)" and wr: "write_event e' ?p ts w1 = (Inr (), w')"
    using process_tx_Commit [OF run] by blast
  from book_event_Inr [OF b] have bk: "booked e ?p (db w) (db w1)"
    and e': "e' = (if ev_Status e = ''paid'' then e else e\<lparr>ev_ReversedCredits := reversal_amount ?p e\<rparr>)" by auto
  from booked_events [OF bk [unfolded w]] obtain d1 where bk1: "booked e ?p d d1" and w1: "db w1 = d1\<lparr>payment_events :=
      update_where (\<lambda>r. is_event e r \<and> waiting r) (claim_row ts) (payment_events d)\<rparr>" by blast
  have same: "payment_purchases d1 = payment_purchases d" using booked_other [OF bk1] by simp
  have ids: "pu_ID ?p = ev_PurchaseID e" using p(2) by (simp add: purchase_of_row_def)
  have ev: "is_event e' = is_event e" "ev_PaymentID e' = ev_PaymentID e" "ev_Status e' = ev_Status e"
    by (auto simp: e' is_event_def)
  have fu: "(if ev_Status e = ''paid'' then paid_row e' ts
        else reversed_row e' (newReversed ?p (ev_ReversedCredits e')) ts) = purchase_update e ts p"
    by (auto simp: e' purchase_update_def paid_row_def reversed_row_def)
  have "payment_events (db w1) = update_where (\<lambda>r. is_event e r \<and> waiting r) (claim_row ts) (payment_events d)"
    and "payment_purchases (db w1) = payment_purchases d" by (simp_all add: w1 same)
  note wr' = write_event_Inr [OF wr, unfolded ids ev this update_claimed [OF wf r], unfolded fu]
  have "no_clash e p d" using wr' p(1,2) unfolding no_clash_def by metis
  moreover have "db w' = d1\<lparr>payment_purchases := update_where (\<lambda>x. p_id x = ev_PurchaseID e) (purchase_update e ts p) (payment_purchases d),
      payment_events := update_where (\<lambda>r. is_event e r \<and> waiting r) (applied_row ts \<circ> claim_row ts) (payment_events d)\<rparr>"
    using wr' by (simp add: w1)
  ultimately show ?thesis unfolding fulfilled_def using p bk1 r by blast
qed

text \<open>A transaction that did not apply the event left the tables as they were.\<close>

lemma process_transaction:
  assumes "transaction (process_tx e p ts) w = (a, w')"
  obtains (applied) w1 where "a = Inr Applied" "process_tx e p ts (w\<lparr>faults := tl (faults w)\<rparr>) = (Inr (Commit Applied), w1)"
      "db w' = db w1"
    | (put_back) "a \<noteq> Inr Applied" "db w' = db w"
proof (cases a)
  case (Inl err)
  then have "transaction (process_tx e p ts) w = (Inl err, w')" using assms by simp
  then show ?thesis using that(2) transaction_Inl Inl by blast
next
  case (Inr b)
  with assms have "transaction (process_tx e p ts) w = (Inr b, w')" by simp
  then show ?thesis
  proof (cases rule: transaction_Inr)
    case (commit w1)
    then have "b = Applied"
      by (auto simp: process_tx_def write_tx_def bind_io_def try_io_def return_io_def split: sum.splits prod.splits)
    then show ?thesis using that(1) [of w1] commit Inr by simp
  next
    case (abandon w1)
    then show ?thesis using that(2) process_tx_Abandon Inr by auto
  qed
qed

lemma finish_event_any:
  assumes "finish_event e a w = (x, w')" "a \<noteq> Inr Applied"
  shows "\<exists>c. db w' = db w \<or> db w' = (db w)\<lparr>payment_events := update_where (is_event e) (fail_row c) (payment_events (db w))\<rparr>"
  using assms unfolding finish_event_def
  by (auto split: sum.splits applied.splits dest!: fail_any fail_locked_any)

lemma atomic_branch:
  assumes wf: "events_wf d" and r: "r \<in> set (payment_events d)" "is_event e r" "waiting r"
    and w: "db w = d\<lparr>payment_events := update_where (\<lambda>r. is_event e r \<and> waiting r) (claim_row ts) (payment_events d)\<rparr>"
    and p: "p \<in> set (payment_purchases d)" "p_id p = ev_PurchaseID e" "\<not> identity_conflict e (purchase_of_row p)"
    and run: "bind_io (try_io (transaction (process_tx e (purchase_of_row p) ts))) (finish_event e) w = (x, w')"
  shows "put_off e d (db w') \<or> x = Inr () \<and> fulfilled e ts d (db w')"
proof -
  obtain a w1 where tx: "transaction (process_tx e (purchase_of_row p) ts) w = (a, w1)" by fastforce
  have fin: "finish_event e a w1 = (x, w')" using run tx by (simp add: bind_io_def try_io_def)
  from tx show ?thesis
  proof (cases rule: process_transaction)
    case (applied w2)
    have "fulfilled e ts d (db w2)" using process_tx_fulfilled [OF wf r _ p applied(2)] w by simp
    then show ?thesis using fin applied by (simp add: finish_event_def return_io_def)
  next
    case put_back
    from finish_event_any [OF fin put_back(1)] show ?thesis unfolding put_back(2)
      by (elim exE) (rule disjI1, erule put_off_fail [OF wf r w])
  qed
qed

lemma processOne_effect:
  assumes cs: "ps_ledger s = CreditsService" and wf: "events_wf (db w)" and run: "processOne s e w = (x, w')"
  shows "put_off e (db w) (db w') \<or> x = Inr () \<and> fulfilled e (pnow w) (db w) (db w')"
proof -
  let ?claim = "update_events (\<lambda>r. is_event e r \<and> waiting r) (claim_row (pnow w))"
  obtain n w1 where c: "stmt ?claim w = (n, w1)" by fastforce
  note unfold = processOne_def bind_io_def read_io_def try_io_def return_io_def
  show ?thesis
  proof (cases n)
    case (Inl err)
    then have "w' = w1" using run c by (auto simp: unfold)
    then show ?thesis using stmt_Inl [OF c [unfolded Inl]] by (simp add: put_off_def)
  next
    case (Inr k)
    then have k: "k = count_where (\<lambda>r. is_event e r \<and> waiting r) (payment_events (db w))"
      and d1: "db w1 = (db w)\<lparr>payment_events := update_where (\<lambda>r. is_event e r \<and> waiting r) (claim_row (pnow w)) (payment_events (db w))\<rparr>"
      using c by (auto simp: stmt_Inr update_events_def)
    show ?thesis
    proof (cases "k = 0")
      case True
      then have "w' = w1" using run c Inr by (auto simp: unfold)
      moreover have "db w1 = db w" using d1 True k by (simp add: update_where_id)
      ultimately show ?thesis by (simp add: put_off_def)
    next
      case False
      then obtain r where r: "r \<in> set (payment_events (db w))" "is_event e r" "waiting r" using k by auto
      obtain l w2 where l: "PurchaseOf (ev_PurchaseID e) w1 = (l, w2)" by fastforce
      have d2: "db w2 = db w1" using PurchaseOf_any [OF l] by simp
      note failed = put_off_fail [OF wf r d1 conjunct2 [OF fail_any [of e _ w2 x w', unfolded d2]]]
      show ?thesis
      proof (cases l)
        case (Inl err)
        then have "fail e err w2 = (x, w')" using run c Inr False l by (simp add: unfold)
        from failed [OF this] show ?thesis ..
      next
        case p0: (Inr p0)
        with PurchaseOf_any [OF l] d1 obtain p where p: "p \<in> set (payment_purchases (db w))" "p_id p = ev_PurchaseID e"
          and pp: "p0 = purchase_of_row p" by auto
        show ?thesis
        proof (cases "identity_conflict e p0")
          case True
          then have "fail e (ErrMsg ''payments: payment identity conflict'') w2 = (x, w')"
            using run c Inr False l p0 by (simp add: unfold)
          from failed [OF this] show ?thesis ..
        next
          case ok: False
          then have "bind_io (try_io (transaction (process_tx e (purchase_of_row p) (pnow w)))) (finish_event e) w2 = (x, w')"
            using run c Inr False l p0 cs pp by (simp add: unfold)
          then show ?thesis using ok pp d1 d2 by (intro atomic_branch [OF wf r _ p]) simp_all
        qed
      qed
    qed
  qed
qed

section \<open>The invariant of the purchases\<close>

definition grants_for :: "database \<Rightarrow> string \<Rightarrow> int" where
  "grants_for d pid =
     sum_where (\<lambda>t. t_type t = ''grant'' \<and> t_metadata t = Some [(''reason'', ''purchase '' @ pid)]) t_amount (credit_transactions d)"

definition refunds_for :: "database \<Rightarrow> string \<Rightarrow> int" where
  "refunds_for d pid =
     sum_where (\<lambda>t. t_type t = ''refund'' \<and> t_metadata t = Some [(''reason'', ''reversal '' @ pid)]) (\<lambda>t. - t_amount t)
       (credit_transactions d)"

text \<open>The purchase a ledger row was booked for, by its reason, and the invariant that such a row belongs to the buyer.\<close>

definition purchase_ref :: "ledger_row \<Rightarrow> string option" where
  "purchase_ref t =
     (case t_metadata t of
        Some [(key, rsn)] \<Rightarrow>
          if key \<noteq> ''reason'' then None
          else if t_type t = ''grant'' \<and> prefix ''purchase '' rsn \<or> t_type t = ''refund'' \<and> prefix ''reversal '' rsn
          then Some (drop 9 rsn) else None
      | _ \<Rightarrow> None)"

lemma purchase_ref_iff:
  "purchase_ref t = Some pid \<longleftrightarrow>
     t_type t = ''grant'' \<and> t_metadata t = Some [(''reason'', ''purchase '' @ pid)] \<or>
     t_type t = ''refund'' \<and> t_metadata t = Some [(''reason'', ''reversal '' @ pid)]"
  by (auto simp: purchase_ref_def prefix_def split: option.splits list.splits if_splits)

definition owners_ok :: "database \<Rightarrow> bool" where
  "owners_ok d \<longleftrightarrow>
     (\<forall>t \<in> set (credit_transactions d). \<forall>pid. purchase_ref t = Some pid \<longrightarrow>
        t_reference_id t = None \<and> (\<exists>p \<in> set (payment_purchases d). p_id p = pid \<and> p_user_id p = t_user_id t))"

lemma owners_ok_grow:
  assumes "owners_ok d" "credit_transactions d' = credit_transactions d @ ts"
    "\<And>p. p \<in> set (payment_purchases d) \<Longrightarrow> \<exists>p' \<in> set (payment_purchases d'). p_id p' = p_id p \<and> p_user_id p' = p_user_id p"
    "\<And>t pid. t \<in> set ts \<Longrightarrow> purchase_ref t = Some pid \<Longrightarrow>
       t_reference_id t = None \<and> (\<exists>p \<in> set (payment_purchases d). p_id p = pid \<and> p_user_id p = t_user_id t)"
  shows "owners_ok d'"
  unfolding owners_ok_def
proof (intro ballI allI impI)
  fix t pid assume t: "t \<in> set (credit_transactions d')" "purchase_ref t = Some pid"
  then have "t_reference_id t = None \<and> (\<exists>p \<in> set (payment_purchases d). p_id p = pid \<and> p_user_id p = t_user_id t)"
    using assms(1,2,4) by (auto simp: owners_ok_def)
  then show "t_reference_id t = None \<and> (\<exists>p \<in> set (payment_purchases d'). p_id p = pid \<and> p_user_id p = t_user_id t)"
    using assms(3) by fastforce
qed

text \<open>The ledger holds exactly what the purchase's row says.\<close>

definition purchase_ok :: "database \<Rightarrow> purchase_row \<Rightarrow> bool" where
  "purchase_ok d p \<longleftrightarrow>
     small_price (p_credits p) (p_amount_minor p) \<and> 0 \<le> p_reversed_credits p \<and> p_reversed_credits p \<le> p_credits p \<and>
     grants_for d (p_id p) = (if p_fulfilled_at p = None then 0 else p_credits p) \<and>
     refunds_for d (p_id p) = p_reversed_credits p \<and>
     (p_fulfilled_at p \<noteq> None \<longrightarrow>
        (\<exists>x. x \<noteq> [] \<and> p_payment_id p = Some x \<and> key_used d (payment_key (p_provider p) x)))"

definition plain :: "string \<Rightarrow> bool" where
  "plain provider \<longleftrightarrow> CHR '':'' \<notin> set provider"

definition events_ok :: "database \<Rightarrow> bool" where
  "events_ok d \<longleftrightarrow> events_wf d \<and> (\<forall>r \<in> set (payment_events d). e_payment_id r \<noteq> [] \<and> plain (e_provider r))"

definition keys_ok :: "database \<Rightarrow> bool" where
  "keys_ok d \<longleftrightarrow>
     (\<forall>prov x. plain prov \<longrightarrow> key_used d (payment_key prov x) \<longrightarrow>
        (\<exists>p \<in> set (payment_purchases d). p_provider p = prov \<and> p_payment_id p = Some x \<and> p_fulfilled_at p \<noteq> None)) \<and>
     (\<forall>prov x. plain prov \<longrightarrow> key_used d (reversal_key prov x) \<longrightarrow>
        (\<exists>r \<in> set (payment_events d). e_provider r = prov \<and> e_event_id r = x \<and> e_process_status r = ''applied''))"

definition pay_inv :: "database \<Rightarrow> bool" where
  "pay_inv d \<longleftrightarrow>
     credits_inv d \<and> events_ok d \<and> keys_ok d \<and> owners_ok d \<and> distinct (map p_id (payment_purchases d)) \<and>
     (\<forall>p \<in> set (payment_purchases d). purchase_ok d p) \<and>
     (\<forall>pid. pid \<notin> p_id ` set (payment_purchases d) \<longrightarrow> grants_for d pid = 0 \<and> refunds_for d pid = 0)"

lemmas pay_inv_defs = pay_inv_def events_ok_def keys_ok_def

lemma credits_inv_payment_tables [simp]:
  "credits_inv (d\<lparr>payment_events := es\<rparr>) = credits_inv d" "credits_inv (d\<lparr>payment_purchases := ps\<rparr>) = credits_inv d"
  "credits_inv (d\<lparr>payment_purchases := ps, payment_events := es\<rparr>) = credits_inv d"
  "credits_inv (d\<lparr>payment_subscriptions := qs\<rparr>) = credits_inv d"
  by (simp_all add: credits_inv_def ledger_inv_def ledger_wf_def resv_inv_def balance_of_def ledger_sum_def row_ok_def
      held_def ref_sum_def has_account_def cong: option.case_cong)

lemma payment_table_simps [simp]:
  "key_used (d\<lparr>payment_events := es\<rparr>) k = key_used d k" "key_used (d\<lparr>payment_purchases := ps\<rparr>) k = key_used d k"
  "grants_for (d\<lparr>payment_events := es\<rparr>) x = grants_for d x" "grants_for (d\<lparr>payment_purchases := ps\<rparr>) x = grants_for d x"
  "refunds_for (d\<lparr>payment_events := es\<rparr>) x = refunds_for d x" "refunds_for (d\<lparr>payment_purchases := ps\<rparr>) x = refunds_for d x"
  "purchase_ok (d\<lparr>payment_events := es\<rparr>) p = purchase_ok d p" "purchase_ok (d\<lparr>payment_purchases := ps\<rparr>) p = purchase_ok d p"
  "owners_ok (d\<lparr>payment_events := es\<rparr>) = owners_ok d"
  by (simp_all add: key_used_def grants_for_def refunds_for_def purchase_ok_def owners_ok_def)

lemma split_at_colon:
  assumes "plain a" "plain a'" "a @ '':'' @ b = a' @ '':'' @ b'"
  shows "a = a' \<and> b = b'"
proof -
  have "takeWhile (\<lambda>c. c \<noteq> CHR '':'') (x @ '':'' @ y) = x" if "plain x" for x y
    using that by (induction x) (auto simp: plain_def)
  with assms have "a = a'" by metis
  with assms(3) show ?thesis by simp
qed

lemma key_inject:
  "plain a \<Longrightarrow> plain a' \<Longrightarrow> payment_key a b = payment_key a' b' \<longleftrightarrow> a = a' \<and> b = b'"
  "plain a \<Longrightarrow> plain a' \<Longrightarrow> reversal_key a b = reversal_key a' b' \<longleftrightarrow> a = a' \<and> b = b'"
  "payment_key a b \<noteq> reversal_key a' b'" "reversal_key a' b' \<noteq> payment_key a b"
  by (auto simp: payment_key_def reversal_key_def dest: split_at_colon [simplified])

text \<open>Bookkeeping on events that are not applied keeps the invariant.\<close>

lemma pay_inv_bookkeeping:
  assumes inv: "pay_inv d" and g: "\<And>r. same_fact r (g r)" and q: "\<And>r. q r \<Longrightarrow> e_process_status r \<noteq> ''applied''"
  shows "pay_inv (d\<lparr>payment_events := update_where q g (payment_events d)\<rparr>)"
proof -
  let ?d = "d\<lparr>payment_events := update_where q g (payment_events d)\<rparr>"
  have key: "map (\<lambda>r. (e_provider r, e_event_id r)) (update_where q g (payment_events d)) =
             map (\<lambda>r. (e_provider r, e_event_id r)) (payment_events d)"
    using g by (intro map_update_where) (simp add: same_fact_def)
  have "e_payment_id r \<noteq> [] \<and> plain (e_provider r)" if "r \<in> set (payment_events ?d)" for r
    using that inv g unfolding pay_inv_defs by (auto simp: set_update_where same_fact_def split: if_splits)
  then have "events_ok ?d" using inv key by (simp add: pay_inv_defs events_wf_def)
  moreover have "r \<in> set (payment_events ?d)" if "r \<in> set (payment_events d)" "e_process_status r = ''applied''" for r
    using that q by (force simp: set_update_where)
  then have "keys_ok ?d" using inv unfolding pay_inv_defs by (simp add: del: update_where_def) blast
  ultimately show ?thesis using inv by (simp add: pay_inv_def)
qed

lemma pay_inv_put_off: "pay_inv d \<Longrightarrow> put_off e d d' \<Longrightarrow> pay_inv d'"
  unfolding put_off_def by (auto intro!: pay_inv_bookkeeping simp: waiting_def)

text \<open>Writing the purchase and the event after a booking: what the booking has to give.\<close>

lemma purchase_update_simps [simp]:
  "p_id (purchase_update e ts p x) = p_id x" "p_user_id (purchase_update e ts p x) = p_user_id x" "p_provider (purchase_update e ts p x) = p_provider x"
  "p_credits (purchase_update e ts p x) = p_credits x" "p_amount_minor (purchase_update e ts p x) = p_amount_minor x"
  "p_payment_id (purchase_update e ts p x) = Some (ev_PaymentID e)"
  "p_fulfilled_at (purchase_update e ts p x) = (if ev_Status e = ''paid'' then Some ts else p_fulfilled_at x)"
  "p_reversed_credits (purchase_update e ts p x) = (if ev_Status e = ''paid'' then p_reversed_credits x
     else wrap64 (p_reversed_credits p + max (reversal_amount (purchase_of_row p) e) 0))"
  by (simp_all add: purchase_update_def paid_row_def reversed_row_def newReversed_def purchase_of_row_def)

definition books :: "Event \<Rightarrow> purchase_row \<Rightarrow> int \<Rightarrow> database \<Rightarrow> database \<Rightarrow> bool" where
  "books e p ts d d1 \<longleftrightarrow>
     credits_inv d1 \<and> payment_purchases d1 = payment_purchases d \<and> payment_events d1 = payment_events d \<and>
     (\<forall>pid. pid \<noteq> p_id p \<longrightarrow> grants_for d1 pid = grants_for d pid \<and> refunds_for d1 pid = refunds_for d pid) \<and>
     (\<forall>k. key_used d k \<longrightarrow> key_used d1 k) \<and>
     (\<forall>k. key_used d1 k \<longrightarrow> key_used d k \<or>
        ev_Status e = ''paid'' \<and> k = payment_key (ev_Provider e) (ev_PaymentID e) \<or>
        k = reversal_key (ev_Provider e) (ev_EventID e)) \<and>
     (\<exists>rows. credit_transactions d1 = credit_transactions d @ rows \<and>
        (\<forall>t \<in> set rows. t_reference_id t = None \<and> t_user_id t = p_user_id p \<and> purchase_ref t = Some (p_id p))) \<and>
     purchase_ok d1 (purchase_update e ts p p)"

lemma written_events:
  fixes ts :: int
  defines "g \<equiv> applied_row ts \<circ> claim_row ts"
  assumes "events_ok d" "payment_events d1 = payment_events d"
  shows "events_ok (d1\<lparr>payment_purchases := ps, payment_events := update_where (\<lambda>r. is_event e r \<and> waiting r) g (payment_events d)\<rparr>)"
proof -
  have g: "same_fact r (g r)" for r unfolding g_def using same_fact_trans [OF same_fact_rows(1,3)] by simp
  have "map (\<lambda>r. (e_provider r, e_event_id r)) (update_where (\<lambda>r. is_event e r \<and> waiting r) g (payment_events d)) =
        map (\<lambda>r. (e_provider r, e_event_id r)) (payment_events d)"
    using g by (intro map_update_where) (simp add: same_fact_def)
  then show ?thesis using assms(2) g
    by (auto simp: events_ok_def events_wf_def set_update_where same_fact_def split: if_splits)
qed

lemma written_keys:
  assumes inv: "pay_inv d" and b: "books e p ts d d1" and p: "p \<in> set (payment_purchases d)" "p_id p = ev_PurchaseID e"
    and r: "r \<in> set (payment_events d)" "is_event e r" "waiting r"
    and prov: "p_provider p = ev_Provider e"
    and kept: "p_fulfilled_at p \<noteq> None \<Longrightarrow> p_payment_id p = Some (ev_PaymentID e)"
  shows "keys_ok (d1\<lparr>payment_purchases := update_where (\<lambda>x. p_id x = ev_PurchaseID e) (purchase_update e ts p) (payment_purchases d),
      payment_events := update_where (\<lambda>r. is_event e r \<and> waiting r) (applied_row ts \<circ> claim_row ts) (payment_events d)\<rparr>)"
    (is "keys_ok (d1\<lparr>payment_purchases := ?ps, payment_events := ?es\<rparr>)")
proof -
  let ?p = "purchase_update e ts p p"
  have pl: "plain (ev_Provider e)" using inv r by (auto simp: pay_inv_defs is_event_def)
  have new: "?p \<in> set ?ps" using p by (force simp: set_update_where)
  have old: "x \<in> set ?ps" if "x \<in> set (payment_purchases d)" "x \<noteq> p" for x
    using that key_inj [of p_id "payment_purchases d" x p] inv p by (force simp: set_update_where pay_inv_def)
  have pay: "\<exists>q \<in> set ?ps. p_provider q = prov \<and> p_payment_id q = Some x \<and> p_fulfilled_at q \<noteq> None"
    if "plain prov" "key_used d1 (payment_key prov x)" for prov x
  proof (cases "key_used d (payment_key prov x)")
    case True
    with inv that obtain q where q: "q \<in> set (payment_purchases d)" "p_provider q = prov" "p_payment_id q = Some x"
      "p_fulfilled_at q \<noteq> None" unfolding pay_inv_defs by blast
    show ?thesis
    proof (cases "q = p")
      case True
      then show ?thesis using new q kept by (intro bexI [of _ ?p]) auto
    qed (use old q in blast)
  next
    case False
    with b that have "ev_Status e = ''paid'' \<and> payment_key prov x = payment_key (ev_Provider e) (ev_PaymentID e)"
      unfolding books_def using key_inject(3) by blast
    then show ?thesis using new prov pl that(1) by (intro bexI [of _ ?p]) (simp_all add: key_inject)
  qed
  have rev: "\<exists>y \<in> set ?es. e_provider y = prov \<and> e_event_id y = x \<and> e_process_status y = ''applied''"
    if "plain prov" "key_used d1 (reversal_key prov x)" for prov x
  proof (cases "key_used d (reversal_key prov x)")
    case True
    with inv that obtain y where "y \<in> set (payment_events d)" "e_provider y = prov" "e_event_id y = x"
      "e_process_status y = ''applied''" unfolding pay_inv_defs by blast
    then show ?thesis by (intro bexI [of _ y]) (force simp: set_update_where waiting_def)+
  next
    case False
    with b that have "reversal_key prov x = reversal_key (ev_Provider e) (ev_EventID e)"
      unfolding books_def using key_inject(4) by blast
    then have "prov = ev_Provider e" "x = ev_EventID e" using pl that(1) by (simp_all add: key_inject)
    then show ?thesis using r
      by (intro bexI [of _ "applied_row ts (claim_row ts r)"])
        (force simp: set_update_where is_event_def applied_row_def claim_row_def)+
  qed
  show ?thesis using pay rev by (simp add: keys_ok_def)
qed

lemma pay_inv_written:
  assumes inv: "pay_inv d" and b: "books e p ts d d1" and p: "p \<in> set (payment_purchases d)" "p_id p = ev_PurchaseID e"
    and r: "r \<in> set (payment_events d)" "is_event e r" "waiting r"
    and prov: "p_provider p = ev_Provider e"
    and kept: "p_fulfilled_at p \<noteq> None \<Longrightarrow> p_payment_id p = Some (ev_PaymentID e)"
  shows "pay_inv (d1\<lparr>payment_purchases := update_where (\<lambda>x. p_id x = ev_PurchaseID e) (purchase_update e ts p) (payment_purchases d),
      payment_events := update_where (\<lambda>r. is_event e r \<and> waiting r) (applied_row ts \<circ> claim_row ts) (payment_events d)\<rparr>)"
    (is "pay_inv (d1\<lparr>payment_purchases := ?ps, payment_events := ?es\<rparr>)")
proof -
  have ids: "map p_id ?ps = map p_id (payment_purchases d)" by (intro map_update_where) simp
  then have idset: "p_id ` set ?ps = p_id ` set (payment_purchases d)" by (metis list.set_map)
  have "purchase_ok d1 q" if "q \<in> set ?ps" for q
  proof -
    from that obtain x where x: "x \<in> set (payment_purchases d)"
      and q: "q = (if p_id x = ev_PurchaseID e then purchase_update e ts p x else x)" by (auto simp: set_update_where)
    show ?thesis
    proof (cases "x = p")
      case True
      then show ?thesis using q p b by (simp add: books_def)
    next
      case False
      then have "p_id x \<noteq> p_id p" using inv x p key_inj [of p_id "payment_purchases d" x p] by (auto simp: pay_inv_def)
      moreover have "purchase_ok d x" using inv x by (simp add: pay_inv_def)
      ultimately show ?thesis using b q p(2) unfolding books_def purchase_ok_def by auto
    qed
  qed
  moreover have "grants_for d1 pid = 0 \<and> refunds_for d1 pid = 0" if "pid \<notin> p_id ` set ?ps" for pid
    using that inv b p unfolding idset books_def pay_inv_def by (metis imageI)
  moreover have "owners_ok (d1\<lparr>payment_purchases := ?ps, payment_events := ?es\<rparr>)" (is "owners_ok ?d")
  proof -
    from b obtain rows where rows: "credit_transactions d1 = credit_transactions d @ rows"
      "\<forall>t \<in> set rows. t_reference_id t = None \<and> t_user_id t = p_user_id p \<and> purchase_ref t = Some (p_id p)"
      unfolding books_def by blast
    have "\<exists>p' \<in> set ?ps. p_id p' = p_id q \<and> p_user_id p' = p_user_id q" if "q \<in> set (payment_purchases d)" for q
      using that by (intro bexI [of _ "if p_id q = ev_PurchaseID e then purchase_update e ts p q else q"]) (auto simp: set_update_where)
    then show ?thesis using inv p(1) rows
      by (intro owners_ok_grow [of d ?d rows]) (auto simp: pay_inv_def)
  qed
  moreover have "events_ok d" using inv by (simp add: pay_inv_def)
  moreover have "payment_events d1 = payment_events d" "credits_inv d1" using b by (simp_all add: books_def)
  ultimately show ?thesis
    using written_events [where d = d and ?d1.0 = d1 and ps = ?ps and e = e and ts = ts] written_keys [OF inv b p r prov kept] ids inv by (simp add: pay_inv_def)
qed

text \<open>The bookings of \<open>processOne\<close> give it.\<close>

lemma for_posted:
  "t_type t = ''grant'' \<Longrightarrow> t_metadata t = Some [(''reason'', ''purchase '' @ x)] \<Longrightarrow>
     grants_for (posted t ts d) pid = grants_for d pid + (if pid = x then t_amount t else 0) \<and>
     refunds_for (posted t ts d) pid = refunds_for d pid"
  "t_type t = ''refund'' \<Longrightarrow> t_metadata t = Some [(''reason'', ''reversal '' @ x)] \<Longrightarrow>
     refunds_for (posted t ts d) pid = refunds_for d pid - (if pid = x then t_amount t else 0) \<and>
     grants_for (posted t ts d) pid = grants_for d pid"
  by (auto simp: grants_for_def refunds_for_def)

lemma booked_row:
  assumes "d1 = posted t ts d" "t_reference_id t = None" "t_user_id t = u"
    "t_type t = ''grant'' \<and> t_metadata t = Some [(''reason'', ''purchase '' @ pid)] \<or>
     t_type t = ''refund'' \<and> t_metadata t = Some [(''reason'', ''reversal '' @ pid)]"
  shows "\<exists>rows. credit_transactions d1 = credit_transactions d @ rows \<and>
    (\<forall>t \<in> set rows. t_reference_id t = None \<and> t_user_id t = u \<and> purchase_ref t = Some pid)"
  using assms by (intro exI [of _ "[t]"]) (simp add: posted_def purchase_ref_iff)

lemma purchase_fields:
  "pu_ID (purchase_of_row p) = p_id p" "pu_Credits (purchase_of_row p) = p_credits p" "pu_UserID (purchase_of_row p) = p_user_id p"
  "pu_AmountMinor (purchase_of_row p) = p_amount_minor p" "pu_ReversedCredits (purchase_of_row p) = p_reversed_credits p"
  "pu_Provider (purchase_of_row p) = p_provider p"
  by (simp_all add: purchase_of_row_def)

lemma purchase_identity:
  assumes "purchase_ok d p" "\<not> identity_conflict e (purchase_of_row p)"
  shows "p_provider p = ev_Provider e \<and> (p_fulfilled_at p \<noteq> None \<longrightarrow>
     p_payment_id p = Some (ev_PaymentID e) \<and> key_used d (payment_key (ev_Provider e) (ev_PaymentID e)))"
  using assms by (auto simp: purchase_ok_def identity_conflict_def purchase_of_row_def)

lemma books_paid:
  assumes inv: "pay_inv d" and p: "p \<in> set (payment_purchases d)" "\<not> identity_conflict e (purchase_of_row p)" "no_clash e p d"
    and r: "r \<in> set (payment_events d)" "is_event e r" and e: "ev_PaymentID e \<noteq> []" "ev_Status e = ''paid''"
    and b: "keyed_post (p_user_id p) (p_credits p) ''grant'' (''purchase '' @ p_id p) (payment_key (ev_Provider e) (ev_PaymentID e)) d d1"
  shows "books e p ts d d1"
proof -
  have ok: "purchase_ok d p" and ci: "credits_inv d" using inv p by (auto simp: pay_inv_def)
  note id = purchase_identity [OF ok p(2)]
  have pl: "plain (ev_Provider e)" using inv r by (auto simp: pay_inv_defs is_event_def)
  from b show ?thesis unfolding keyed_post_def
  proof (elim disjE conjE exE)
    assume k: "key_used d (payment_key (ev_Provider e) (ev_PaymentID e))" and d1: "d1 = d"
    from inv k pl obtain q where q: "q \<in> set (payment_purchases d)" "p_provider q = ev_Provider e"
      "p_payment_id q = Some (ev_PaymentID e)" "p_fulfilled_at q \<noteq> None" unfolding pay_inv_defs by blast
    then have "p_id q = p_id p" using p(3) id unfolding no_clash_def by auto
    then have "q = p" using key_inj [of p_id "payment_purchases d" q p] inv q p by (simp add: pay_inv_def)
    then show ?thesis using ok k q e id ci d1 by (auto simp: books_def purchase_ok_def)
  next
    fix t ts'
    assume t: "fresh_row t d" "d1 = posted t ts' d" "t_user_id t = p_user_id p" "t_amount t = p_credits p" "t_type t = ''grant''"
      "t_reference_id t = None" "t_idempotency_key t = Some (payment_key (ev_Provider e) (ev_PaymentID e))"
      "t_metadata t = Some [(''reason'', ''purchase '' @ p_id p)]"
    then have "p_fulfilled_at p = None" using id by (auto simp: fresh_row_def)
    then show ?thesis
      using ok e id ci t(2,4,7) credits_inv_posted [OF ci t(1,6)] for_posted(1) [OF t(5,8)] booked_row [OF t(2,6,3), of "p_id p"] t(5,8)
      by (auto simp: books_def purchase_ok_def)
  qed
qed

lemma books_reversal:
  assumes inv: "pay_inv d" and p: "p \<in> set (payment_purchases d)" "\<not> identity_conflict e (purchase_of_row p)"
    and r: "r \<in> set (payment_events d)" "is_event e r" "waiting r" and e: "ev_PaymentID e \<noteq> []" "ev_Status e \<noteq> ''paid''"
    and b: "booked e (purchase_of_row p) d d1"
  shows "books e p ts d d1"
proof -
  let ?a = "reversal_amount (purchase_of_row p) e"
  have ok: "purchase_ok d p" and ci: "credits_inv d" using inv p by (auto simp: pay_inv_def)
  note id = purchase_identity [OF ok p(2)]
  have pl: "plain (ev_Provider e)" using inv r by (auto simp: pay_inv_defs is_event_def)
  have am: "?a = reversal_target (p_credits p) (p_amount_minor p) (ev_ReversedMinor e) - p_reversed_credits p"
    using ok by (subst reversal_amount_eq) (simp_all add: purchase_fields purchase_ok_def)
  have le: "?a \<le> p_credits p - p_reversed_credits p" and cr: "0 < p_credits p" "p_credits p \<le> max_int64"
    using am ok reversal_target_bounds [of "p_credits p" "p_amount_minor p" "ev_ReversedMinor e"]
    by (auto simp: purchase_ok_def dest!: small_priceD)
  have new: "wrap64 (p_reversed_credits p + max ?a 0) = p_reversed_credits p + max ?a 0"
    using le cr ok by (intro wrap64_id) (auto simp: in64_def max_int64_def purchase_ok_def)
  show ?thesis
  proof (cases "?a > 0")
    case True
    have unused: "\<not> key_used d (reversal_key (ev_Provider e) (ev_EventID e))"
    proof
      assume "key_used d (reversal_key (ev_Provider e) (ev_EventID e))"
      with inv pl obtain y where y: "y \<in> set (payment_events d)" "e_provider y = ev_Provider e" "e_event_id y = ev_EventID e"
        "e_process_status y = ''applied''" unfolding pay_inv_defs by blast
      then have "y = r" using events_wf_same [of d y r e] inv r by (simp add: pay_inv_defs is_event_def)
      then show False using r(3) y(4) by (simp add: waiting_def)
    qed
    have neg: "wrap64 (- ?a) = - ?a" using True le cr ok by (intro wrap64_id) (auto simp: in64_def max_int64_def purchase_ok_def)
    from b True e unused obtain t ts' where t: "fresh_row t d" "d1 = posted t ts' d" "t_amount t = - ?a" "t_type t = ''refund''"
      "t_reference_id t = None" "t_user_id t = p_user_id p" "t_idempotency_key t = Some (reversal_key (ev_Provider e) (ev_EventID e))"
      "t_metadata t = Some [(''reason'', ''reversal '' @ p_id p)]"
      by (auto simp: booked_def keyed_post_def purchase_fields neg)
    then show ?thesis
      using ok e id ci le True t(2,3,7) credits_inv_posted [OF ci t(1,5)] for_posted(2) [OF t(4,8)] booked_row [OF t(2,5,6), of "p_id p"] t(4,8) new
      by (auto simp: books_def purchase_ok_def)
  next
    case False
    with b e have "d1 = d" by (simp add: booked_def)
    then show ?thesis using ok e id ci False new by (auto simp: books_def purchase_ok_def)
  qed
qed

lemma pay_inv_fulfilled:
  assumes inv: "pay_inv d" and e: "ev_PaymentID e \<noteq> []" and f: "fulfilled e ts d d'"
  shows "pay_inv d'"
proof -
  from f obtain p d1 r where p: "p \<in> set (payment_purchases d)" "p_id p = ev_PurchaseID e" "\<not> identity_conflict e (purchase_of_row p)"
    "no_clash e p d" and r: "r \<in> set (payment_events d)" "is_event e r" "waiting r" and b: "booked e (purchase_of_row p) d d1"
    and d': "d' = d1\<lparr>payment_purchases := update_where (\<lambda>x. p_id x = ev_PurchaseID e) (purchase_update e ts p) (payment_purchases d),
                payment_events := update_where (\<lambda>r. is_event e r \<and> waiting r) (applied_row ts \<circ> claim_row ts) (payment_events d)\<rparr>"
    unfolding fulfilled_def by blast
  have ok: "purchase_ok d p" using inv p(1) by (simp add: pay_inv_def)
  have "books e p ts d d1"
  proof (cases "ev_Status e = ''paid''")
    case True
    then show ?thesis using b by (intro books_paid [OF inv p(1,3,4) r(1,2) e]) (simp_all add: booked_def purchase_fields)
  qed (rule books_reversal [OF inv p(1,3) r e _ b])
  then show ?thesis unfolding d' using purchase_identity [OF ok p(3)] by (intro pay_inv_written [OF inv _ p(1,2) r]) simp_all
qed

section \<open>Every operation keeps the invariant\<close>

lemma processOne_inv:
  assumes "ps_ledger s = CreditsService" "ev_PaymentID e \<noteq> []"
  shows "preserves pay_inv (processOne s e)"
  unfolding preserves_def
proof (intro allI impI)
  fix w :: world
  assume inv: "pay_inv (db w)"
  then have "events_wf (db w)" by (simp add: pay_inv_defs)
  from processOne_effect [OF assms(1) this, of e "fst (processOne s e w)" "snd (processOne s e w)"]
  show "pay_inv (db (snd (processOne s e w)))"
    using pay_inv_put_off [OF inv] pay_inv_fulfilled [OF inv assms(2)] by auto
qed

lemma process_events_inv:
  assumes "ps_ledger s = CreditsService" "\<forall>e \<in> set es. ev_PaymentID e \<noteq> []"
  shows "preserves pay_inv (process_events s es)"
  using assms(2) by (induction es) (auto intro!: pres_intros processOne_inv assms(1))

lemma pending_events_ids:
  assumes "pay_inv d" "e \<in> set (pending_events limit d)"
  shows "ev_PaymentID e \<noteq> []"
proof -
  from assms(2) obtain r where "r \<in> set (payment_events d)" "e = event_of_row r"
    by (auto simp: pending_events_def dest!: in_set_takeD)
  then show ?thesis using assms(1) by (simp add: pay_inv_defs event_of_row_def)
qed

lemma ProcessPending_inv:
  assumes "ps_ledger s = CreditsService"
  shows "preserves pay_inv (ProcessPending s limit)"
  unfolding preserves_def
proof (intro allI impI)
  fix w :: world
  assume inv: "pay_inv (db w)"
  let ?q = "query (\<lambda>d. Inr (pending_events (if limit \<le> 0 then 100 else limit) d))"
  obtain n w1 where c: "stmt (update_events (lease_expired (pnow w)) expire_lease) w = (n, w1)" by fastforce
  obtain l w2 where q: "?q w1 = (l, w2)" by fastforce
  have inv1: "pay_inv (db w1)"
  proof (cases n)
    case (Inr k)
    then have "db w1 = (db w)\<lparr>payment_events := update_where (lease_expired (pnow w)) expire_lease (payment_events (db w))\<rparr>"
      using c by (auto simp: stmt_Inr update_events_def)
    then show ?thesis using inv by (simp only:) (rule pay_inv_bookkeeping, simp_all add: same_fact_rows lease_expired_def)
  qed (use c inv stmt_Inl in metis)
  moreover have d2: "db w2 = db w1" using query_any [OF q] by simp
  moreover have "pay_inv (db (snd (process_events s es w2)))" if "l = Inr es" for es
  proof -
    have "es = pending_events (if limit \<le> 0 then 100 else limit) (db w1)" using q that by (simp add: query_Inr)
    then have "\<forall>e \<in> set es. ev_PaymentID e \<noteq> []" using pending_events_ids inv1 by blast
    from preservesD [OF process_events_inv [OF assms this]] show ?thesis using inv1 d2 by simp
  qed
  ultimately show "pay_inv (db (snd (ProcessPending s limit w)))"
    using c q by (cases n; cases l) (simp_all add: ProcessPending_def bind_io_def read_io_def)
qed

lemma keys_ok_more:
  assumes "keys_ok d" "\<And>k. key_used d' k = key_used d k" "set (payment_purchases d) \<subseteq> set (payment_purchases d')"
    "set (payment_events d) \<subseteq> set (payment_events d')"
  shows "keys_ok d'"
  using assms unfolding keys_ok_def by (meson subsetD)

lemma insert_event_inv:
  assumes "pay_inv d" "insert_event (new_event_row e ts) d = Inr (n, d')" "ev_PaymentID e \<noteq> []" "plain (ev_Provider e)"
  shows "pay_inv d'"
proof -
  let ?r = "new_event_row e ts"
  consider "d' = d"
    | "d' = d\<lparr>payment_events := payment_events d @ [?r]\<rparr>"
      "\<forall>x \<in> set (payment_events d). \<not> (e_provider x = ev_Provider e \<and> e_event_id x = ev_EventID e)"
    using assms(2) by (auto simp: insert_event_def new_event_row_def list_ex_iff split: if_splits)
  then show ?thesis
  proof cases
    case 2
    have r: "e_payment_id ?r = ev_PaymentID e" "e_provider ?r = ev_Provider e" "e_event_id ?r = ev_EventID e"
      by (simp_all add: new_event_row_def)
    have "events_ok d'" using assms(1,3,4) 2 r by (auto simp: pay_inv_defs events_wf_def)
    moreover have "keys_ok d'" using assms(1) 2(1) by (intro keys_ok_more [of d d']) (auto simp: pay_inv_def)
    ultimately show ?thesis using assms(1) 2(1) by (simp add: pay_inv_def)
  qed (use assms(1) in simp)
qed

lemma Receive_inv:
  assumes "ps_ledger s = CreditsService" "plain (ev_Provider e)"
  shows "preserves pay_inv (Receive s e)"
proof (cases "ev_PaymentID e = []")
  case True
  then show ?thesis by (simp add: Receive_def pres_intros)
next
  case False
  have "preserves pay_inv (stmt (insert_event (new_event_row e ts)))" for ts
    by (rule preserves_stmt) (rule insert_event_inv [OF _ _ False assms(2)])
  then show ?thesis unfolding Receive_def
    by (intro pres_intros ProcessPending_inv assms(1))
qed

lemma insert_purchase_inv:
  assumes inv: "pay_inv d" and ins: "insert_purchase p d = Inr (n, d')"
    and p: "small_price (p_credits p) (p_amount_minor p)" "p_fulfilled_at p = None" "p_reversed_credits p = 0"
  shows "pay_inv d'"
proof -
  from ins have d': "d' = d\<lparr>payment_purchases := payment_purchases d @ [p]\<rparr>"
    and new: "p_id p \<notin> p_id ` set (payment_purchases d)"
    by (auto simp: insert_purchase_def list_ex_iff split: if_splits)
  have "keys_ok d'" using inv d' by (intro keys_ok_more [of d d']) (auto simp: pay_inv_def)
  moreover have "purchase_ok d p" using inv p new by (auto simp: purchase_ok_def pay_inv_def dest: small_priceD)
  moreover have "owners_ok d'" using inv d' by (intro owners_ok_grow [of d d' "[]"]) (auto simp: pay_inv_def)
  ultimately show ?thesis using inv new d' by (auto simp: pay_inv_def events_ok_def events_wf_def)
qed

definition small_catalog :: "PaymentsService \<Rightarrow> bool" where
  "small_catalog s \<longleftrightarrow> list_all (\<lambda>(_, item). small_price (ci_Credits item) (ci_AmountMinor item)) (ps_catalog s)"

lemma CreatePurchase_inv:
  assumes "small_catalog s"
  shows "preserves pay_inv (CreatePurchase s provider userID sku)"
proof (cases "CatalogItemOf s sku")
  case None
  then show ?thesis by (simp add: CreatePurchase_def pres_intros)
next
  case (Some item)
  then have "small_price (ci_Credits item) (ci_AmountMinor item)"
    using assms by (auto simp: small_catalog_def CatalogItemOf_def list_all_iff dest!: map_of_SomeD)
  moreover have "preserves pay_inv NewRequestID"
    by (simp add: preserves_def NewRequestID_def newID_def)
  ultimately show ?thesis
    by (auto simp: CreatePurchase_def Some intro!: pres_intros preserves_stmt dest: insert_purchase_inv)
qed

text \<open>Other users of the ledger: their rows carry neither the keys nor the reasons of this package.\<close>

definition foreign_row :: "ledger_row \<Rightarrow> bool" where
  "foreign_row t \<longleftrightarrow>
     (case t_idempotency_key t of None \<Rightarrow> True | Some k \<Rightarrow> \<not> prefix ''payment:'' k \<and> \<not> prefix ''reversal:'' k) \<and>
     (case t_metadata t of Some [(_, rsn)] \<Rightarrow> \<not> prefix ''purchase '' rsn \<and> \<not> prefix ''reversal '' rsn | _ \<Rightarrow> True)"

definition foreign :: "database \<Rightarrow> database \<Rightarrow> bool" where
  "foreign d d' \<longleftrightarrow>
     credits_inv d' \<and> payment_purchases d' = payment_purchases d \<and> payment_events d' = payment_events d \<and>
     (\<exists>ts. credit_transactions d' = credit_transactions d @ ts \<and> list_all foreign_row ts)"

lemma pay_inv_foreign:
  assumes inv: "pay_inv d" and f: "foreign d d'"
  shows "pay_inv d'"
proof -
  from f obtain ts where ts: "credit_transactions d' = credit_transactions d @ ts" "list_all foreign_row ts"
    and same: "payment_purchases d' = payment_purchases d" "payment_events d' = payment_events d" and ci: "credits_inv d'"
    unfolding foreign_def by blast
  have t: "t_idempotency_key t \<noteq> Some (payment_key a b)" "t_idempotency_key t \<noteq> Some (reversal_key a b)"
    "t_metadata t \<noteq> Some [(''reason'', ''purchase '' @ x)]" "t_metadata t \<noteq> Some [(''reason'', ''reversal '' @ x)]"
    if "t \<in> set ts" for t a b x
    using that ts(2) by (auto simp: list_all_iff foreign_row_def payment_key_def reversal_key_def)
  have keys: "key_used d' (payment_key a b) = key_used d (payment_key a b)" "key_used d' (reversal_key a b) = key_used d (reversal_key a b)"
    for a b using t by (auto simp: key_used_def ts(1) list_ex_iff)
  have sums: "grants_for d' x = grants_for d x" "refunds_for d' x = refunds_for d x" for x
    using t(3,4) [of _ x] by (simp_all add: grants_for_def refunds_for_def ts(1) sum_where_none)
  have "owners_ok d'"
    using inv ts(1) t(3,4) by (intro owners_ok_grow [of d d' ts]) (auto simp: pay_inv_def same purchase_ref_iff)
  moreover have "purchase_ok d' p = purchase_ok d p" for p by (simp add: purchase_ok_def keys sums)
  ultimately show ?thesis using inv ci by (simp add: pay_inv_defs events_wf_def same keys sums)
qed

end
