(* ===== verification/Payment_Runs.thy ===== *)
theory Payment_Runs
  imports Fulfilment
begin

text \<open>
  The payment service over time: the databases its operations can produce (\<open>payment_step\<close>, \<open>payment_reachable\<close>), the
  agreement of purchases and ledger in all of them, and the behaviour of single runs: redelivery, reused event ids,
  a failing event at the head of the queue, and the two situations in which the code does not do what its comments say.

  One \<open>payment_step\<close> is a whole public operation, run in an arbitrary world (any faults, clocks and random bytes). Two
  workers that interleave inside \<open>processOne\<close> are not covered by it; \<open>stale_purchase_over_refunds\<close> shows why.
\<close>

section \<open>Reachable databases\<close>

inductive payment_step :: "PaymentsService \<Rightarrow> database \<Rightarrow> database \<Rightarrow> bool" for s where
  create: "payment_step s (db w) (db (snd (CreatePurchase s provider userID sku w)))"
| receive: "plain (ev_Provider e) \<Longrightarrow> payment_step s (db w) (db (snd (Receive s e w)))"
| process: "payment_step s (db w) (db (snd (ProcessPending s limit w)))"
| process_one: "ev_PaymentID e \<noteq> [] \<Longrightarrow> payment_step s (db w) (db (snd (processOne s e w)))"
| other: "foreign d d' \<Longrightarrow> payment_step s d d'"

text \<open>
  The steps in which \<open>processOne\<close> is called by the service itself: for events of the log, not for one a caller makes up.
  The rest of the program only takes such steps.
\<close>

inductive log_step :: "PaymentsService \<Rightarrow> database \<Rightarrow> database \<Rightarrow> bool" for s where
  create: "log_step s (db w) (db (snd (CreatePurchase s provider userID sku w)))"
| receive: "plain (ev_Provider e) \<Longrightarrow> log_step s (db w) (db (snd (Receive s e w)))"
| process: "log_step s (db w) (db (snd (ProcessPending s limit w)))"
| other: "foreign d d' \<Longrightarrow> log_step s d d'"

lemma log_step_payment: "log_step s d d' \<Longrightarrow> payment_step s d d'"
  by (induction rule: log_step.induct) (rule payment_step.intros; assumption?)+

lemma log_steps_payment: "(log_step s)\<^sup>*\<^sup>* d d' \<Longrightarrow> (payment_step s)\<^sup>*\<^sup>* d d'"
  by (erule rtranclp_mono [THEN predicate2D, rotated]) (blast intro: log_step_payment)

inductive payment_reachable :: "PaymentsService \<Rightarrow> database \<Rightarrow> bool" for s where
  init: "payment_reachable s empty_db"
| step: "payment_reachable s d \<Longrightarrow> payment_step s d d' \<Longrightarrow> payment_reachable s d'"

lemma payment_step_inv:
  assumes "ps_ledger s = CreditsService" "small_catalog s" "payment_step s d d'" "pay_inv d"
  shows "pay_inv d'"
  using assms(3,4)
  by (induction rule: payment_step.induct)
    (auto intro: preservesD [OF CreatePurchase_inv [OF assms(2)]] preservesD [OF Receive_inv [OF assms(1)]]
      preservesD [OF ProcessPending_inv [OF assms(1)]] preservesD [OF processOne_inv [OF assms(1)]] pay_inv_foreign)

lemma pay_inv_empty: "pay_inv empty_db"
  by (simp add: pay_inv_defs events_wf_def credits_inv_empty owners_ok_def grants_for_def refunds_for_def)

lemma payment_reachable_inv:
  assumes "ps_ledger s = CreditsService" "small_catalog s" "payment_reachable s d"
  shows "pay_inv d"
  using assms(3) by (induction rule: payment_reachable.induct) (auto simp: pay_inv_empty intro: payment_step_inv [OF assms(1,2)])

section \<open>Samples\<close>

definition sample_payments :: PaymentsService where
  "sample_payments = \<lparr>ps_ledger = CreditsService,
     ps_catalog = [(''topup'', \<lparr>ci_Credits = 100, ci_Currency = ''USD'', ci_AmountMinor = 1000\<rparr>)]\<rparr>"

definition sample_purchase :: purchase_row where
  "sample_purchase = \<lparr>p_id = ''pu1'', p_provider = ''stripe'', p_user_id = ''u1'', p_sku = ''topup'', p_credits = 100,
     p_currency = ''usd'', p_amount_minor = 1000, p_payment_id = None, p_status = ''pending'', p_created_at = 1786751000,
     p_updated_at = 1786751000, p_fulfilled_at = None, p_reversed_at = None, p_reversed_credits = 0\<rparr>"

definition sample_event :: "string \<Rightarrow> string \<Rightarrow> int \<Rightarrow> Event" where
  "sample_event eid status minor = \<lparr>ev_Provider = ''stripe'', ev_EventID = eid, ev_PaymentID = ''pi1'',
     ev_PurchaseID = ''pu1'', ev_Status = status, ev_PayloadHash = eid, ev_ReversedCredits = 0, ev_ReversedMinor = minor,
     ev_OccurredAt = None\<rparr>"

definition sample_shop :: database where
  "sample_shop = empty_db\<lparr>payment_purchases := [sample_purchase]\<rparr>"

definition created_shop :: database where
  "created_shop = db (snd (CreatePurchase sample_payments ''stripe'' ''u1'' ''topup'' (sample_world empty_db)))"

definition paid_shop :: database where
  "paid_shop = db (snd (Receive sample_payments
     ((sample_event ''e1'' ''paid'' 0)\<lparr>ev_PurchaseID := ''000102030405060708090a0b0c0d0e0f''\<rparr>) (sample_world created_shop)))"

lemma paid_shop_reachable: "payment_reachable sample_payments paid_shop"
proof -
  have "payment_reachable sample_payments created_shop"
    using payment_reachable.step [OF payment_reachable.init payment_step.create [of sample_payments "sample_world empty_db", simplified]]
    unfolding created_shop_def .
  then show ?thesis unfolding paid_shop_def
    by (rule payment_reachable.step) (use payment_step.receive [of _ _ "sample_world created_shop"] in
        \<open>simp add: sample_event_def plain_def\<close>)
qed

lemma paid_shop_value [code]:
  "paid_shop = empty_db
     \<lparr>credit_accounts := [\<lparr>a_user_id = ''u1'', a_balance = 100, a_updated_at = 1786752000\<rparr>],
      credit_transactions := [\<lparr>t_id = ''000102030405060708090a0b0c0d0e0f'', t_user_id = ''u1'', t_amount = 100, t_type = ''grant'',
         t_source = ''stripe'', t_reference_id = None, t_idempotency_key = Some ''payment:stripe:pi1'',
         t_metadata = Some [(''reason'', ''purchase 000102030405060708090a0b0c0d0e0f'')], t_created_at = 1786752000\<rparr>],
      payment_purchases := [sample_purchase\<lparr>p_id := ''000102030405060708090a0b0c0d0e0f'', p_created_at := 1786752000,
         p_updated_at := 1786752000, p_payment_id := Some ''pi1'', p_status := ''paid'', p_fulfilled_at := Some 1786752000\<rparr>],
      payment_events := [\<lparr>e_provider = ''stripe'', e_event_id = ''e1'', e_purchase_id = ''000102030405060708090a0b0c0d0e0f'',
         e_payment_id = ''pi1'', e_status = ''paid'', e_payload_hash = Some ''e1'', e_process_status = ''applied'', e_attempt_count = 1,
         e_last_error = None, e_received_at = 1786752000, e_processed_at = Some 1786752000, e_lease_until = None, e_reversed_minor = 0\<rparr>]\<rparr>"
  by code_simp

lemma paid_shop_purchases:
  "payment_purchases paid_shop =
     [sample_purchase\<lparr>p_id := ''000102030405060708090a0b0c0d0e0f'', p_created_at := 1786752000, p_updated_at := 1786752000,
        p_payment_id := Some ''pi1'', p_status := ''paid'', p_fulfilled_at := Some 1786752000\<rparr>]"
  by (simp add: paid_shop_value)

lemma sample_payments_ok: "ps_ledger sample_payments = CreditsService" "small_catalog sample_payments"
  by (simp_all add: sample_payments_def small_catalog_def small_price_def max_int64_def)

section \<open>Properties\<close>

text \<open>C4: purchases and ledger agree in every database that purchases, deliveries, passes over the log and other users of the
  ledger can produce, whatever statements fail: the ledger holds a grant of exactly the bought credits if the
  purchase was fulfilled and none otherwise, its refunds for the purchase add up to the reversed credits, and these
  never exceed what was bought. (Catalog prices whose product fits an \<open>int64\<close>, providers without a colon in their
  name.)\<close>

theorem purchases_match_ledger:
  assumes "ps_ledger s = CreditsService" "small_catalog s" "payment_reachable s d" "p \<in> set (payment_purchases d)"
  shows "grants_for d (p_id p) = (if p_fulfilled_at p = None then 0 else p_credits p) \<and>
         refunds_for d (p_id p) = p_reversed_credits p \<and> 0 \<le> p_reversed_credits p \<and> p_reversed_credits p \<le> p_credits p"
  using payment_reachable_inv [OF assms(1-3)] assms(4) by (auto simp: pay_inv_def purchase_ok_def)

theorem purchases_match_ledger_witness:
  "grants_for paid_shop ''000102030405060708090a0b0c0d0e0f'' = 100 \<and> refunds_for paid_shop ''000102030405060708090a0b0c0d0e0f'' = 0"
  using purchases_match_ledger [OF sample_payments_ok paid_shop_reachable]
  by (simp add: paid_shop_purchases) (simp add: sample_purchase_def)

text \<open>C6: processing an event books the money, updates the purchase and marks the event in one piece. Wherever a fault cuts
  a run short, either only the bookkeeping fields of the event's row moved and it is not applied, or the run
  returned without an error and all three were written for a purchase of the same provider and payment.\<close>

theorem processOne_all_or_nothing:
  assumes "ps_ledger s = CreditsService" "events_wf (db w)"
  shows "case processOne s e w of (x, w') \<Rightarrow>
     put_off e (db w) (db w') \<or> x = Inr () \<and> fulfilled e (pnow w) (db w) (db w')"
  using processOne_effect [OF assms] by (auto split: prod.splits)

theorem processOne_all_or_nothing_witness:
  "case processOne sample_payments (sample_event ''e1'' ''paid'' 0) (sample_world sample_shop) of (x, w') \<Rightarrow>
     put_off (sample_event ''e1'' ''paid'' 0) sample_shop (db w') \<or>
     x = Inr () \<and> fulfilled (sample_event ''e1'' ''paid'' 0) 1786752000 sample_shop (db w')"
  using processOne_all_or_nothing [of sample_payments "sample_world sample_shop" "sample_event ''e1'' ''paid'' 0"]
  by (simp add: sample_payments_ok sample_shop_def events_wf_def unix_def)

section \<open>Delivery\<close>

lemma find_event:
  assumes "events_wf d" "r \<in> set (payment_events d)" "is_event e r"
  shows "find (is_event e) (payment_events d) = Some r"
proof (cases "find (is_event e) (payment_events d)")
  case None
  then show ?thesis using assms by (auto simp: find_None_iff_set)
next
  case (Some x)
  then show ?thesis using events_wf_same [of d x r e] assms find_SomeD by fastforce
qed

text \<open>C26: an event that was delivered before is not recorded again. With the stored payload hash the delivery is just one
  more pass over the log; with a different hash it is refused and nothing changes.\<close>

theorem Receive_redelivered:
  assumes "faults w = []" "events_wf (db w)" "r \<in> set (payment_events (db w))" "is_event e r"
    and "ev_Provider e \<noteq> [] \<and> ev_EventID e \<noteq> [] \<and> ev_PaymentID e \<noteq> [] \<and> ev_PurchaseID e \<noteq> []"
    and "ev_Status e \<in> {''paid'', ''refunded'', ''disputed''}"
  shows "Receive s e w =
     (if e_payload_hash r = Some (ev_PayloadHash e) \<or> e_payload_hash r = None \<and> ev_PayloadHash e = [] then ProcessPending s 100 w
      else (Inl (ErrMsg ''payments: event id reused with different payload''), w))"
proof -
  have "insert_event (new_event_row e ts) (db w) = Inr (0, db w)" for ts
    using assms(3,4) by (auto simp: insert_event_def new_event_row_def is_event_def list_ex_iff)
  then show ?thesis
    using assms(1,5,6) find_event [OF assms(2-4)]
    by (auto simp: Receive_def io_ok row_or_none_def split: option.splits)
qed

definition logged_shop :: database where
  "logged_shop = sample_shop\<lparr>payment_events := [new_event_row (sample_event ''e1'' ''paid'' 0) 1786752000]\<rparr>"

lemma logged_shop_simps:
  "payment_events logged_shop = [new_event_row (sample_event ''e1'' ''paid'' 0) 1786752000]" "events_wf logged_shop"
  by (simp_all add: logged_shop_def events_wf_def)

theorem Receive_redelivered_witness:
  "Receive sample_payments ((sample_event ''e1'' ''paid'' 0)\<lparr>ev_PayloadHash := ''other''\<rparr>) (sample_world logged_shop) =
     (Inl (ErrMsg ''payments: event id reused with different payload''), sample_world logged_shop)"
  using Receive_redelivered [where w = "sample_world logged_shop" and r = "new_event_row (sample_event ''e1'' ''paid'' 0) 1786752000"
      and e = "(sample_event ''e1'' ''paid'' 0)\<lparr>ev_PayloadHash := ''other''\<rparr>" and s = sample_payments]
  by (simp add: logged_shop_simps is_event_def) (simp add: sample_event_def new_event_row_def)

section \<open>The head of the queue\<close>

lemma insort_key_map: "(\<And>x. k (g x) = k x) \<Longrightarrow> insort_key k (g x) (map g ys) = map g (insort_key k x ys)"
  by (induction ys) simp_all

lemma sort_key_map: "(\<And>x. k (g x) = k x) \<Longrightarrow> sort_key k (map g xs) = map g (sort_key k xs)"
  by (induction xs) (simp_all add: insort_key_map)

lemma pending_events_same:
  assumes "\<And>r. same_fact r (g r)" "\<And>r. q r \<Longrightarrow> waiting r" "\<And>r. waiting (g r)"
  shows "pending_events limit (d\<lparr>payment_events := update_where q g (payment_events d)\<rparr>) = pending_events limit d"
proof -
  let ?g = "\<lambda>r. if q r then g r else r"
  have fw: "filter waiting (map ?g rs) = map ?g (filter waiting rs)" for rs
    using assms(2,3) by (induction rs) auto
  have "sort_key e_received_at (map ?g rs) = map ?g (sort_key e_received_at rs)" for rs
    using assms(1) by (intro sort_key_map) (simp add: same_fact_def)
  moreover have "event_of_row (?g r) = event_of_row r" for r using assms(1) [of r] by (simp add: same_fact_def event_of_row_def)
  ultimately show ?thesis by (simp add: pending_events_def update_where_def fw take_map comp_def)
qed

definition blocked :: "int \<Rightarrow> Event \<Rightarrow> database \<Rightarrow> bool" where
  "blocked limit e d \<longleftrightarrow>
     events_wf d \<and> (\<forall>r \<in> set (payment_events d). e_process_status r \<noteq> ''processing'') \<and>
     (\<exists>es. pending_events (if limit \<le> 0 then 100 else limit) d = e # es) \<and>
     (\<forall>p \<in> set (payment_purchases d). p_id p \<noteq> ev_PurchaseID e)"

lemma pending_head:
  assumes "pending_events n d = e # es"
  shows "\<exists>r \<in> set (payment_events d). is_event e r \<and> waiting r"
proof -
  from assms have "e \<in> set (pending_events n d)" by simp
  then show ?thesis by (auto simp: pending_events_def event_of_row_def is_event_def dest!: in_set_takeD)
qed

lemma blocked_pass:
  assumes "faults w = []" "blocked limit e (db w)"
  defines "g \<equiv> fail_row ErrNoRows \<circ> claim_row (pnow w)"
  defines "d' \<equiv> db w\<lparr>payment_events := update_where (\<lambda>r. is_event e r \<and> waiting r) g (payment_events (db w))\<rparr>"
  shows "ProcessPending s limit w = (Inl ErrNoRows, w\<lparr>db := d'\<rparr>) \<and> blocked limit e d'"
proof -
  let ?n = "if limit \<le> 0 then 100 else limit"
  from assms(2) obtain es where wf: "events_wf (db w)" and idle: "\<forall>r \<in> set (payment_events (db w)). e_process_status r \<noteq> ''processing''"
    and pe: "pending_events ?n (db w) = e # es" and un: "\<forall>p \<in> set (payment_purchases (db w)). p_id p \<noteq> ev_PurchaseID e"
    unfolding blocked_def by blast
  from pending_head [OF pe] obtain r where r: "r \<in> set (payment_events (db w))" "is_event e r" "waiting r" by blast
  have none: "find (\<lambda>p. p_id p = ev_PurchaseID e) (payment_purchases (db w)) = None" using un by (simp add: find_None_iff_set)
  have lease: "update_events (lease_expired ts) expire_lease (db w) = Inr (0, db w)" for ts
    using idle by (auto simp: update_events_def lease_expired_def update_where_id intro!: update_where_id)
  have n: "count_where (\<lambda>r. is_event e r \<and> waiting r) (payment_events (db w)) \<noteq> 0" using r by auto
  have one: "processOne s e w = (Inl ErrNoRows, w\<lparr>db := d'\<rparr>)"
    using assms(1) n none update_claimed [OF wf r]
    by (simp add: processOne_def io_ok update_events_def PurchaseOf_def row_or_none_def fail_def d'_def g_def)
  have g: "same_fact r (g r)" "waiting (g r)" for r
    unfolding g_def comp_def by (rule same_fact_trans [OF same_fact_rows(1) same_fact_rows(2)]) (simp add: waiting_def fail_row_def)
  have "map (\<lambda>r. (e_provider r, e_event_id r)) (payment_events d') = map (\<lambda>r. (e_provider r, e_event_id r)) (payment_events (db w))"
    unfolding d'_def using g(1) by (simp add: map_update_where same_fact_def)
  then have "blocked limit e d'"
    using wf idle un pe pending_events_same [of g "\<lambda>r. is_event e r \<and> waiting r" ?n "db w"] g
    unfolding blocked_def events_wf_def d'_def by (auto simp: set_update_where waiting_def g_def fail_row_def)
  moreover have "ProcessPending s limit w = (Inl ErrNoRows, w\<lparr>db := d'\<rparr>)"
    using assms(1) one pe by (simp add: ProcessPending_def io_ok lease)
  ultimately show ?thesis by blast
qed

lemma blocked_replay:
  assumes "\<forall>w \<in> set ws. faults w = []" "blocked limit e d"
  shows "let d' = replay (ProcessPending s limit) ws d
         in d' = d\<lparr>payment_events := payment_events d'\<rparr> \<and> blocked limit e d' \<and>
            (\<forall>r \<in> set (payment_events d). \<not> is_event e r \<longrightarrow> r \<in> set (payment_events d'))"
  using assms
proof (induction ws arbitrary: d)
  case (Cons w ws)
  let ?w = "w\<lparr>db := d\<rparr>"
  let ?d = "d\<lparr>payment_events := update_where (\<lambda>r. is_event e r \<and> waiting r) (fail_row ErrNoRows \<circ> claim_row (pnow w)) (payment_events d)\<rparr>"
  have "faults ?w = []" "blocked limit e (db ?w)" using Cons.prems by simp_all
  from blocked_pass [OF this, of s] have run: "db (snd (ProcessPending s limit ?w)) = ?d" and b: "blocked limit e ?d"
    by simp_all
  have keep: "\<forall>r \<in> set (payment_events d). \<not> is_event e r \<longrightarrow> r \<in> set (payment_events ?d)"
    by (force simp: set_update_where)
  have "\<forall>w \<in> set ws. faults w = []" using Cons.prems by simp
  note ih = Cons.IH [OF this b, unfolded Let_def]
  have "?d\<lparr>payment_events := x\<rparr> = d\<lparr>payment_events := x\<rparr>" for x by simp
  from trans [OF conjunct1 [OF ih] this] show ?case using ih keep unfolding Let_def replay_simps run by blast
qed simp

text \<open>C35: an event that cannot be processed blocks everything behind it. If the oldest waiting event names a purchase that
  does not exist, then however often the log is processed, with no fault at all, every pass returns the error of that event,
  no money moves, no purchase changes and no other event is touched, and that event stays the oldest.\<close>

theorem failing_event_blocks_the_queue:
  assumes "\<forall>w \<in> set ws. faults w = []" "blocked limit e d"
  shows "let d' = replay (ProcessPending s limit) ws d
         in d' = d\<lparr>payment_events := payment_events d'\<rparr> \<and> blocked limit e d' \<and>
            (\<forall>r \<in> set (payment_events d). \<not> is_event e r \<longrightarrow> r \<in> set (payment_events d')) \<and>
            (\<forall>n < length ws. fst (ProcessPending s limit ((ws ! n)\<lparr>db := replay (ProcessPending s limit) (take n ws) d\<rparr>)) = Inl ErrNoRows)"
proof -
  have "fst (ProcessPending s limit ((ws ! n)\<lparr>db := replay (ProcessPending s limit) (take n ws) d\<rparr>)) = Inl ErrNoRows"
    if "n < length ws" for n
  proof -
    have "\<forall>w \<in> set (take n ws). faults w = []" using assms(1) set_take_subset [of n ws] by blast
    from blocked_replay [OF this assms(2), of s] have "blocked limit e (replay (ProcessPending s limit) (take n ws) d)"
      by (simp add: Let_def)
    then show ?thesis
      using blocked_pass [of "(ws ! n)\<lparr>db := replay (ProcessPending s limit) (take n ws) d\<rparr>" limit e s] assms(1) that by simp
  qed
  then show ?thesis using blocked_replay [OF assms, of s] by (simp only: Let_def) blast
qed

definition stuck_shop :: database where
  "stuck_shop = sample_shop\<lparr>payment_events :=
     [(new_event_row (sample_event ''e1'' ''paid'' 0) 1786752000),
      (new_event_row (sample_event ''e0'' ''paid'' 0) 1786751000)\<lparr>e_purchase_id := ''unknown''\<rparr>]\<rparr>"

lemma stuck_shop_blocked:
  "blocked 0 ((sample_event ''e0'' ''paid'' 0)\<lparr>ev_PurchaseID := ''unknown'', ev_PayloadHash := []\<rparr>) stuck_shop" (is "blocked 0 ?e _")
proof -
  have "pending_events 100 stuck_shop = [?e, (sample_event ''e1'' ''paid'' 0)\<lparr>ev_PayloadHash := []\<rparr>]" by code_simp
  then show ?thesis
    by (simp add: blocked_def stuck_shop_def events_wf_def sample_shop_def sample_purchase_def new_event_row_def sample_event_def)
qed

theorem failing_event_blocks_the_queue_witness:
  "new_event_row (sample_event ''e1'' ''paid'' 0) 1786752000 \<in>
     set (payment_events (replay (ProcessPending sample_payments 0) [sample_world empty_db, sample_world empty_db] stuck_shop)) \<and>
   fst (ProcessPending sample_payments 0 (sample_world stuck_shop)) = Inl ErrNoRows \<and>
   fst (ProcessPending sample_payments 0 (sample_world (db (snd (ProcessPending sample_payments 0 (sample_world stuck_shop)))))) = Inl ErrNoRows"
proof -
  have w: "(sample_world empty_db)\<lparr>db := d\<rparr> = sample_world d" for d by (simp add: sample_world_def)
  note block = failing_event_blocks_the_queue [OF _ stuck_shop_blocked, of "[sample_world empty_db, sample_world empty_db]" sample_payments,
      unfolded Let_def]
  have "\<forall>n < 2. fst (ProcessPending sample_payments 0 (([sample_world empty_db, sample_world empty_db] ! n)
      \<lparr>db := replay (ProcessPending sample_payments 0) (take n [sample_world empty_db, sample_world empty_db]) stuck_shop\<rparr>)) = Inl ErrNoRows"
    using block by simp
  from this [rule_format, of 0] this [rule_format, of 1]
  have "fst (ProcessPending sample_payments 0 (sample_world stuck_shop)) = Inl ErrNoRows \<and>
     fst (ProcessPending sample_payments 0 (sample_world (db (snd (ProcessPending sample_payments 0 (sample_world stuck_shop)))))) = Inl ErrNoRows"
    by (simp add: w)
  then show ?thesis using block by (auto simp: stuck_shop_def is_event_def new_event_row_def sample_event_def)
qed

section \<open>Progress\<close>

lemma ignore_adjust_ok:
  assumes "faults w = []" "valid_id u" "valid_id src" "valid_id rsn" "valid_id k" "randomIDBytes \<le> length (rnd w)"
    and "\<forall>x \<in> set (credit_transactions (db w)). t_id x \<noteq> hex_encode (take randomIDBytes (rnd w))"
  shows "\<exists>w'. ignore_duplicate (adjustTx u n src rsn k typ) w = (Inr (), w') \<and> faults w' = []"
  using adjust_ok(2) [OF assms] assms(1) by (simp add: ignore_duplicate_def io_defs)

definition bookable :: "Event \<Rightarrow> purchase_row \<Rightarrow> world \<Rightarrow> bool" where
  "bookable e p w \<longleftrightarrow>
     valid_id (p_user_id p) \<and> valid_id (ev_Provider e) \<and> valid_id (''purchase '' @ p_id p) \<and> valid_id (''reversal '' @ p_id p) \<and>
     valid_id (payment_key (ev_Provider e) (ev_PaymentID e)) \<and> valid_id (reversal_key (ev_Provider e) (ev_EventID e)) \<and>
     randomIDBytes \<le> length (rnd w) \<and>
     (\<forall>x \<in> set (credit_transactions (db w)). t_id x \<noteq> hex_encode (take randomIDBytes (rnd w)))"

lemma book_event_ok:
  assumes "faults w = []" "bookable e p w" "0 < p_credits p"
  shows "\<exists>e' w'. book_event GrantTx RefundTx e (purchase_of_row p) w = (Inr e', w') \<and> faults w' = []"
proof -
  have ign: "\<exists>w'. ignore_duplicate (adjustTx (p_user_id p) n (ev_Provider e) rsn k t) w = (Inr (), w') \<and> faults w' = []"
    if "valid_id rsn" "valid_id k" for n rsn k t
    using that assms(1,2) by (intro ignore_adjust_ok) (simp_all add: bookable_def)
  show ?thesis
  proof (cases "ev_Status e = ''paid''")
    case True
    then show ?thesis using ign [of "''purchase '' @ p_id p" "payment_key (ev_Provider e) (ev_PaymentID e)" "p_credits p" "''grant''"]
        assms(2,3) by (auto simp: book_event_def GrantTx_def purchase_fields io_defs bookable_def)
  next
    case False
    then show ?thesis using ign [of "''reversal '' @ p_id p" "reversal_key (ev_Provider e) (ev_EventID e)"
          "wrap64 (- reversal_amount (purchase_of_row p) e)" "''refund''"] assms(1,2)
      by (auto simp: book_event_def Let_def RefundTx_def purchase_fields io_defs bookable_def)
  qed
qed

lemma write_event_ok:
  assumes "faults w = []" "ev_PaymentID e' = ev_PaymentID e" "p \<in> set (payment_purchases (db w))" "no_clash e p (db w)"
    "distinct (map p_id (payment_purchases (db w)))"
  shows "\<exists>w'. write_event e' (purchase_of_row p) ts w = (Inr (), w') \<and> faults w' = []"
proof -
  let ?f = "if ev_Status e' = ''paid'' then paid_row e' ts
        else reversed_row e' (newReversed (purchase_of_row p) (ev_ReversedCredits e')) ts"
  have "p_payment_id (?f x) = Some (ev_PaymentID e)" for x by (simp add: paid_row_def reversed_row_def assms(2))
  moreover have "x = p" if "x \<in> set (payment_purchases (db w))" "p_id x = p_id p" for x
    using key_inj [OF assms(5) that(1) assms(3) that(2)] .
  ultimately have "\<exists>n d. update_purchase ?f (p_id p) (db w) = Inr (n, d)"
    using assms(4) by (auto simp: update_purchase_def list_ex_iff no_clash_def)
  then show ?thesis using assms(1) by (auto simp: write_event_def purchase_fields io_ok update_events_def)
qed

text \<open>C25: without faults an event that waits and whose purchase exists, belongs to the same provider and payment and clashes
  with no other purchase, is processed to the end: the run returns no error and the booking, the purchase and the
  event are written.\<close>

theorem processOne_succeeds:
  assumes "ps_ledger s = CreditsService" "faults w = []" "pay_inv (db w)"
    and "r \<in> set (payment_events (db w))" "is_event e r" "waiting r"
    and "p \<in> set (payment_purchases (db w))" "p_id p = ev_PurchaseID e" "\<not> identity_conflict e (purchase_of_row p)"
    and "no_clash e p (db w)" "bookable e p w"
  shows "\<exists>w'. processOne s e w = (Inr (), w') \<and> fulfilled e (pnow w) (db w) (db w')"
proof -
  have wf: "events_wf (db w)" and ids: "distinct (map p_id (payment_purchases (db w)))" and ok: "0 < p_credits p"
    using assms(3,7) by (auto simp: pay_inv_defs purchase_ok_def dest: small_priceD)
  let ?d = "db w\<lparr>payment_events := update_where (\<lambda>r. is_event e r \<and> waiting r) (claim_row (pnow w)) (payment_events (db w))\<rparr>"
  let ?w = "w\<lparr>db := ?d\<rparr>"
  have fp: "find (\<lambda>x. p_id x = ev_PurchaseID e) (payment_purchases (db w)) = Some p"
    using find_key [OF ids assms(7)] assms(8) by simp
  obtain e' w1 where b: "book_event GrantTx RefundTx e (purchase_of_row p) ?w = (Inr e', w1)" "faults w1 = []"
    using book_event_ok [of ?w e p] assms(2,11) ok by (auto simp: bookable_def)
  note bk = book_event_Inr [OF b(1)]
  have "payment_purchases (db w1) = payment_purchases (db w)" using booked_other [OF conjunct1 [OF bk]] by simp
  moreover have "ev_PaymentID e' = ev_PaymentID e" using bk by auto
  ultimately obtain w2 where wr: "write_event e' (purchase_of_row p) (pnow w) w1 = (Inr (), w2)" "faults w2 = []"
    using write_event_ok [of w1 e' e p] b(2) assms(7,10) ids by (auto simp: no_clash_def)
  have tx: "process_tx e (purchase_of_row p) (pnow w) ?w = (Inr (Commit Applied), w2)"
    using b(1) wr(1) by (simp add: process_tx_def write_tx_def io_defs)
  have "processOne s e w = (Inr (), w2)"
    using assms(1,2,4-6,9) fp tx wr(2)
    by (auto simp: processOne_def io_ok update_events_def PurchaseOf_def row_or_none_def finish_event_def)
  moreover have "fulfilled e (pnow w) (db w) (db w2)"
    by (rule process_tx_fulfilled [OF wf assms(4-6) _ assms(7-9) tx]) simp
  ultimately show ?thesis by blast
qed

lemma logged_shop_inv: "pay_inv logged_shop"
proof -
  have "credits_inv logged_shop" by (simp add: logged_shop_def sample_shop_def credits_inv_empty)
  then show ?thesis
    by (simp add: pay_inv_defs logged_shop_simps purchase_ok_def)
      (auto simp: logged_shop_def sample_shop_def sample_purchase_def new_event_row_def sample_event_def plain_def key_used_def
        grants_for_def refunds_for_def owners_ok_def small_price_def max_int64_def)
qed

lemma sample_bookable: "credit_transactions d = [] \<Longrightarrow> bookable (sample_event ''e1'' ''paid'' 0) sample_purchase (sample_world d)"
proof -
  assume d: "credit_transactions d = []"
  have "valid_id (p_user_id sample_purchase)" "valid_id (ev_Provider (sample_event ''e1'' ''paid'' 0))"
    "valid_id (''purchase '' @ p_id sample_purchase)" "valid_id (''reversal '' @ p_id sample_purchase)"
    "valid_id (payment_key (ev_Provider (sample_event ''e1'' ''paid'' 0)) (ev_PaymentID (sample_event ''e1'' ''paid'' 0)))"
    "valid_id (reversal_key (ev_Provider (sample_event ''e1'' ''paid'' 0)) (ev_EventID (sample_event ''e1'' ''paid'' 0)))"
    by (code_simp, code_simp, code_simp, code_simp, code_simp, code_simp)
  then show ?thesis by (simp add: bookable_def d randomIDBytes_def)
qed

theorem processOne_succeeds_witness:
  "\<exists>w'. processOne sample_payments (sample_event ''e1'' ''paid'' 0) (sample_world logged_shop) = (Inr (), w') \<and>
     fulfilled (sample_event ''e1'' ''paid'' 0) (pnow (sample_world logged_shop)) (db (sample_world logged_shop)) (db w')"
proof (rule processOne_succeeds [where r = "new_event_row (sample_event ''e1'' ''paid'' 0) 1786752000" and p = sample_purchase])
  have p: "payment_purchases logged_shop = [sample_purchase]" "credit_transactions logged_shop = []"
    by (simp_all add: logged_shop_def sample_shop_def)
  show "sample_purchase \<in> set (payment_purchases (db (sample_world logged_shop)))"
    "no_clash (sample_event ''e1'' ''paid'' 0) sample_purchase (db (sample_world logged_shop))"
    by (simp_all add: p no_clash_def)
  show "bookable (sample_event ''e1'' ''paid'' 0) sample_purchase (sample_world logged_shop)" by (rule sample_bookable [OF p(2)])
  show "\<not> identity_conflict (sample_event ''e1'' ''paid'' 0) (purchase_of_row sample_purchase)" by code_simp
  show "waiting (new_event_row (sample_event ''e1'' ''paid'' 0) 1786752000)" by code_simp
  show "is_event (sample_event ''e1'' ''paid'' 0) (new_event_row (sample_event ''e1'' ''paid'' 0) 1786752000)" by code_simp
  show "p_id sample_purchase = ev_PurchaseID (sample_event ''e1'' ''paid'' 0)" by code_simp
qed (simp_all add: sample_payments_ok logged_shop_inv logged_shop_simps)

section \<open>Where the code falls short\<close>

text \<open>Two refunds of the paid sample purchase, both claimed by their workers.\<close>

definition race_shop :: database where
  "race_shop = empty_db\<lparr>
     credit_accounts := [\<lparr>a_user_id = ''u1'', a_balance = 100, a_updated_at = 1786751500\<rparr>],
     credit_transactions := [\<lparr>t_id = ''g1'', t_user_id = ''u1'', t_amount = 100, t_type = ''grant'', t_source = ''stripe'',
       t_reference_id = None, t_idempotency_key = Some ''payment:stripe:pi1'',
       t_metadata = Some [(''reason'', ''purchase pu1'')], t_created_at = 1786751500\<rparr>],
     payment_purchases := [sample_purchase\<lparr>p_payment_id := Some ''pi1'', p_status := ''paid'', p_fulfilled_at := Some 1786751500\<rparr>],
     payment_events := map (claim_row 1786752000) [new_event_row (sample_event ''e2'' ''refunded'' 500) 1786752000,
       new_event_row (sample_event ''e3'' ''refunded'' 1000) 1786752000]\<rparr>"

text \<open>The tables after the first of the two transactions.\<close>

definition race_shop1 :: database where
  "race_shop1 = race_shop\<lparr>
     credit_accounts := [\<lparr>a_user_id = ''u1'', a_balance = 50, a_updated_at = 1786752000\<rparr>],
     credit_transactions := credit_transactions race_shop @ [\<lparr>t_id = ''000102030405060708090a0b0c0d0e0f'', t_user_id = ''u1'',
       t_amount = - 50, t_type = ''refund'', t_source = ''stripe'', t_reference_id = None,
       t_idempotency_key = Some ''reversal:stripe:e2'', t_metadata = Some [(''reason'', ''reversal pu1'')], t_created_at = 1786752000\<rparr>],
     payment_purchases := map (reversed_row (sample_event ''e2'' ''refunded'' 500) 50 1786752000) (payment_purchases race_shop),
     payment_events := update_where (is_event (sample_event ''e2'' ''refunded'' 500)) (applied_row 1786752000) (payment_events race_shop)\<rparr>"

abbreviation race_world :: world where
  "race_world \<equiv> (sample_world race_shop1)\<lparr>rnd := map char_of [16 ..< 64 :: nat]\<rparr>"

abbreviation race_purchase :: Purchase where
  "race_purchase \<equiv> purchase_of_row
     (sample_purchase\<lparr>p_payment_id := Some ''pi1'', p_status := ''paid'', p_fulfilled_at := Some 1786751500\<rparr>)"

lemma race_first:
  "transaction (process_tx (sample_event ''e2'' ''refunded'' 500) race_purchase 1786752000) (sample_world race_shop) =
     (Inr Applied, race_world)"
  by code_simp

lemma race_second:
  "case transaction (process_tx (sample_event ''e3'' ''refunded'' 1000) race_purchase 1786752000) race_world of (x, w2) \<Rightarrow>
     x = Inr Applied \<and> map e_process_status (payment_events (db w2)) = [''applied'', ''applied''] \<and>
     map p_reversed_credits (payment_purchases (db w2)) = [100] \<and> refunds_for (db w2) ''pu1'' = 150"
  by code_simp

text \<open>What one reversal writes when it is computed from the copy \<open>p\<close> of its purchase, whatever the tables hold by then.\<close>

lemma reversal_from_copy:
  assumes p: "small_price (pu_Credits p) (pu_AmountMinor p)" "0 \<le> pu_ReversedCredits p" "pu_ReversedCredits p \<le> pu_Credits p"
    and e: "ev_Status e \<noteq> ''paid''" "\<not> key_used (db w) (reversal_key (ev_Provider e) (ev_EventID e))"
    and t: "t = reversal_target (pu_Credits p) (pu_AmountMinor p) (ev_ReversedMinor e)" "pu_ReversedCredits p < t"
    and run: "transaction (process_tx e p ts) w = (Inr Applied, w')"
  shows "refunds_for (db w') (pu_ID p) = refunds_for (db w) (pu_ID p) + (t - pu_ReversedCredits p) \<and>
         (\<forall>k. key_used (db w') k \<longrightarrow> key_used (db w) k \<or> k = reversal_key (ev_Provider e) (ev_EventID e)) \<and>
         (\<forall>q \<in> set (payment_purchases (db w')). p_id q = pu_ID p \<longrightarrow> p_reversed_credits q = t)"
proof -
  obtain w1 where tx: "process_tx e p ts (w\<lparr>faults := tl (faults w)\<rparr>) = (Inr (Commit Applied), w1)" and d': "db w' = db w1"
    using run by (cases rule: process_transaction) simp_all
  obtain e' w2 where b: "book_event GrantTx RefundTx e p (w\<lparr>faults := tl (faults w)\<rparr>) = (Inr e', w2)"
    and wr: "write_event e' p ts w2 = (Inr (), w1)" using process_tx_Commit [OF tx] by blast
  have am: "reversal_amount p e = t - pu_ReversedCredits p" using reversal_amount_eq [OF p] t(1) by simp
  have c: "t \<le> pu_Credits p" "pu_Credits p \<le> max_int64" using reversal_target_bounds small_priceD [OF p(1)] t(1) by auto
  have wrap: "wrap64 (pu_ReversedCredits p - t) = pu_ReversedCredits p - t" "wrap64 (pu_ReversedCredits p + (t - pu_ReversedCredits p)) = t"
    using c p(2) t(2) by (auto intro!: wrap64_id simp: in64_def max_int64_def)
  from book_event_Inr [OF b] have e': "e' = e\<lparr>ev_ReversedCredits := t - pu_ReversedCredits p\<rparr>" and bk: "booked e p (db w) (db w2)"
    using e(1) am by auto
  from bk obtain x ts' where x: "db w2 = posted x ts' (db w)" "t_amount x = - (t - pu_ReversedCredits p)" "t_type x = ''refund''"
    "t_idempotency_key x = Some (reversal_key (ev_Provider e) (ev_EventID e))" "t_metadata x = Some [(''reason'', ''reversal '' @ pu_ID p)]"
    using e t(2) am by (auto simp: booked_def keyed_post_def wrap)
  from write_event_Inr [OF wr] have d1: "db w1 = (db w2)\<lparr>payment_purchases := update_where (\<lambda>q. p_id q = pu_ID p)
       (reversed_row e' (newReversed p (t - pu_ReversedCredits p)) ts) (payment_purchases (db w2)),
     payment_events := update_where (is_event e') (applied_row ts) (payment_events (db w2))\<rparr>"
    using e(1) by (simp add: e')
  have "newReversed p (t - pu_ReversedCredits p) = t" using t(2) wrap(2) by (simp add: newReversed_def)
  then have "\<forall>q \<in> set (payment_purchases (db w')). p_id q = pu_ID p \<longrightarrow> p_reversed_credits q = t"
    by (auto simp: d' d1 set_update_where reversed_row_def)
  moreover have "refunds_for (db w') (pu_ID p) = refunds_for (db w2) (pu_ID p)" "key_used (db w') k = key_used (db w2) k" for k
    by (simp_all add: d' d1 refunds_for_def key_used_def)
  moreover have "key_used (db w2) k \<longleftrightarrow> key_used (db w) k \<or> k = reversal_key (ev_Provider e) (ev_EventID e)" for k
    using x(4) by (auto simp: x(1) key_used_def posted_def)
  ultimately show ?thesis using for_posted(2) [OF x(3,5)] x(2) by (simp add: x(1))
qed

text \<open>C40: \<open>processOne\<close> reads the purchase before its transaction begins. When two workers have both read it and then both
  commit a reversal that takes something back, the ledger refunds the share of each, less only what was taken back before
  either: more than the larger share, which is what the provider's cumulative figures ask for. The purchase records only
  the share of the worker that came last. So for half of the money and then all of it, 150 of 100 bought credits are
  refunded (the witness), and both events are applied without an error.\<close>

theorem stale_purchase_over_refunds:
  assumes read: "PurchaseOf pid w0 = (Inr p, w0')"
    and p: "small_price (pu_Credits p) (pu_AmountMinor p)" "0 \<le> pu_ReversedCredits p" "pu_ReversedCredits p \<le> pu_Credits p"
      "refunds_for (db w) pid = pu_ReversedCredits p"
    and e1: "ev_Status e1 \<noteq> ''paid''" "\<not> key_used (db w) (reversal_key (ev_Provider e1) (ev_EventID e1))"
      "t1 = reversal_target (pu_Credits p) (pu_AmountMinor p) (ev_ReversedMinor e1)" "pu_ReversedCredits p < t1"
    and e2: "ev_Status e2 \<noteq> ''paid''" "\<not> key_used (db w) (reversal_key (ev_Provider e2) (ev_EventID e2))"
      "t2 = reversal_target (pu_Credits p) (pu_AmountMinor p) (ev_ReversedMinor e2)" "pu_ReversedCredits p < t2"
    and two: "ev_Provider e1 = ev_Provider e2" "ev_EventID e1 \<noteq> ev_EventID e2"
    and run: "transaction (process_tx e1 p ts1) w = (Inr Applied, w1)" "db w1' = db w1"
      "transaction (process_tx e2 p ts2) w1' = (Inr Applied, w2)"
  shows "refunds_for (db w2) pid = t1 + t2 - pu_ReversedCredits p \<and> refunds_for (db w2) pid > max t1 t2 \<and>
         (\<forall>q \<in> set (payment_purchases (db w2)). p_id q = pid \<longrightarrow> p_reversed_credits q = t2)"
proof -
  have pid: "pu_ID p = pid" using PurchaseOf_any [OF read] by (auto simp: purchase_of_row_def)
  note first = reversal_from_copy [OF p(1-3) e1 run(1), unfolded pid]
  have "\<not> key_used (db w1') (reversal_key (ev_Provider e2) (ev_EventID e2))"
    using first e2(2) two by (auto simp: run(2) reversal_key_def)
  from reversal_from_copy [OF p(1-3) e2(1) this e2(3,4) run(3), unfolded pid] first
  show ?thesis using p(4) e1(4) e2(4) by (simp add: run(2))
qed

theorem stale_purchase_over_refunds_witness:
  "\<exists>p w1 w2. PurchaseOf ''pu1'' (sample_world race_shop) = (Inr p, sample_world race_shop) \<and>
     transaction (process_tx (sample_event ''e2'' ''refunded'' 500) p 1786752000) (sample_world race_shop) = (Inr Applied, w1) \<and>
     transaction (process_tx (sample_event ''e3'' ''refunded'' 1000) p 1786752000) w1 = (Inr Applied, w2) \<and>
     map e_process_status (payment_events (db w2)) = [''applied'', ''applied''] \<and>
     map p_reversed_credits (payment_purchases (db w2)) = [100] \<and> refunds_for (db w2) ''pu1'' = 150"
proof -
  obtain w2 where second: "transaction (process_tx (sample_event ''e3'' ''refunded'' 1000) race_purchase 1786752000) race_world = (Inr Applied, w2)"
    and w2: "map e_process_status (payment_events (db w2)) = [''applied'', ''applied'']" "map p_reversed_credits (payment_purchases (db w2)) = [100]"
    using race_second by (auto split: prod.splits)
  have read: "PurchaseOf ''pu1'' (sample_world race_shop) = (Inr race_purchase, sample_world race_shop)" by code_simp
  have p: "pu_Credits race_purchase = 100" "pu_AmountMinor race_purchase = 1000" "pu_ReversedCredits race_purchase = 0"
    by (simp_all add: purchase_of_row_def sample_purchase_def)
  have unused: "\<not> key_used race_shop (reversal_key x y)" for x y by (simp add: race_shop_def key_used_def reversal_key_def)
  have "refunds_for (db w2) ''pu1'' = 50 + 100 - pu_ReversedCredits race_purchase"
  proof (rule conjunct1 [OF stale_purchase_over_refunds [OF read _ _ _ _ _ _ _ _ _ _ _ _ _ _ race_first refl second]])
    show "small_price (pu_Credits race_purchase) (pu_AmountMinor race_purchase)" by (simp add: p small_price_def max_int64_def)
    show "refunds_for (db (sample_world race_shop)) ''pu1'' = pu_ReversedCredits race_purchase"
      by (simp add: p) (simp add: race_shop_def refunds_for_def)
  qed (simp_all add: p unused, simp_all add: sample_event_def reversal_target_def)
  then show ?thesis using read race_first second w2 p(3) by fastforce
qed

lemma write_event_clash:
  assumes "faults w = []" "ev_PaymentID e' = ev_PaymentID e" "p \<in> set (payment_purchases (db w))" "\<not> no_clash e p (db w)"
  shows "write_event e' (purchase_of_row p) ts w = (Inl (SqlUnique ''payment_purchases.provider, payment_purchases.payment_id''), w)"
proof -
  let ?f = "if ev_Status e' = ''paid'' then paid_row e' ts
        else reversed_row e' (newReversed (purchase_of_row p) (ev_ReversedCredits e')) ts"
  have "p_payment_id (?f x) = Some (ev_PaymentID e)" for x by (simp add: paid_row_def reversed_row_def assms(2))
  then have "update_purchase ?f (p_id p) (db w) = Inl (SqlUnique ''payment_purchases.provider, payment_purchases.payment_id'')"
    using assms(3,4) unfolding update_purchase_def no_clash_def list_ex_iff by auto
  then show ?thesis using assms(1) by (simp add: write_event_def purchase_fields io_ok)
qed

text \<open>When the transaction itself fails to write, \<open>processOne\<close> calls \<open>fail\<close> while that transaction is still open and
  holds the write lock. So for a payment that another purchase already claims the run reports the violated constraint,
  but the event is not marked failed: it stays \<open>processing\<close>, with no error recorded, until its lease runs out.\<close>

theorem clashing_payment_stays_processing:
  assumes "ps_ledger s = CreditsService" "faults w = []" "pay_inv (db w)"
    and "r \<in> set (payment_events (db w))" "is_event e r" "waiting r"
    and "p \<in> set (payment_purchases (db w))" "p_id p = ev_PurchaseID e" "\<not> identity_conflict e (purchase_of_row p)"
    and "\<not> no_clash e p (db w)" "bookable e p w"
  shows "\<exists>w'. processOne s e w = (Inl (SqlUnique ''payment_purchases.provider, payment_purchases.payment_id''), w') \<and>
     db w' = db w\<lparr>payment_events := update_where (\<lambda>r. is_event e r \<and> waiting r) (claim_row (pnow w)) (payment_events (db w))\<rparr>"
proof -
  have ids: "distinct (map p_id (payment_purchases (db w)))" and ok: "0 < p_credits p"
    using assms(3,7) by (auto simp: pay_inv_defs purchase_ok_def dest: small_priceD)
  let ?d = "db w\<lparr>payment_events := update_where (\<lambda>r. is_event e r \<and> waiting r) (claim_row (pnow w)) (payment_events (db w))\<rparr>"
  let ?w = "w\<lparr>db := ?d\<rparr>"
  have fp: "find (\<lambda>x. p_id x = ev_PurchaseID e) (payment_purchases (db w)) = Some p"
    using find_key [OF ids assms(7)] assms(8) by simp
  obtain e' w1 where b: "book_event GrantTx RefundTx e (purchase_of_row p) ?w = (Inr e', w1)" "faults w1 = []"
    using book_event_ok [of ?w e p] assms(2,11) ok by (auto simp: bookable_def)
  note bk = book_event_Inr [OF b(1)]
  have "payment_purchases (db w1) = payment_purchases (db w)" using booked_other [OF conjunct1 [OF bk]] by simp
  moreover have "ev_PaymentID e' = ev_PaymentID e" using bk by auto
  ultimately have wr: "write_event e' (purchase_of_row p) (pnow w) w1 =
      (Inl (SqlUnique ''payment_purchases.provider, payment_purchases.payment_id''), w1)"
    using write_event_clash [of w1 e' e p] b(2) assms(7,10) by (auto simp: no_clash_def)
  have tx: "process_tx e (purchase_of_row p) (pnow w) ?w =
      (Inr (Abandon (WriteFailed (SqlUnique ''payment_purchases.provider, payment_purchases.payment_id''))), w1)"
    using b(1) wr by (simp add: process_tx_def write_tx_def io_defs)
  show ?thesis
    using assms(1,2,4-6,9) fp tx b(2)
    by (auto simp: processOne_def io_ok update_events_def PurchaseOf_def row_or_none_def finish_event_def fail_locked_def)
qed

definition clash_shop :: database where
  "clash_shop = empty_db\<lparr>payment_purchases := [sample_purchase,
     sample_purchase\<lparr>p_id := ''pu2'', p_payment_id := Some ''pi1'', p_status := ''disputed''\<rparr>],
     payment_events := [new_event_row (sample_event ''e1'' ''paid'' 0) 1786752000]\<rparr>"

lemma clash_shop_inv: "pay_inv clash_shop"
proof -
  have "credits_inv clash_shop" by (simp add: clash_shop_def credits_inv_empty)
  then show ?thesis
    by (simp add: pay_inv_defs purchase_ok_def)
      (auto simp: clash_shop_def events_wf_def sample_purchase_def new_event_row_def sample_event_def plain_def key_used_def
        grants_for_def refunds_for_def owners_ok_def small_price_def max_int64_def)
qed

theorem clashing_payment_stays_processing_witness:
  "\<exists>w'. processOne sample_payments (sample_event ''e1'' ''paid'' 0) (sample_world clash_shop) =
       (Inl (SqlUnique ''payment_purchases.provider, payment_purchases.payment_id''), w') \<and>
     map e_process_status (payment_events (db w')) = [''processing'']"
proof -
  let ?r = "new_event_row (sample_event ''e1'' ''paid'' 0) 1786752000"
  have d: "payment_purchases clash_shop = [sample_purchase, sample_purchase\<lparr>p_id := ''pu2'', p_payment_id := Some ''pi1'', p_status := ''disputed''\<rparr>]"
    "payment_events clash_shop = [?r]" "credit_transactions clash_shop = []"
    by (simp_all add: clash_shop_def)
  have ids: "p_id sample_purchase = ev_PurchaseID (sample_event ''e1'' ''paid'' 0)" "is_event (sample_event ''e1'' ''paid'' 0) ?r"
    "waiting ?r" "\<not> identity_conflict (sample_event ''e1'' ''paid'' 0) (purchase_of_row sample_purchase)"
    by (code_simp, code_simp, code_simp, code_simp)
  have cl: "\<not> no_clash (sample_event ''e1'' ''paid'' 0) sample_purchase clash_shop"
    by (simp add: no_clash_def d) (simp add: sample_event_def sample_purchase_def)
  from clashing_payment_stays_processing [where s = sample_payments and w = "sample_world clash_shop" and r = ?r and p = sample_purchase
      and e = "sample_event ''e1'' ''paid'' 0"] sample_payments_ok clash_shop_inv ids cl sample_bookable [OF d(3)]
  show ?thesis by (auto simp: d claim_row_def)
qed

end
