(* ===== verification/Worker.thy ===== *)
theory Worker
  imports Payment_Runs
begin

text \<open>
  The background worker of \<open>src/payments/worker.go\<close> and the provider subscriptions of \<open>src/payments/payments.go\<close> over time.

  \<open>Run\<close> is the worker's loop over a finite sequence of ticks; it ends, like the Go loop, when its context is cancelled:
  when the sequence is used up, or during the wait after a failed pass (\<open>tk_cancelled\<close>). Every tick brings the world it
  runs in (faults, clocks, random bytes); the tables are handed on. Durations are nanoseconds. The loop returns the final
  backoff, the events handed to the dead-letter function, in order, and the tables.
\<close>

section \<open>The worker\<close>

record WorkerConfig =
  wc_Interval :: int
  wc_BatchSize :: int
  wc_MaxAttempts :: int
  wc_DeadLetter :: bool

record Worker =
  wk_svc :: PaymentsService
  wk_interval :: int
  wk_batchSize :: int
  wk_maxAttempts :: int
  wk_deadLetterFunc :: bool

abbreviation second :: int where "second \<equiv> 1000000000"

definition NewWorker :: "PaymentsService \<Rightarrow> WorkerConfig \<Rightarrow> Worker" where
  "NewWorker svc cfg =
     \<lparr>wk_svc = svc,
      wk_interval = (if wc_Interval cfg \<le> 0 then 10 * second else wc_Interval cfg),
      wk_batchSize = (if wc_BatchSize cfg \<le> 0 then 100 else wc_BatchSize cfg),
      wk_maxAttempts = (if wc_MaxAttempts cfg \<le> 0 then 10 else wc_MaxAttempts cfg),
      wk_deadLetterFunc = wc_DeadLetter cfg\<rparr>"

text \<open>The rows \<open>checkDeadLetter\<close> selects, as the events it builds from them (without \<open>ReversedMinor\<close>).\<close>

definition dead_letters :: "int \<Rightarrow> database \<Rightarrow> Event list" where
  "dead_letters maxAttempts d =
     map (\<lambda>r. (event_of_row r)\<lparr>ev_ReversedMinor := 0\<rparr>)
       (filter (\<lambda>r. e_process_status r = ''failed'' \<and> e_attempt_count r \<ge> maxAttempts) (payment_events d))"

definition checkDeadLetter :: "Worker \<Rightarrow> world \<Rightarrow> Event list \<times> world" where
  "checkDeadLetter wk w =
     (if \<not> wk_deadLetterFunc wk then ([], w)
      else case query (\<lambda>d. Inr (dead_letters (wk_maxAttempts wk) d)) w of
             (Inl _, w') \<Rightarrow> ([], w')
           | (Inr es, w') \<Rightarrow> (es, w'))"

definition next_backoff :: "int \<Rightarrow> int" where
  "next_backoff b = (if b < 30 * second then wrap64 (b * 2) else b)"

record tick =
  tk_world :: world
  tk_cancelled :: bool

fun Run :: "Worker \<Rightarrow> tick list \<Rightarrow> int \<Rightarrow> Event list \<Rightarrow> database \<Rightarrow> int \<times> Event list \<times> database" where
  "Run wk [] backoff dead d = (backoff, dead, d)"
| "Run wk (t # ts) backoff dead d =
     (case ProcessPending (wk_svc wk) (wk_batchSize wk) ((tk_world t)\<lparr>db := d\<rparr>) of
        (Inl err, w) \<Rightarrow>
          if tk_cancelled t then (backoff, dead, db w)
          else (case checkDeadLetter wk w of (es, w') \<Rightarrow> Run wk ts (next_backoff backoff) (dead @ es) (db w'))
      | (Inr _, w) \<Rightarrow> (case checkDeadLetter wk w of (es, w') \<Rightarrow> Run wk ts second (dead @ es) (db w')))"

definition backoffs :: "int list" where
  "backoffs = [second, 2 * second, 4 * second, 8 * second, 16 * second, 32 * second]"

lemma next_backoff_closed: "b \<in> set backoffs \<Longrightarrow> next_backoff b \<in> set backoffs"
  by (auto simp: backoffs_def next_backoff_def wrap64_id in64_def)

lemma checkDeadLetter_db: "checkDeadLetter wk w = (es, w') \<Longrightarrow> db w' = db w"
  by (auto simp: checkDeadLetter_def dest: query_any split: if_splits prod.splits sum.splits)

text \<open>The backoff of the worker starts at one second, doubles with every failed pass and falls back to one second
  after a pass without an error; it is always one of 1, 2, 4, 8, 16 and 32 seconds. (The comment of \<open>Run\<close> gives
  30 seconds as its limit.)\<close>

theorem Run_backoff_bounded:
  "fst (Run wk ts second [] d) \<in> set backoffs"
proof -
  have "fst (Run wk ts b dead d) \<in> set backoffs" if "b \<in> set backoffs" for b dead
    using that
  proof (induction ts arbitrary: b dead d)
    case (Cons t ts)
    have "second \<in> set backoffs" by (simp add: backoffs_def)
    then show ?case using Cons next_backoff_closed [OF Cons.prems] by (auto split: prod.splits sum.splits)
  qed simp
  then show ?thesis by (simp add: backoffs_def)
qed

lemma dead_letter_listed:
  assumes "r \<in> set (payment_events d)" "is_event e r" "e_process_status r = ''failed''" "n \<le> e_attempt_count r"
  shows "1 \<le> length (filter (\<lambda>x. ev_EventID x = ev_EventID e) (dead_letters n d))"
proof -
  let ?x = "(event_of_row r)\<lparr>ev_ReversedMinor := 0\<rparr>"
  have "?x \<in> set (dead_letters n d)" using assms by (auto simp: dead_letters_def)
  moreover have "ev_EventID ?x = ev_EventID e" using assms(2) by (simp add: is_event_def event_of_row_def)
  ultimately have "?x \<in> set (filter (\<lambda>x. ev_EventID x = ev_EventID e) (dead_letters n d))" by simp
  then show ?thesis by (cases "filter (\<lambda>x. ev_EventID x = ev_EventID e) (dead_letters n d)") simp_all
qed

text \<open>C36: the dead-letter function retires nothing. While an event whose purchase does not exist is the oldest in the queue,
  the worker claims it again on every tick, with no bound on the number of attempts, and hands it to the
  dead-letter function on every tick from the \<open>maxAttempts\<close>-th attempt on.\<close>

theorem Run_retries_forever:
  assumes "\<forall>t \<in> set ts. faults (tk_world t) = [] \<and> \<not> tk_cancelled t" "blocked (wk_batchSize wk) e d"
    and "r \<in> set (payment_events d)" "is_event e r" "waiting r"
  shows "let (b, dead, d') = Run wk ts backoff [] d
         in (\<exists>r' \<in> set (payment_events d'). is_event e r' \<and> e_attempt_count r' = e_attempt_count r + int (length ts)) \<and>
            (wk_deadLetterFunc wk \<and> wk_maxAttempts wk \<le> e_attempt_count r + 1 \<longrightarrow>
               length ts \<le> length (filter (\<lambda>x. ev_EventID x = ev_EventID e) dead))"
proof -
  have "\<exists>b dead' d'. Run wk ts backoff dead d = (b, dead @ dead', d') \<and>
      (\<exists>r' \<in> set (payment_events d'). is_event e r' \<and> e_attempt_count r' = e_attempt_count r + int (length ts)) \<and>
      (wk_deadLetterFunc wk \<and> wk_maxAttempts wk \<le> e_attempt_count r + 1 \<longrightarrow>
         length ts \<le> length (filter (\<lambda>x. ev_EventID x = ev_EventID e) dead'))" for dead
    using assms
  proof (induction ts arbitrary: d r dead backoff)
    case (Cons t ts)
    let ?w = "(tk_world t)\<lparr>db := d\<rparr>"
    let ?g = "fail_row ErrNoRows \<circ> claim_row (pnow (tk_world t))"
    let ?d = "d\<lparr>payment_events := update_where (\<lambda>r. is_event e r \<and> waiting r) ?g (payment_events d)\<rparr>"
    have "faults ?w = []" "blocked (wk_batchSize wk) e (db ?w)" using Cons.prems by simp_all
    from blocked_pass [OF this, of "wk_svc wk"]
    have pp: "ProcessPending (wk_svc wk) (wk_batchSize wk) ?w = (Inl ErrNoRows, (tk_world t)\<lparr>db := ?d\<rparr>)"
      and b: "blocked (wk_batchSize wk) e ?d" by simp_all
    let ?r = "?g r" and ?es = "if wk_deadLetterFunc wk then dead_letters (wk_maxAttempts wk) ?d else []"
    have r': "?r \<in> set (payment_events ?d)" "is_event e ?r" "waiting ?r" "e_attempt_count ?r = e_attempt_count r + 1"
      "e_process_status ?r = ''failed''"
      using Cons.prems by (force simp: set_update_where, simp_all add: is_event_def waiting_def fail_row_def claim_row_def)
    have cd: "checkDeadLetter wk ((tk_world t)\<lparr>db := ?d\<rparr>) = (?es, (tk_world t)\<lparr>db := ?d\<rparr>)"
      using Cons.prems(1) by (simp add: checkDeadLetter_def query_ok)
    have one: "1 \<le> length (filter (\<lambda>x. ev_EventID x = ev_EventID e) ?es)"
      if "wk_deadLetterFunc wk \<and> wk_maxAttempts wk \<le> e_attempt_count r + 1"
      using that dead_letter_listed [OF r'(1,2,5), of "wk_maxAttempts wk"] r'(4) by simp
    have "\<forall>t \<in> set ts. faults (tk_world t) = [] \<and> \<not> tk_cancelled t" using Cons.prems by simp
    from Cons.IH [OF this b r'(1-3), of "next_backoff backoff" "dead @ ?es"]
    obtain b' dead' d' where ih: "Run wk ts (next_backoff backoff) (dead @ ?es) ?d = (b', (dead @ ?es) @ dead', d')"
      "\<exists>r' \<in> set (payment_events d'). is_event e r' \<and> e_attempt_count r' = e_attempt_count ?r + int (length ts)"
      "wk_deadLetterFunc wk \<and> wk_maxAttempts wk \<le> e_attempt_count ?r + 1 \<longrightarrow>
         length ts \<le> length (filter (\<lambda>x. ev_EventID x = ev_EventID e) dead')" by blast
    have "Run wk (t # ts) backoff dead d = (b', dead @ (?es @ dead'), d')" using pp cd ih(1) Cons.prems(1) by simp
    moreover have "\<exists>r' \<in> set (payment_events d'). is_event e r' \<and> e_attempt_count r' = e_attempt_count r + int (length (t # ts))"
      using ih(2) r'(4) by auto
    moreover have "wk_deadLetterFunc wk \<and> wk_maxAttempts wk \<le> e_attempt_count r + 1 \<longrightarrow>
        length (t # ts) \<le> length (filter (\<lambda>x. ev_EventID x = ev_EventID e) (?es @ dead'))"
      using ih(3) one r'(4) by auto
    ultimately show ?case by blast
  qed auto
  from this [of "[]"] show ?thesis by (auto simp: Let_def)
qed

theorem Run_retries_forever_witness:
  "let (b, dead, d') = Run (NewWorker sample_payments \<lparr>wc_Interval = 0, wc_BatchSize = 0, wc_MaxAttempts = 1, wc_DeadLetter = True\<rparr>)
         (replicate 12 \<lparr>tk_world = sample_world empty_db, tk_cancelled = False\<rparr>) second [] stuck_shop
   in (\<exists>r \<in> set (payment_events d'). e_attempt_count r = 12) \<and> 12 \<le> length (filter (\<lambda>x. ev_EventID x = ''e0'') dead)"
proof -
  let ?wk = "NewWorker sample_payments \<lparr>wc_Interval = 0, wc_BatchSize = 0, wc_MaxAttempts = 1, wc_DeadLetter = True\<rparr>"
  let ?e = "(sample_event ''e0'' ''paid'' 0)\<lparr>ev_PurchaseID := ''unknown'', ev_PayloadHash := []\<rparr>"
  let ?r = "(new_event_row (sample_event ''e0'' ''paid'' 0) 1786751000)\<lparr>e_purchase_id := ''unknown''\<rparr>"
  have wk: "wk_batchSize ?wk = 100" "wk_maxAttempts ?wk = 1" "wk_deadLetterFunc ?wk" by (simp_all add: NewWorker_def)
  have "blocked 100 ?e stuck_shop" using stuck_shop_blocked by (simp add: blocked_def)
  then have b: "blocked (wk_batchSize ?wk) ?e stuck_shop" by (simp add: wk)
  have r: "?r \<in> set (payment_events stuck_shop)" "is_event ?e ?r" "waiting ?r" "e_attempt_count ?r = 0" "ev_EventID ?e = ''e0''"
    by (simp_all add: stuck_shop_def) (simp_all add: is_event_def waiting_def new_event_row_def sample_event_def)
  show ?thesis
    using Run_retries_forever [OF _ b r(1-3), of "replicate 12 \<lparr>tk_world = sample_world empty_db, tk_cancelled = False\<rparr>" second]
    by (auto simp: Let_def wk r(4,5))
qed

end
