(* ===== verification/Entitlements.thy ===== *)
theory Entitlements
  imports Payment_Runs
begin

text \<open>
  Provider subscriptions over time (\<open>ApplySubscription\<close>, \<open>Subscription\<close>, \<open>GrantSubscriptionPeriod\<close> of
  \<open>src/payments/payments.go\<close>): whatever order the provider delivers its events in, the stored subscription is that of the
  newest one, and a billing period is credited at most once.
\<close>

section \<open>Subscription events in any order\<close>

definition valid_sub_event :: "SubscriptionEvent \<Rightarrow> bool" where
  "valid_sub_event e \<longleftrightarrow>
     se_Provider e \<noteq> [] \<and> se_EventID e \<noteq> [] \<and> se_SubscriptionID e \<noteq> [] \<and> se_UserID e \<noteq> [] \<and> se_Plan e \<noteq> [] \<and>
     0 < se_Created e \<and> subscription_status (se_Status e) \<noteq> None"

definition sub_row :: "SubscriptionEvent \<Rightarrow> world \<Rightarrow> psub_row" where
  "sub_row e w = psub_of_event e (the (subscription_status (se_Status e))) (pnow w)"

definition find_sub :: "string \<Rightarrow> string \<Rightarrow> database \<Rightarrow> psub_row option" where
  "find_sub prov sid d = find (\<lambda>x. q_provider x = prov \<and> q_subscription_id x = sid) (payment_subscriptions d)"

text \<open>The deliveries of a list, each in a world of its own, over one database.\<close>

definition deliver :: "(SubscriptionEvent \<times> world) list \<Rightarrow> database \<Rightarrow> database" where
  "deliver es d = fold (\<lambda>(e, w) d. db (snd (ApplySubscription e (w\<lparr>db := d\<rparr>)))) es d"

lemma ApplySubscription_ok:
  assumes "valid_sub_event e" "faults w = []"
  shows "ApplySubscription e w = (Inr (), w\<lparr>db := snd (projr (upsert_psub (sub_row e w) (db w)))\<rparr>)"
proof -
  from assms(1) obtain st where st: "subscription_status (se_Status e) = Some st" by (auto simp: valid_sub_event_def)
  have "\<exists>n d. upsert_psub (sub_row e w) (db w) = Inr (n, d)" by (auto simp: upsert_psub_def Let_def)
  then show ?thesis using assms st by (auto simp: ApplySubscription_def valid_sub_event_def io_ok sub_row_def)
qed

lemma find_upsert_psub:
  assumes "q_provider q = prov" "q_subscription_id q = sid"
  shows "find_sub prov sid (snd (projr (upsert_psub q d))) =
     (case find_sub prov sid d of
        None \<Rightarrow> Some q
      | Some old \<Rightarrow> Some (if q_last_event_created q > q_last_event_created old then q else old))"
proof -
  let ?k = "\<lambda>x. q_provider x = prov \<and> q_subscription_id x = sid"
  let ?old = "\<lambda>x. ?k x \<and> q_last_event_created q > q_last_event_created x"
  have upd: "find ?k (update_where ?old (\<lambda>_. q) rs) = map_option (\<lambda>x. if ?old x then q else x) (find ?k rs)" for rs
    using assms by (induction rs) auto
  show ?thesis
  proof (cases "find_sub prov sid d")
    case None
    then have "\<not> list_ex ?k (payment_subscriptions d)" by (auto simp: find_sub_def find_None_iff_set list_ex_iff)
    then show ?thesis using None assms by (simp add: upsert_psub_def find_sub_def)
  next
    case (Some x)
    then have x: "x \<in> set (payment_subscriptions d)" "?k x" unfolding find_sub_def by (auto dest: find_SomeD)
    then have "list_ex ?k (payment_subscriptions d)" by (auto simp: list_ex_iff)
    then show ?thesis using Some x(2) upd [of "payment_subscriptions d"] assms by (simp add: upsert_psub_def find_sub_def Let_def)
  qed
qed

lemma deliver_newest:
  assumes "\<forall>(e, w) \<in> set es. valid_sub_event e \<and> faults w = [] \<and> se_Provider e = prov \<and> se_SubscriptionID e = sid"
    and "find_sub prov sid d = None"
  shows "es \<noteq> [] \<Longrightarrow> \<exists>(e, w) \<in> set es. find_sub prov sid (deliver es d) = Some (sub_row e w) \<and>
     (\<forall>(e', w') \<in> set es. se_Created e' \<le> se_Created e)"
  using assms(1)
proof (induction es rule: rev_induct)
  case (snoc ew es)
  obtain e w where ew: "ew = (e, w)" by fastforce
  let ?d = "deliver es d"
  have v: "valid_sub_event e" "faults (w\<lparr>db := ?d\<rparr>) = []" and k: "q_provider (sub_row e w) = prov" "q_subscription_id (sub_row e w) = sid"
    using snoc.prems(2) by (auto simp: ew sub_row_def psub_of_event_def)
  have step: "find_sub prov sid (deliver (es @ [ew]) d) =
     (case find_sub prov sid ?d of None \<Rightarrow> Some (sub_row e w)
      | Some old \<Rightarrow> Some (if q_last_event_created (sub_row e w) > q_last_event_created old then sub_row e w else old))"
    using ApplySubscription_ok [OF v] find_upsert_psub [OF k, of ?d] by (simp add: deliver_def ew sub_row_def)
  have cr: "q_last_event_created (sub_row x y) = se_Created x" for x y by (simp add: sub_row_def psub_of_event_def)
  show ?case
  proof (cases "es = []")
    case True
    then show ?thesis using step assms(2) by (simp add: deliver_def ew)
  next
    case False
    with snoc obtain e1 w1 where e1: "(e1, w1) \<in> set es" "find_sub prov sid ?d = Some (sub_row e1 w1)"
      "\<forall>(e', w') \<in> set es. se_Created e' \<le> se_Created e1" by auto
    show ?thesis
    proof (cases "se_Created e1 < se_Created e")
      case True
      then have "\<forall>(e', w') \<in> set (es @ [ew]). se_Created e' \<le> se_Created e" using e1(3) by (auto simp: ew)
      moreover have "find_sub prov sid (deliver (es @ [ew]) d) = Some (sub_row e w)" using step e1(2) True by (simp add: cr)
      ultimately show ?thesis using ew by (intro bexI [of _ "(e, w)"]) auto
    next
      case False
      then have "\<forall>(e', w') \<in> set (es @ [ew]). se_Created e' \<le> se_Created e1" using e1(3) by (auto simp: ew)
      moreover have "find_sub prov sid (deliver (es @ [ew]) d) = Some (sub_row e1 w1)" using step e1(2) False by (simp add: cr)
      ultimately show ?thesis using e1(1) by (intro bexI [of _ "(e1, w1)"]) auto
    qed
  qed
qed simp

text \<open>C27: subscription events may arrive in any order. After all events of a subscription have been delivered, reading it
  back gives the user, plan, status and periods of the newest event by the provider's creation time, as long as no other
  event claims the same time.\<close>

theorem ApplySubscription_newest_wins:
  assumes "\<forall>(e, w) \<in> set es. valid_sub_event e \<and> faults w = [] \<and> se_Provider e = prov \<and> se_SubscriptionID e = sid"
    and "find_sub prov sid d = None" "faults w = []"
    and "e0 \<in> fst ` set es" "\<forall>(e, w) \<in> set es. e = e0 \<or> se_Created e < se_Created e0"
  shows "case fst (PaySubscriptionOf prov sid (w\<lparr>db := deliver es d\<rparr>)) of
     Inl _ \<Rightarrow> False
   | Inr sub \<Rightarrow>
       ps_UserID sub = se_UserID e0 \<and> ps_Plan sub = se_Plan e0 \<and> Some (ps_Status sub) = subscription_status (se_Status e0) \<and>
       ps_PeriodStart sub = se_PeriodStart e0 \<and> ps_PeriodEnd sub = se_PeriodEnd e0 \<and> ps_TrialEnd sub = se_TrialEnd e0 \<and>
       ps_CancelAt sub = se_CancelAt e0 \<and> ps_CancelAtPeriodEnd sub = se_CancelAtPeriodEnd e0"
proof -
  have "es \<noteq> []" using assms(4) by auto
  from deliver_newest [OF assms(1,2) this] obtain e w1 where e: "(e, w1) \<in> set es"
    "find_sub prov sid (deliver es d) = Some (sub_row e w1)" "\<forall>(e', w') \<in> set es. se_Created e' \<le> se_Created e" by auto
  have "e = e0" using assms(4,5) e(1,3) by fastforce
  moreover obtain st where "subscription_status (se_Status e) = Some st" using assms(1) e(1) by (auto simp: valid_sub_event_def)
  ultimately show ?thesis using e(2) assms(3)
    by (auto simp: PaySubscriptionOf_def io_ok find_sub_def row_or_none_def sub_row_def psub_of_event_def boolToInt_def)
qed

definition sample_sub_event :: "string \<Rightarrow> string \<Rightarrow> int \<Rightarrow> SubscriptionEvent" where
  "sample_sub_event eid st created = \<lparr>se_Provider = ''stripe'', se_EventID = eid, se_SubscriptionID = ''sub1'', se_UserID = ''u1'',
     se_Plan = ''pro'', se_Status = st, se_PeriodStart = 1785542400, se_PeriodEnd = 1788220800, se_Created = created,
     se_TrialStart = 0, se_TrialEnd = 0, se_CancelAt = 0, se_CancelAtPeriodEnd = False\<rparr>"

theorem ApplySubscription_newest_wins_witness:
  "case fst (PaySubscriptionOf ''stripe'' ''sub1'' ((sample_world empty_db)\<lparr>db := deliver
       [(sample_sub_event ''e2'' ''canceled'' 20, sample_world empty_db), (sample_sub_event ''e1'' ''active'' 10, sample_world empty_db)]
       empty_db\<rparr>)) of
     Inl _ \<Rightarrow> False
   | Inr sub \<Rightarrow> ps_Plan sub = ''pro'' \<and> ps_Status sub = ''cancelled''"
proof -
  let ?e = "sample_sub_event ''e2'' ''canceled'' 20" and ?e1 = "sample_sub_event ''e1'' ''active'' 10"
  have v: "valid_sub_event ?e" "valid_sub_event ?e1" by (code_simp, code_simp)
  have p: "se_Provider (sample_sub_event i st c) = ''stripe''" "se_SubscriptionID (sample_sub_event i st c) = ''sub1''"
    "se_Created (sample_sub_event i st c) = c" "se_Plan (sample_sub_event i st c) = ''pro''" "se_Status (sample_sub_event i st c) = st" for i st c
    by (simp_all add: sample_sub_event_def)
  show ?thesis
    using ApplySubscription_newest_wins [where es = "[(?e, sample_world empty_db), (?e1, sample_world empty_db)]" and prov = "''stripe''"
        and sid = "''sub1''" and d = empty_db and w = "sample_world empty_db" and ?e0.0 = ?e]
    by (simp add: v p find_sub_def subscription_status_def split: sum.splits)
qed

section \<open>The grant of a billing period\<close>

lemma ignore_duplicate_db: "db (snd (ignore_duplicate m w)) = db (snd (m w))"
  by (cases "m w"; cases "fst (m w)") (auto simp: ignore_duplicate_def io_defs)

lemma GrantSubscriptionPeriod_replay:
  assumes "ps_ledger s = CreditsService"
  shows "replay (GrantSubscriptionPeriod s prov sid iid u n start) ws d = d \<or>
    replay (GrantSubscriptionPeriod s prov sid iid u n start) ws d =
      replay (Grant u n prov (''subscription period '' @ sid) (subscription_key prov sid start iid)) ws d"
proof (cases "n \<le> 0 \<or> prov = [] \<or> sid = [] \<or> iid = [] \<or> u = [] \<or> start \<le> 0")
  case True
  then have "db (snd (GrantSubscriptionPeriod s prov sid iid u n start w)) = db w" for w
    by (auto simp: GrantSubscriptionPeriod_def throw_io_def)
  then have "replay (GrantSubscriptionPeriod s prov sid iid u n start) ws d = d" by (induction ws) simp_all
  then show ?thesis ..
next
  case False
  then have "db (snd (GrantSubscriptionPeriod s prov sid iid u n start w)) =
      db (snd (Grant u n prov (''subscription period '' @ sid) (subscription_key prov sid start iid) w))" for w
    using assms by (auto simp: GrantSubscriptionPeriod_def ignore_duplicate_db)
  then have "replay (GrantSubscriptionPeriod s prov sid iid u n start) ws d =
      replay (Grant u n prov (''subscription period '' @ sid) (subscription_key prov sid start iid)) ws d" for d
    by (induction ws arbitrary: d) simp_all
  then show ?thesis by simp
qed

text \<open>A billing period is credited at most once per invoice. Over any number of deliveries of a paid invoice, in any worlds
  (faults, restarts, other clocks), either nothing was credited or the user's balance rose by exactly the period's
  credits; once the period's key is used, further deliveries change nothing.\<close>

theorem GrantSubscriptionPeriod_at_most_once:
  assumes "ps_ledger s = CreditsService"
  shows "let d' = replay (GrantSubscriptionPeriod s prov sid iid u n start) ws d
         in if key_used d (subscription_key prov sid start iid) then d' = d
            else d' = d \<or> (key_used d' (subscription_key prov sid start iid) \<and>
                           (\<forall>v. balance_of d' v = balance_of d v + (if v = u then n else 0)))"
  using GrantSubscriptionPeriod_replay [OF assms, of prov sid iid u n start ws d]
    grant.replay_used [of d "subscription_key prov sid start iid" u n prov "''subscription period '' @ sid" ws]
    grant.replay_once [of d "subscription_key prov sid start iid" u n prov "''subscription period '' @ sid" ws]
  by (auto simp: Let_def)

theorem GrantSubscriptionPeriod_at_most_once_witness:
  "let d' = replay (GrantSubscriptionPeriod sample_payments ''stripe'' ''sub1'' ''in1'' ''u1'' 500 1785542400)
         [sample_world empty_db, sample_world empty_db] empty_db
   in d' = empty_db \<or> (key_used d' (subscription_key ''stripe'' ''sub1'' 1785542400 ''in1'') \<and>
        (\<forall>v. balance_of d' v = (if v = ''u1'' then 500 else 0)))"
  using GrantSubscriptionPeriod_at_most_once [OF sample_payments_ok(1), of "''stripe''" "''sub1''" "''in1''" "''u1''" 500 1785542400
      "[sample_world empty_db, sample_world empty_db]" empty_db]
  by (simp add: Let_def)

end
