(* ===== verification/Stripe.thy ===== *)
theory Stripe
  imports Entitlements
begin

text \<open>
  The Stripe adapter (\<open>src/stripe/stripe.go\<close>): the webhook handler, the mapping of Stripe events to payment events and
  subscription events, the grant for a paid invoice, and the checkout.

  What the adapter takes from \<open>stripe-go\<close>, \<open>encoding/json\<close> and \<open>crypto/sha256\<close> is the record \<open>StripeLib\<close>: the verification of
  a signed payload (which looks at the time, \<open>wall\<close>), the decoders of the objects, the hash and the call that opens a
  checkout session. Nothing is assumed of these functions. The objects keep the fields the adapter reads; a pointer is an
  \<^typ>\<open>'a option\<close>, a Go map an association list, and reading a key that is not there gives the empty string. Stripe sends
  every event with its \<open>data\<close>.
\<close>

section \<open>Stripe's objects\<close>

type_synonym metadata = "(string \<times> string) list"

definition meta_get :: "string \<Rightarrow> metadata \<Rightarrow> string" where
  "meta_get k md = (case map_of md k of None \<Rightarrow> [] | Some v \<Rightarrow> v)"

record StripeEvent =
  evt_ID :: string
  evt_Type :: string
  evt_Created :: int
  evt_Raw :: string

record StripeSubscription =
  sub_ID :: string
  sub_Status :: string
  sub_Metadata :: metadata
  sub_CurrentPeriodStart :: int
  sub_CurrentPeriodEnd :: int
  sub_TrialStart :: int
  sub_TrialEnd :: int
  sub_CancelAt :: int
  sub_CancelAtPeriodEnd :: bool

record LinePeriod =
  per_Start :: int
  per_End :: int

text \<open>The lines of an invoice are given by their periods.\<close>

record Invoice =
  inv_ID :: string
  inv_Status :: string
  inv_BillingReason :: string
  inv_PeriodStart :: int
  inv_PeriodEnd :: int
  inv_Metadata :: "metadata option"
  inv_Subscription :: "string option"
  inv_Lines :: "LinePeriod option list option"

record SubscriptionDetails =
  sd_Subscription :: string
  sd_Metadata :: "metadata option"

text \<open>A line of the shadow: its \<open>parent\<close>, the \<open>subscription_item_details\<close> in it, and their \<open>subscription\<close>.\<close>

record invoiceShadow =
  sh_SubscriptionDetails :: "SubscriptionDetails option"
  sh_Lines :: "string option option list option"

record CheckoutSession =
  cs_PaymentStatus :: string
  cs_PaymentIntent :: "string option"
  cs_Metadata :: metadata

record Charge =
  ch_PaymentIntent :: "string option"
  ch_Metadata :: metadata
  ch_AmountRefunded :: int

record Dispute =
  dp_PaymentIntent :: "string option"
  dp_Metadata :: metadata
  dp_Charge :: "metadata option"
  dp_Amount :: int

record CheckoutSessionParams =
  csp_Mode :: string
  csp_SuccessURL :: string
  csp_CancelURL :: string
  csp_ClientReferenceID :: string
  csp_Metadata :: metadata
  csp_PaymentIntentMetadata :: metadata
  csp_Quantity :: int
  csp_Currency :: string
  csp_UnitAmount :: int
  csp_ProductName :: string
  csp_IdempotencyKey :: string

record StripeLib =
  ConstructEvent :: "string \<Rightarrow> string \<Rightarrow> string \<Rightarrow> int \<Rightarrow> error + StripeEvent"
  Sum256 :: "string \<Rightarrow> string"
  json_Subscription :: "string \<Rightarrow> StripeSubscription option"
  json_Invoice :: "string \<Rightarrow> error + Invoice"
  json_invoiceShadow :: "string \<Rightarrow> invoiceShadow"
  json_CheckoutSession :: "string \<Rightarrow> CheckoutSession option"
  json_Charge :: "string \<Rightarrow> Charge option"
  json_Dispute :: "string \<Rightarrow> Dispute option"
  session_New :: "string \<Rightarrow> CheckoutSessionParams \<Rightarrow> error + (string \<times> string)"

section \<open>The adapter\<close>

definition prorationGraceSeconds :: int where "prorationGraceSeconds = 86400"

record StripeConfig =
  sc_SecretKey :: string
  sc_WebhookSecret :: string
  sc_SuccessURL :: string
  sc_CancelURL :: string
  sc_SubscriptionCredits :: "(string \<times> int) list option"

record Adapter =
  ad_payments :: PaymentsService
  ad_cfg :: StripeConfig

record Checkout =
  co_PurchaseID :: string
  co_URL :: string
  co_SessionID :: string

text \<open>The function \<open>New\<close> of package \<open>stripe\<close>.\<close>

definition NewAdapter :: "PaymentsService option \<Rightarrow> StripeConfig \<Rightarrow> error + Adapter" where
  "NewAdapter p c =
     (case p of
        None \<Rightarrow> Inl (ErrMsg ''stripe: payments and webhook secret required'')
      | Some s \<Rightarrow>
          if sc_WebhookSecret c = [] then Inl (ErrMsg ''stripe: payments and webhook secret required'')
          else Inr \<lparr>ad_payments = s, ad_cfg = c\<rparr>)"

text \<open>The method \<open>CreatePurchase\<close> of the adapter.\<close>

definition StripePurchase :: "Adapter \<Rightarrow> string \<Rightarrow> string \<Rightarrow> world \<Rightarrow> (error + Purchase) \<times> world" where
  "StripePurchase a userID sku = CreatePurchase (ad_payments a) ''stripe'' userID sku"

definition checkout_params :: "StripeConfig \<Rightarrow> Purchase \<Rightarrow> CheckoutSessionParams" where
  "checkout_params c p =
     \<lparr>csp_Mode = ''payment'', csp_SuccessURL = sc_SuccessURL c, csp_CancelURL = sc_CancelURL c,
      csp_ClientReferenceID = pu_ID p, csp_Metadata = [(''purchase_id'', pu_ID p)],
      csp_PaymentIntentMetadata = [(''purchase_id'', pu_ID p)], csp_Quantity = 1, csp_Currency = pu_Currency p,
      csp_UnitAmount = pu_AmountMinor p, csp_ProductName = ''AI credits'',
      csp_IdempotencyKey = ''credits-checkout:'' @ pu_ID p\<rparr>"

definition CreateCheckout :: "StripeLib \<Rightarrow> Adapter \<Rightarrow> string \<Rightarrow> string \<Rightarrow> world \<Rightarrow> (error + Checkout) \<times> world" where
  "CreateCheckout L a userID sku =
     (let c = ad_cfg a
      in if sc_SecretKey c = [] \<or> sc_SuccessURL c = [] \<or> sc_CancelURL c = []
         then throw_io (ErrMsg ''stripe: checkout configuration required'')
         else bind_io (StripePurchase a userID sku) (\<lambda>p.
           case session_New L (sc_SecretKey c) (checkout_params c p) of
             Inl err \<Rightarrow> throw_io err
           | Inr (u, sid) \<Rightarrow> return_io \<lparr>co_PurchaseID = pu_ID p, co_URL = u, co_SessionID = sid\<rparr>))"

section \<open>Mapping events\<close>

text \<open>The two rewritings of the status.\<close>

definition map_status :: "string \<Rightarrow> string" where
  "map_status st =
     (let st1 = (if st = ''canceled'' then ''cancelled'' else st)
      in if st1 = ''incomplete'' \<or> st1 = ''incomplete_expired'' then ''past_due'' else st1)"

definition mapSubscriptionEvent :: "StripeLib \<Rightarrow> StripeEvent \<Rightarrow> SubscriptionEvent option" where
  "mapSubscriptionEvent L evt =
     (if evt_Type evt = ''customer.subscription.created'' \<or> evt_Type evt = ''customer.subscription.updated'' \<or>
         evt_Type evt = ''customer.subscription.deleted'' then
        (case json_Subscription L (evt_Raw evt) of
           None \<Rightarrow> None
         | Some sub \<Rightarrow>
             (let userID = meta_get ''user_id'' (sub_Metadata sub); plan = meta_get ''plan'' (sub_Metadata sub)
              in if userID = [] \<or> plan = [] then None
                 else Some \<lparr>se_Provider = ''stripe'', se_EventID = evt_ID evt, se_SubscriptionID = sub_ID sub, se_UserID = userID,
                        se_Plan = plan, se_Status = map_status (sub_Status sub), se_PeriodStart = sub_CurrentPeriodStart sub,
                        se_PeriodEnd = sub_CurrentPeriodEnd sub, se_Created = evt_Created evt, se_TrialStart = sub_TrialStart sub,
                        se_TrialEnd = sub_TrialEnd sub, se_CancelAt = sub_CancelAt sub,
                        se_CancelAtPeriodEnd = sub_CancelAtPeriodEnd sub\<rparr>))
      else None)"

text \<open>The loop over the lines: the first subscription that is given.\<close>

fun line_subscription :: "string option option list \<Rightarrow> string" where
  "line_subscription [] = []"
| "line_subscription (l # ls) =
     (case l of
        Some (Some s) \<Rightarrow> if s \<noteq> [] then s else line_subscription ls
      | _ \<Rightarrow> line_subscription ls)"

definition invoiceSubID :: "Invoice \<Rightarrow> invoiceShadow \<Rightarrow> string" where
  "invoiceSubID iv s =
     (let v1 = (case inv_Subscription iv of None \<Rightarrow> [] | Some i \<Rightarrow> i);
          v2 = (case sh_SubscriptionDetails s of None \<Rightarrow> [] | Some d \<Rightarrow> sd_Subscription d)
      in if v1 \<noteq> [] then v1
         else if v2 \<noteq> [] then v2
         else case sh_Lines s of None \<Rightarrow> [] | Some ls \<Rightarrow> line_subscription ls)"

definition provider_event :: "string \<Rightarrow> string \<Rightarrow> string \<Rightarrow> string \<Rightarrow> string \<Rightarrow> int \<Rightarrow> int \<Rightarrow> Event" where
  "provider_event eid pid purchase status hash reversed t =
     \<lparr>ev_Provider = ''stripe'', ev_EventID = eid, ev_PaymentID = pid, ev_PurchaseID = purchase, ev_Status = status,
      ev_PayloadHash = hash, ev_ReversedCredits = 0, ev_ReversedMinor = reversed, ev_OccurredAt = Some t\<rparr>"

text \<open>\<open>mapEvent\<close> at the time \<open>t\<close>.\<close>

definition mapEvent :: "StripeLib \<Rightarrow> StripeEvent \<Rightarrow> string \<Rightarrow> int \<Rightarrow> Event option" where
  "mapEvent L evt hash t =
     (if evt_Type evt = ''checkout.session.completed'' \<or> evt_Type evt = ''checkout.session.async_payment_succeeded'' then
        (case json_CheckoutSession L (evt_Raw evt) of
           None \<Rightarrow> None
         | Some cs \<Rightarrow>
             if cs_PaymentStatus cs \<noteq> ''paid'' then None
             else (let pid = (case cs_PaymentIntent cs of None \<Rightarrow> [] | Some i \<Rightarrow> i);
                       purchase = meta_get ''purchase_id'' (cs_Metadata cs)
                   in if pid = [] \<or> purchase = [] then None
                      else Some (provider_event (evt_ID evt) pid purchase ''paid'' hash 0 t)))
      else if evt_Type evt = ''charge.refunded'' then
        (case json_Charge L (evt_Raw evt) of
           None \<Rightarrow> None
         | Some ch \<Rightarrow>
             (case ch_PaymentIntent ch of
                None \<Rightarrow> None
              | Some pid \<Rightarrow>
                  (let purchase = meta_get ''purchase_id'' (ch_Metadata ch)
                   in if purchase = [] then None
                      else Some (provider_event (evt_ID evt) pid purchase ''refunded'' hash (ch_AmountRefunded ch) t))))
      else if evt_Type evt = ''charge.dispute.created'' then
        (case json_Dispute L (evt_Raw evt) of
           None \<Rightarrow> None
         | Some dp \<Rightarrow>
             (case dp_PaymentIntent dp of
                None \<Rightarrow> None
              | Some pid \<Rightarrow>
                  (let own = meta_get ''purchase_id'' (dp_Metadata dp);
                       purchase = (if own = [] then (case dp_Charge dp of None \<Rightarrow> [] | Some md \<Rightarrow> meta_get ''purchase_id'' md) else own)
                   in if purchase = [] then None
                      else Some (provider_event (evt_ID evt) pid purchase ''disputed'' hash (dp_Amount dp) t))))
      else None)"

section \<open>Invoices\<close>

definition resolveUserPlan :: "Invoice \<Rightarrow> invoiceShadow \<Rightarrow> string \<Rightarrow> world \<Rightarrow> (string \<times> string) \<times> world" where
  "resolveUserPlan iv raw subID w =
     (let (u1, p1) = (case inv_Metadata iv of None \<Rightarrow> ([], []) | Some md \<Rightarrow> (meta_get ''user_id'' md, meta_get ''plan'' md));
          (u2, p2) = (case sh_SubscriptionDetails raw of
                        None \<Rightarrow> (u1, p1)
                      | Some sd \<Rightarrow> (case sd_Metadata sd of
                          None \<Rightarrow> (u1, p1)
                        | Some md \<Rightarrow> (if u1 = [] then meta_get ''user_id'' md else u1, if p1 = [] then meta_get ''plan'' md else p1)))
      in if u2 = [] \<or> p2 = [] then
           (case PaySubscriptionOf ''stripe'' subID w of
              (Inl _, w') \<Rightarrow> ((u2, p2), w')
            | (Inr sub, w') \<Rightarrow> ((if u2 = [] then ps_UserID sub else u2, if p2 = [] then ps_Plan sub else p2), w'))
         else ((u2, p2), w))"

definition empty_shadow :: invoiceShadow where
  "empty_shadow = \<lparr>sh_SubscriptionDetails = None, sh_Lines = None\<rparr>"

definition failed_event :: "StripeEvent \<Rightarrow> Invoice \<Rightarrow> string \<Rightarrow> string \<Rightarrow> string \<Rightarrow> SubscriptionEvent" where
  "failed_event evt iv subID userID plan =
     \<lparr>se_Provider = ''stripe'', se_EventID = evt_ID evt, se_SubscriptionID = subID, se_UserID = userID, se_Plan = plan,
      se_Status = ''past_due'', se_PeriodStart = inv_PeriodStart iv, se_PeriodEnd = inv_PeriodEnd iv,
      se_Created = evt_Created evt, se_TrialStart = 0, se_TrialEnd = 0, se_CancelAt = 0, se_CancelAtPeriodEnd = False\<rparr>"

text \<open>The two results of the handlers: whether the event was handled, and the error.\<close>

definition handleInvoiceFailed :: "StripeEvent \<Rightarrow> Invoice \<Rightarrow> string \<Rightarrow> world \<Rightarrow> (bool \<times> error option) \<times> world" where
  "handleInvoiceFailed evt iv subID w =
     (if subID = [] then ((True, None), w)
      else case resolveUserPlan iv empty_shadow subID w of ((userID, plan), w1) \<Rightarrow>
        if userID \<noteq> [] \<and> plan \<noteq> []
        then ((True, None), snd (ApplySubscription (failed_event evt iv subID userID plan) w1))
        else ((True, None), w1))"

definition is_proration :: "Invoice \<Rightarrow> bool" where
  "is_proration iv =
     (case inv_Lines iv of
        None \<Rightarrow> False
      | Some ls \<Rightarrow> list_ex (\<lambda>l. case l of None \<Rightarrow> False | Some p \<Rightarrow> wrap64 (per_End p - per_Start p) < prorationGraceSeconds) ls)"

definition invoice_period :: "Invoice \<Rightarrow> int" where
  "invoice_period iv =
     (if inv_PeriodStart iv = 0 then
        (case inv_Lines iv of Some (Some p # _) \<Rightarrow> per_Start p | _ \<Rightarrow> 0)
      else inv_PeriodStart iv)"

definition plan_credits :: "StripeConfig \<Rightarrow> string \<Rightarrow> int" where
  "plan_credits c plan =
     (case sc_SubscriptionCredits c of
        None \<Rightarrow> 0
      | Some m \<Rightarrow> (case map_of m plan of None \<Rightarrow> 0 | Some v \<Rightarrow> v))"

definition handleInvoicePaid :: "Adapter \<Rightarrow> Invoice \<Rightarrow> invoiceShadow \<Rightarrow> string \<Rightarrow> world \<Rightarrow> (bool \<times> error option) \<times> world" where
  "handleInvoicePaid a iv raw subID w =
     (if inv_Status iv \<noteq> [] \<and> inv_Status iv \<noteq> ''paid'' then ((True, None), w)
      else if inv_BillingReason iv = ''manual'' then ((True, None), w)
      else if inv_BillingReason iv = ''subscription_update'' \<and> is_proration iv then ((True, None), w)
      else if subID = [] then ((True, None), w)
      else if invoice_period iv = 0 then ((True, None), w)
      else case resolveUserPlan iv raw subID w of ((userID, plan), w1) \<Rightarrow>
        if userID = [] \<or> plan = [] then ((True, None), w1)
        else if plan_credits (ad_cfg a) plan = 0 then ((True, None), w1)
        else case GrantSubscriptionPeriod (ad_payments a) ''stripe'' subID (inv_ID iv) userID
                    (plan_credits (ad_cfg a) plan) (invoice_period iv) w1 of
               (Inl err, w2) \<Rightarrow> ((True, Some err), w2)
             | (Inr _, w2) \<Rightarrow> ((True, None), w2))"

definition handleInvoiceEvent :: "StripeLib \<Rightarrow> Adapter \<Rightarrow> StripeEvent \<Rightarrow> world \<Rightarrow> (bool \<times> error option) \<times> world" where
  "handleInvoiceEvent L a evt w =
     (if evt_Type evt \<noteq> ''invoice.paid'' \<and> evt_Type evt \<noteq> ''invoice.payment_failed'' then ((False, None), w)
      else case json_Invoice L (evt_Raw evt) of
        Inl err \<Rightarrow> ((True, Some err), w)
      | Inr iv \<Rightarrow>
          (let raw = json_invoiceShadow L (evt_Raw evt); subID = invoiceSubID iv raw
           in if evt_Type evt = ''invoice.payment_failed'' then handleInvoiceFailed evt iv subID w
              else handleInvoicePaid a iv raw subID w))"

section \<open>The webhook\<close>

record webhook_request =
  wh_Body :: "error + string"
  wh_Signature :: string

type_synonym reply = "int \<times> string"

definition maxWebhookBytes :: nat where "maxWebhookBytes = 2 ^ 20 + 1"

text \<open>\<open>io.ReadAll(http.MaxBytesReader(...))\<close>.\<close>

definition read_body :: "webhook_request \<Rightarrow> string option" where
  "read_body r =
     (case wh_Body r of
        Inl _ \<Rightarrow> None
      | Inr b \<Rightarrow> if length b > maxWebhookBytes then None else Some b)"

definition HandleWebhook :: "StripeLib \<Rightarrow> Adapter \<Rightarrow> webhook_request \<Rightarrow> world \<Rightarrow> reply \<times> world" where
  "HandleWebhook L a r w =
     (case read_body r of
        None \<Rightarrow> ((400, ''invalid payload''), w)
      | Some body \<Rightarrow>
      (case ConstructEvent L body (wh_Signature r) (sc_WebhookSecret (ad_cfg a)) (wall w) of
        Inl _ \<Rightarrow> ((400, ''invalid signature''), w)
      | Inr evt \<Rightarrow>
      (case mapSubscriptionEvent L evt of
        Some sub \<Rightarrow>
          (case ApplySubscription sub w of
             (Inl _, w') \<Rightarrow> ((500, ''processing failed''), w')
           | (Inr _, w') \<Rightarrow> ((200, []), w'))
      | None \<Rightarrow>
      (case handleInvoiceEvent L a evt w of
        ((True, Some _), w') \<Rightarrow> ((500, ''processing failed''), w')
      | ((True, None), w') \<Rightarrow> ((200, []), w')
      | ((False, _), w') \<Rightarrow>
      (case mapEvent L evt (hex_encode (Sum256 L body)) (wall w') of
        None \<Rightarrow> ((204, []), w')
      | Some e \<Rightarrow>
          (case Receive (ad_payments a) e w' of
             (Inl _, w2) \<Rightarrow> ((500, ''processing failed''), w2)
           | (Inr _, w2) \<Rightarrow> ((200, []), w2)))))))"

end
