(* ===== verification/Webhooks.thy ===== *)
theory Webhooks
  imports Stripe
begin

text \<open>
  What the Stripe adapter guarantees: every webhook is one step of the payment service or leaves the purchases, the event
  log and the ledger alone (\<open>HandleWebhook_step\<close>), so that everything shown of the payment service holds of a server driven
  by webhooks; a paid invoice is credited at most once and exactly when it is due; and what a checkout sells is the catalog
  item.
\<close>

section \<open>Webhooks are steps of the payment service\<close>

lemma foreign_refl: "credits_inv d \<Longrightarrow> foreign d d"
  by (simp add: foreign_def)

lemma ApplySubscription_any:
  assumes "ApplySubscription e w = (x, w')"
  shows "\<exists>qs. db w' = db w\<lparr>payment_subscriptions := qs\<rparr>"
proof -
  have "\<exists>qs. d' = d\<lparr>payment_subscriptions := qs\<rparr>" if "upsert_psub q d = Inr (n, d')" for q d n d'
    using that by (auto simp: upsert_psub_def Let_def split: if_splits)
  moreover have "\<exists>qs. d = d\<lparr>payment_subscriptions := qs\<rparr>" for d :: database by (rule exI [of _ "payment_subscriptions d"]) simp
  ultimately show ?thesis using assms
    by (auto simp: ApplySubscription_def io_defs stmt_def Let_def split: if_splits option.splits sum.splits prod.splits)
qed

lemma ApplySubscription_foreign: "credits_inv (db w) \<Longrightarrow> foreign (db w) (db (snd (ApplySubscription e w)))"
  by (cases "ApplySubscription e w") (auto dest!: ApplySubscription_any simp: foreign_def)

lemma GrantSubscriptionPeriod_cases:
  assumes "ps_ledger s = CreditsService" "GrantSubscriptionPeriod s prov sid iid u n start w = (x, w')"
  shows "db w' = db w \<or> 0 < n \<and> (\<exists>t ts. fresh_row t (db w) \<and> db w' = posted t ts (db w) \<and> t_user_id t = u \<and> t_amount t = n \<and>
     t_reference_id t = None \<and> t_idempotency_key t = Some (subscription_key prov sid start iid) \<and>
     t_metadata t = Some [(''reason'', ''subscription period '' @ sid)])"
proof (cases "n \<le> 0 \<or> prov = [] \<or> sid = [] \<or> iid = [] \<or> u = [] \<or> start \<le> 0")
  case True
  then show ?thesis using assms by (auto simp: GrantSubscriptionPeriod_def throw_io_def)
next
  case False
  let ?g = "Grant u n prov (''subscription period '' @ sid) (subscription_key prov sid start iid)"
  have "db w' = db (snd (?g w))"
    using assms False ignore_duplicate_db [of ?g w] by (auto simp: GrantSubscriptionPeriod_def)
  moreover have "t_metadata (adjust_row a b c r k y w) = Some [(''reason'', r)]" for a b c r k y by (simp add: adjust_row_def)
  ultimately show ?thesis
    by (cases "?g w"; cases "fst (?g w)") (force dest!: Grant_Inl Grant_Inr)+
qed

lemma GrantSubscriptionPeriod_foreign:
  assumes "ps_ledger s = CreditsService" "credits_inv (db w)"
  shows "foreign (db w) (db (snd (GrantSubscriptionPeriod s prov sid iid u n start w)))"
proof -
  obtain x w' where run: "GrantSubscriptionPeriod s prov sid iid u n start w = (x, w')" by fastforce
  show ?thesis using GrantSubscriptionPeriod_cases [OF assms(1) run]
  proof (elim disjE conjE exE)
    fix t ts assume t: "fresh_row t (db w)" "db w' = posted t ts (db w)" "t_reference_id t = None"
      "t_idempotency_key t = Some (subscription_key prov sid start iid)" "t_metadata t = Some [(''reason'', ''subscription period '' @ sid)]"
    have "foreign_row t" using t(4,5) by (simp add: foreign_row_def subscription_key_def)
    moreover have "credits_inv (posted t ts (db w))" using credits_inv_posted assms(2) t(1,3) by blast
    ultimately show ?thesis using t(2) by (simp add: run foreign_def posted_def)
  qed (simp add: run foreign_refl assms(2))
qed

lemma PaySubscriptionOf_any: "PaySubscriptionOf prov sid w = (x, w') \<Longrightarrow> db w' = db w \<and> wall w' = wall w"
  by (auto simp: PaySubscriptionOf_def io_defs query_def stmt_def Let_def split: sum.splits prod.splits option.splits)

lemma resolveUserPlan_any: "resolveUserPlan iv raw sid w = (x, w') \<Longrightarrow> db w' = db w \<and> wall w' = wall w"
  by (auto simp: resolveUserPlan_def Let_def dest!: PaySubscriptionOf_any split: if_splits sum.splits prod.splits)

lemma handleInvoiceEvent_cases:
  obtains (same) "db (snd (handleInvoiceEvent L a evt w)) = db w"
  | (failed) e w1 where "db w1 = db w" "db (snd (handleInvoiceEvent L a evt w)) = db (snd (ApplySubscription e w1))"
  | (paid) sid iid u n start w1 where "db w1 = db w"
      "db (snd (handleInvoiceEvent L a evt w)) = db (snd (GrantSubscriptionPeriod (ad_payments a) ''stripe'' sid iid u n start w1))"
proof -
  have f: "db (snd (handleInvoiceFailed evt iv sid w)) = db w \<or>
      (\<exists>e w1. db w1 = db w \<and> db (snd (handleInvoiceFailed evt iv sid w)) = db (snd (ApplySubscription e w1)))" for iv sid
    by (auto simp: handleInvoiceFailed_def dest!: resolveUserPlan_any split: prod.splits)
  have p: "db (snd (handleInvoicePaid a iv raw sid w)) = db w \<or>
      (\<exists>x iid u n start w1. db w1 = db w \<and> db (snd (handleInvoicePaid a iv raw sid w)) =
         db (snd (GrantSubscriptionPeriod (ad_payments a) ''stripe'' x iid u n start w1)))" for iv raw sid
  proof -
    obtain u p w1 where r: "resolveUserPlan iv raw sid w = ((u, p), w1)" by (metis prod.collapse)
    let ?g = "GrantSubscriptionPeriod (ad_payments a) ''stripe'' sid (inv_ID iv) u (plan_credits (ad_cfg a) p) (invoice_period iv) w1"
    have "db (snd (handleInvoicePaid a iv raw sid w)) \<in> {db w, db w1, db (snd ?g)}"
      by (cases ?g; cases "fst ?g") (auto simp: handleInvoicePaid_def r)
    then show ?thesis using conjunct1 [OF resolveUserPlan_any [OF r]] by (elim insertE emptyE) (simp, simp, blast)
  qed
  let ?h = "snd (handleInvoiceEvent L a evt w)"
  have "?h = w \<or> (\<exists>iv sid. ?h = snd (handleInvoiceFailed evt iv sid w)) \<or> (\<exists>iv raw sid. ?h = snd (handleInvoicePaid a iv raw sid w))"
    unfolding handleInvoiceEvent_def Let_def by (cases "json_Invoice L (evt_Raw evt)") (auto, blast)
  then consider "?h = w" | iv sid where "?h = snd (handleInvoiceFailed evt iv sid w)" | iv raw sid where "?h = snd (handleInvoicePaid a iv raw sid w)"
    by blast
  then show ?thesis
  proof cases
    case 1
    then show ?thesis using same by simp
  next
    case (2 iv sid)
    from f [of iv sid, folded 2] show ?thesis by (elim disjE exE conjE) (erule same, erule (1) failed)
  next
    case (3 iv raw sid)
    from p [of iv raw sid, folded 3] show ?thesis by (elim disjE exE conjE) (erule same, erule (1) paid)
  qed
qed

lemma handleInvoiceEvent_foreign:
  assumes "ps_ledger (ad_payments a) = CreditsService" "credits_inv (db w)"
  shows "foreign (db w) (db (snd (handleInvoiceEvent L a evt w)))"
proof (cases rule: handleInvoiceEvent_cases [of L a evt w])
  case (failed e w1)
  then show ?thesis using ApplySubscription_foreign [of w1 e] assms(2) by simp
next
  case (paid sid iid u n start w1)
  then show ?thesis using GrantSubscriptionPeriod_foreign [OF assms(1), of w1 "''stripe''" sid iid u n start] assms(2) by simp
qed (simp add: foreign_refl assms(2))

lemma mapEvent_stripe: "mapEvent L evt h t = Some e \<Longrightarrow> plain (ev_Provider e)"
  by (auto simp: mapEvent_def provider_event_def plain_def Let_def split: if_splits option.splits)

text \<open>The handler on a verified event, without the nesting.\<close>

definition verified :: "StripeLib \<Rightarrow> Adapter \<Rightarrow> webhook_request \<Rightarrow> world \<Rightarrow> string \<Rightarrow> StripeEvent \<Rightarrow> bool" where
  "verified L a r w body evt \<longleftrightarrow>
     read_body r = Some body \<and> ConstructEvent L body (wh_Signature r) (sc_WebhookSecret (ad_cfg a)) (wall w) = Inr evt"

definition invoice_event :: "StripeEvent \<Rightarrow> bool" where
  "invoice_event evt \<longleftrightarrow> evt_Type evt = ''invoice.paid'' \<or> evt_Type evt = ''invoice.payment_failed''"

definition answer :: "(error + unit) \<times> world \<Rightarrow> reply \<times> world" where
  "answer p = (case fst p of Inl _ \<Rightarrow> (500, ''processing failed'') | Inr _ \<Rightarrow> (200, []), snd p)"

definition invoice_answer :: "(bool \<times> error option) \<times> world \<Rightarrow> reply \<times> world" where
  "invoice_answer p = (case snd (fst p) of Some _ \<Rightarrow> (500, ''processing failed'') | None \<Rightarrow> (200, []), snd p)"

lemma answer_snd [simp]: "snd (answer p) = snd p" "snd (invoice_answer q) = snd q"
  by (simp_all add: answer_def invoice_answer_def)

lemma handleInvoiceEvent_handled: "fst (fst (handleInvoiceEvent L a evt w)) \<longleftrightarrow> invoice_event evt"
  by (auto simp: handleInvoiceEvent_def handleInvoiceFailed_def handleInvoicePaid_def invoice_event_def Let_def
      split: if_splits sum.splits prod.splits)

lemma HandleWebhook_verified:
  assumes "verified L a r w body evt"
  shows "HandleWebhook L a r w =
    (case mapSubscriptionEvent L evt of
       Some sub \<Rightarrow> answer (ApplySubscription sub w)
     | None \<Rightarrow>
         if invoice_event evt then invoice_answer (handleInvoiceEvent L a evt w)
         else case mapEvent L evt (hex_encode (Sum256 L body)) (wall w) of
           None \<Rightarrow> ((204, []), w)
         | Some e \<Rightarrow> answer (Receive (ad_payments a) e w))"
proof (cases "mapSubscriptionEvent L evt")
  case (Some sub)
  then show ?thesis using assms by (auto simp: HandleWebhook_def verified_def answer_def split: prod.splits sum.splits)
next
  case none: None
  obtain b x w' where h: "handleInvoiceEvent L a evt w = ((b, x), w')" by (metis prod.collapse)
  show ?thesis
  proof (cases "invoice_event evt")
    case True
    then have "b" using handleInvoiceEvent_handled [of L a evt w] h by simp
    then show ?thesis using assms none True h
      by (auto simp: HandleWebhook_def verified_def invoice_answer_def split: option.splits)
  next
    case False
    then have "\<not> b" "w' = w" using h by (auto simp: handleInvoiceEvent_def invoice_event_def)
    then show ?thesis using assms none False h
      by (auto simp: HandleWebhook_def verified_def answer_def split: option.splits prod.splits sum.splits)
  qed
qed

lemma HandleWebhook_unverified:
  assumes "\<And>body evt. \<not> verified L a r w body evt"
  shows "snd (HandleWebhook L a r w) = w" "fst (fst (HandleWebhook L a r w)) = 400"
  using assms by (auto simp: HandleWebhook_def verified_def split: option.splits sum.splits)

lemma HandleWebhook_log_step:
  assumes "ps_ledger (ad_payments a) = CreditsService" "credits_inv (db w)"
  shows "log_step (ad_payments a) (db w) (db (snd (HandleWebhook L a r w)))"
proof (cases "\<exists>body evt. verified L a r w body evt")
  case False
  then show ?thesis using HandleWebhook_unverified by (simp add: log_step.other foreign_refl assms)
next
  case True
  then obtain body evt where v: "verified L a r w body evt" by blast
  have "log_step (ad_payments a) (db w) (db (snd (ApplySubscription sub w)))" for sub
    by (intro log_step.other ApplySubscription_foreign assms)
  moreover have "log_step (ad_payments a) (db w) (db (snd (handleInvoiceEvent L a evt w)))"
    by (intro log_step.other handleInvoiceEvent_foreign assms)
  moreover have "log_step (ad_payments a) (db w) (db (snd (Receive (ad_payments a) e w)))" if "mapEvent L evt h t = Some e" for h t e
    using log_step.receive mapEvent_stripe that by blast
  moreover have "log_step (ad_payments a) (db w) (db w)" by (intro log_step.other foreign_refl assms)
  ultimately show ?thesis by (simp add: HandleWebhook_verified [OF v] split: option.splits)
qed

lemma HandleWebhook_step:
  "ps_ledger (ad_payments a) = CreditsService \<Longrightarrow> credits_inv (db w) \<Longrightarrow>
   payment_step (ad_payments a) (db w) (db (snd (HandleWebhook L a r w)))"
  by (rule log_step_payment [OF HandleWebhook_log_step])

section \<open>Samples\<close>

definition sample_cfg :: StripeConfig where
  "sample_cfg = \<lparr>sc_SecretKey = ''sk'', sc_WebhookSecret = ''wh'', sc_SuccessURL = ''ok'', sc_CancelURL = ''no'',
     sc_SubscriptionCredits = Some [(''pro'', 500)]\<rparr>"

definition sample_adapter :: Adapter where
  "sample_adapter = \<lparr>ad_payments = sample_payments, ad_cfg = sample_cfg\<rparr>"

definition sample_invoice :: Invoice where
  "sample_invoice = \<lparr>inv_ID = ''in1'', inv_Status = ''paid'', inv_BillingReason = ''subscription_cycle'', inv_PeriodStart = 1785542400,
     inv_PeriodEnd = 1788220800, inv_Metadata = Some [(''user_id'', ''u1''), (''plan'', ''pro'')], inv_Subscription = Some ''sub1'', inv_Lines = None\<rparr>"

text \<open>A library whose payloads are their own events: the signature is \<open>sig\<close>, the payload is the type of the event.\<close>

definition sample_lib :: StripeLib where
  "sample_lib = \<lparr>ConstructEvent = (\<lambda>body sig secret t. if sig = ''sig'' then Inr \<lparr>evt_ID = ''evt1'', evt_Type = body, evt_Created = 30, evt_Raw = body\<rparr>
       else Inl (ErrMsg ''signature'')),
     Sum256 = (\<lambda>b. b),
     json_Subscription = (\<lambda>s. None), json_Invoice = (\<lambda>s. Inr sample_invoice), json_invoiceShadow = (\<lambda>s. empty_shadow),
     json_CheckoutSession = (\<lambda>s. Some \<lparr>cs_PaymentStatus = ''paid'', cs_PaymentIntent = Some ''pi1'',
        cs_Metadata = [(''purchase_id'', ''000102030405060708090a0b0c0d0e0f'')]\<rparr>),
     json_Charge = (\<lambda>s. None), json_Dispute = (\<lambda>s. None), session_New = (\<lambda>k p. Inr (''url'', ''cs1''))\<rparr>"

definition sample_hook :: "string \<Rightarrow> webhook_request" where
  "sample_hook ty = \<lparr>wh_Body = Inr ty, wh_Signature = ''sig''\<rparr>"

lemma sample_adapter_simps [simp]: "ad_payments sample_adapter = sample_payments" "ad_cfg sample_adapter = sample_cfg"
  by (simp_all add: sample_adapter_def)

section \<open>Properties\<close>

text \<open>A server driven by webhooks: each request in a world of its own, over one database.\<close>

definition serve :: "StripeLib \<Rightarrow> Adapter \<Rightarrow> (webhook_request \<times> world) list \<Rightarrow> database \<Rightarrow> database" where
  "serve L a rs d = fold (\<lambda>(r, w) d. db (snd (HandleWebhook L a r (w\<lparr>db := d\<rparr>)))) rs d"

lemma serve_simps [simp]:
  "serve L a [] d = d" "serve L a ((r, w) # rs) d = serve L a rs (db (snd (HandleWebhook L a r (w\<lparr>db := d\<rparr>))))"
  by (simp_all add: serve_def)

text \<open>C9: a server driven by webhooks never leaves the behaviour of the payment service. From any database the service can
  reach, any sequence of webhook requests, forged or genuine, in any order and with any faults, leads to a database the
  service can reach, in which every purchase still agrees with the ledger.\<close>

theorem webhooks_refine_payments:
  assumes "ps_ledger (ad_payments a) = CreditsService" "small_catalog (ad_payments a)" "payment_reachable (ad_payments a) d"
  shows "payment_reachable (ad_payments a) (serve L a rs d) \<and>
         (\<forall>p \<in> set (payment_purchases (serve L a rs d)).
            grants_for (serve L a rs d) (p_id p) = (if p_fulfilled_at p = None then 0 else p_credits p) \<and>
            refunds_for (serve L a rs d) (p_id p) = p_reversed_credits p \<and> p_reversed_credits p \<le> p_credits p)"
proof -
  have "payment_reachable (ad_payments a) (serve L a rs d)" using assms(3)
  proof (induction rs arbitrary: d)
    case (Cons rw rs)
    obtain r w where rw: "rw = (r, w)" by fastforce
    have "credits_inv d" using payment_reachable_inv [OF assms(1,2) Cons.prems] by (simp add: pay_inv_def)
    then have "payment_step (ad_payments a) d (db (snd (HandleWebhook L a r (w\<lparr>db := d\<rparr>))))"
      using HandleWebhook_step [OF assms(1), of "w\<lparr>db := d\<rparr>" L r] by simp
    then show ?case using Cons.IH [OF payment_reachable.step [OF Cons.prems]] by (simp add: rw)
  qed simp
  then show ?thesis using payment_reachable_inv [OF assms(1,2)] by (auto simp: pay_inv_def purchase_ok_def)
qed

definition served_shop :: database where
  "served_shop = serve sample_lib sample_adapter
     [(sample_hook ''checkout.session.completed'', sample_world empty_db), (sample_hook ''checkout.session.completed'', sample_world empty_db)] created_shop"

theorem webhooks_refine_payments_witness: "payment_reachable sample_payments served_shop"
proof -
  have "payment_reachable sample_payments created_shop"
    using payment_reachable.step [OF payment_reachable.init payment_step.create [of sample_payments "sample_world empty_db", simplified]]
    unfolding created_shop_def .
  then show ?thesis
    using webhooks_refine_payments [of sample_adapter created_shop sample_lib
        "[(sample_hook ''checkout.session.completed'', sample_world empty_db), (sample_hook ''checkout.session.completed'', sample_world empty_db)]"]
    by (simp add: sample_payments_ok served_shop_def del: serve_simps)
qed

text \<open>Nothing happens without a verified signature. A request gets status 400 exactly when its body cannot be read, is
  longer than the limit, or is not signed with the configured secret; a 400 or a 204 means the handler changed nothing at all; and
  every status is one of 200, 204, 400 and 500.\<close>

theorem HandleWebhook_rejections:
  "case HandleWebhook L a r w of ((status, _), w') \<Rightarrow>
     (status = 400 \<longleftrightarrow> (\<forall>body evt. \<not> verified L a r w body evt)) \<and>
     (status = 400 \<or> status = 204 \<longrightarrow> w' = w) \<and> status \<in> {200, 204, 400, 500}"
proof (cases "\<exists>body evt. verified L a r w body evt")
  case False
  then show ?thesis using HandleWebhook_unverified [of L a r w] by (auto split: prod.splits)
next
  case True
  then obtain body evt where v: "verified L a r w body evt" by blast
  then show ?thesis
    by (auto simp: HandleWebhook_verified [OF v] answer_def invoice_answer_def split: option.splits sum.splits prod.splits)
qed

theorem HandleWebhook_rejections_witness:
  "HandleWebhook sample_lib sample_adapter ((sample_hook ''invoice.paid'')\<lparr>wh_Signature := ''x''\<rparr>) (sample_world empty_db) =
     ((400, ''invalid signature''), sample_world empty_db)"
proof -
  let ?r = "(sample_hook ''invoice.paid'')\<lparr>wh_Signature := ''x''\<rparr>" and ?w = "sample_world empty_db"
  have st: "fst (HandleWebhook sample_lib sample_adapter ?r ?w) = (400, ''invalid signature'')"
    by (simp add: HandleWebhook_def read_body_def sample_hook_def maxWebhookBytes_def sample_lib_def)
  then show ?thesis using HandleWebhook_rejections [of sample_lib sample_adapter ?r ?w]
    by (cases "HandleWebhook sample_lib sample_adapter ?r ?w") auto
qed

section \<open>Paid invoices\<close>

text \<open>\<open>credited_once\<close>: nothing happened, or the key was unused, is used now, and one user got the credits of one plan.\<close>

definition plan_paid :: "Adapter \<Rightarrow> database \<Rightarrow> database \<Rightarrow> bool" where
  "plan_paid a d d' \<longleftrightarrow>
     (\<exists>u plan. 0 < plan_credits (ad_cfg a) plan \<and>
        (\<forall>v. balance_of d' v = balance_of d v + (if v = u then plan_credits (ad_cfg a) plan else 0)))"

definition credited_once :: "Adapter \<Rightarrow> string \<Rightarrow> database \<Rightarrow> database \<Rightarrow> bool" where
  "credited_once a k d d' \<longleftrightarrow> d' = d \<or> \<not> key_used d k \<and> key_used d' k \<and> plan_paid a d d'"

lemma credited_once_trans: "credited_once a k d d1 \<Longrightarrow> credited_once a k d1 d2 \<Longrightarrow> credited_once a k d d2"
  by (auto simp: credited_once_def)

lemma GrantSubscriptionPeriod_credited:
  assumes "ps_ledger (ad_payments a) = CreditsService"
  shows "credited_once a (subscription_key prov sid start iid) (db w)
     (db (snd (GrantSubscriptionPeriod (ad_payments a) prov sid iid u (plan_credits (ad_cfg a) plan) start w)))"
proof -
  obtain x w' where run: "GrantSubscriptionPeriod (ad_payments a) prov sid iid u (plan_credits (ad_cfg a) plan) start w = (x, w')" by fastforce
  have "plan_paid a (db w) (posted t ts (db w))" if "0 < plan_credits (ad_cfg a) plan" "t_amount t = plan_credits (ad_cfg a) plan" for t ts
    using that unfolding plan_paid_def by (intro exI [of _ "t_user_id t"] exI [of _ plan]) simp
  then show ?thesis using GrantSubscriptionPeriod_cases [OF assms run]
    by (auto simp: run credited_once_def fresh_row_def)
qed

lemma handleInvoicePaid_credited:
  assumes "ps_ledger (ad_payments a) = CreditsService"
  shows "credited_once a (subscription_key ''stripe'' sid (invoice_period iv) (inv_ID iv)) (db w) (db (snd (handleInvoicePaid a iv raw sid w)))"
proof -
  obtain u p w1 where r: "resolveUserPlan iv raw sid w = ((u, p), w1)" by (metis prod.collapse)
  have same: "credited_once a k d d" for k d by (simp add: credited_once_def)
  show ?thesis
    using GrantSubscriptionPeriod_credited [OF assms, of "''stripe''" sid "invoice_period iv" "inv_ID iv" w1 u p] resolveUserPlan_any [OF r]
    by (auto simp: handleInvoicePaid_def r same split: sum.splits prod.splits)
qed

text \<open>The requests that report the payment of one invoice, whatever else they carry.\<close>

definition pays_invoice :: "StripeLib \<Rightarrow> Adapter \<Rightarrow> string \<Rightarrow> string \<Rightarrow> int \<Rightarrow> webhook_request \<Rightarrow> bool" where
  "pays_invoice L a sid iid start r \<longleftrightarrow>
     (\<forall>w body evt. verified L a r w body evt \<longrightarrow> evt_Type evt = ''invoice.paid'' \<and>
        (\<forall>iv. json_Invoice L (evt_Raw evt) = Inr iv \<longrightarrow>
           inv_ID iv = iid \<and> invoice_period iv = start \<and> invoiceSubID iv (json_invoiceShadow L (evt_Raw evt)) = sid))"

lemma pays_invoice_credited:
  assumes "ps_ledger (ad_payments a) = CreditsService" "pays_invoice L a sid iid start r"
  shows "credited_once a (subscription_key ''stripe'' sid start iid) (db w) (db (snd (HandleWebhook L a r w)))"
proof (cases "\<exists>body evt. verified L a r w body evt")
  case False
  then show ?thesis using HandleWebhook_unverified by (simp add: credited_once_def)
next
  case True
  then obtain body evt where v: "verified L a r w body evt" by blast
  then have t: "evt_Type evt = ''invoice.paid''" using assms(2) by (auto simp: pays_invoice_def)
  then have none: "mapSubscriptionEvent L evt = None" by (simp add: mapSubscriptionEvent_def)
  have run: "snd (HandleWebhook L a r w) = snd (handleInvoiceEvent L a evt w)"
    using HandleWebhook_verified [OF v] t none by (simp add: invoice_event_def)
  show ?thesis
  proof (cases "json_Invoice L (evt_Raw evt)")
    case (Inl e)
    then show ?thesis using run t by (simp add: handleInvoiceEvent_def credited_once_def)
  next
    case (Inr iv)
    let ?sid = "invoiceSubID iv (json_invoiceShadow L (evt_Raw evt))"
    have "inv_ID iv = iid" "invoice_period iv = start" "?sid = sid" using assms(2) v Inr unfolding pays_invoice_def by blast+
    then show ?thesis using run t Inr handleInvoicePaid_credited [OF assms(1), of ?sid iv w "json_invoiceShadow L (evt_Raw evt)"]
      by (simp add: handleInvoiceEvent_def)
  qed
qed

text \<open>C13: a paid invoice is credited at most once. However often its payment is reported, by whatever requests and with whatever
  faults in between, either nothing was credited at all, or exactly one user received the configured credits of
  exactly one plan, once; after that further reports change nothing.\<close>

theorem invoice_credited_at_most_once:
  assumes "ps_ledger (ad_payments a) = CreditsService" "\<forall>(r, w) \<in> set rs. pays_invoice L a sid iid start r"
  shows "credited_once a (subscription_key ''stripe'' sid start iid) d (serve L a rs d)"
  using assms(2)
proof (induction rs arbitrary: d)
  case (Cons rw rs)
  obtain r w where rw: "rw = (r, w)" by fastforce
  have one: "credited_once a (subscription_key ''stripe'' sid start iid) d (db (snd (HandleWebhook L a r (w\<lparr>db := d\<rparr>))))"
    using pays_invoice_credited [OF assms(1), of L sid iid start r "w\<lparr>db := d\<rparr>"] Cons.prems rw by simp
  show ?case using credited_once_trans [OF one Cons.IH] Cons.prems by (simp add: rw)
qed (simp add: credited_once_def)

lemma sample_pays: "pays_invoice sample_lib sample_adapter ''sub1'' ''in1'' 1785542400 (sample_hook ''invoice.paid'')"
  by (auto simp: pays_invoice_def verified_def sample_lib_def sample_hook_def read_body_def sample_invoice_def invoice_period_def invoiceSubID_def
      split: if_splits)

theorem invoice_credited_at_most_once_witness:
  "credited_once sample_adapter (subscription_key ''stripe'' ''sub1'' 1785542400 ''in1'') empty_db
     (serve sample_lib sample_adapter
       [(sample_hook ''invoice.paid'', sample_world empty_db), (sample_hook ''invoice.paid'', sample_world empty_db)] empty_db)"
  using invoice_credited_at_most_once [of sample_adapter
      "[(sample_hook ''invoice.paid'', sample_world empty_db), (sample_hook ''invoice.paid'', sample_world empty_db)]"
      sample_lib "''sub1''" "''in1''" 1785542400 empty_db]
  by (simp add: sample_payments_ok sample_pays del: serve_simps)

text \<open>An invoice that asks for credits: paid, neither manual nor a proration, with a subscription and a period.\<close>

definition invoice_due :: "Invoice \<Rightarrow> string \<Rightarrow> bool" where
  "invoice_due iv sid \<longleftrightarrow>
     (inv_Status iv = [] \<or> inv_Status iv = ''paid'') \<and> inv_BillingReason iv \<noteq> ''manual'' \<and>
     \<not> (inv_BillingReason iv = ''subscription_update'' \<and> is_proration iv) \<and> sid \<noteq> [] \<and> invoice_period iv \<noteq> 0"

lemma resolveUserPlan_ok: "faults w = [] \<Longrightarrow> snd (resolveUserPlan iv raw sid w) = w"
  by (auto simp: resolveUserPlan_def PaySubscriptionOf_def io_ok Let_def row_or_none_def split: if_splits sum.splits prod.splits option.splits)

lemma GrantSubscriptionPeriod_ok:
  assumes "ps_ledger s = CreditsService" "faults w = []" "0 < n" "0 < start" "iid \<noteq> []" "sid \<noteq> []"
    and "valid_id u" "valid_id (''subscription period '' @ sid)" "valid_id (subscription_key ''stripe'' sid start iid)"
    and "randomIDBytes \<le> length (rnd w)" "\<forall>x \<in> set (credit_transactions (db w)). t_id x \<noteq> hex_encode (take randomIDBytes (rnd w))"
  shows "\<exists>w'. GrantSubscriptionPeriod s ''stripe'' sid iid u n start w = (Inr (), w') \<and>
     (\<forall>v. balance_of (db w') v = balance_of (db w) v +
        (if v = u \<and> \<not> key_used (db w) (subscription_key ''stripe'' sid start iid) then n else 0))"
proof -
  let ?k = "subscription_key ''stripe'' sid start iid"
  have st: "valid_id ''stripe''" by code_simp
  have u: "u \<noteq> []" using assms(7) trim_space_sublist [of u] by (auto simp: valid_id_def)
  show ?thesis
    using assms adjust_ok(1) [OF assms(2,7) st assms(8,9,10,11), of n "''grant''"]
    by (simp add: GrantSubscriptionPeriod_def ignore_duplicate_def Grant_def io_defs u)
qed

lemma handleInvoicePaid_skips:
  assumes "faults w = []" "resolveUserPlan iv raw sid w = ((u, plan), w)"
    and "\<not> (invoice_due iv sid \<and> u \<noteq> [] \<and> plan \<noteq> [] \<and> plan_credits (ad_cfg a) plan \<noteq> 0)"
  shows "handleInvoicePaid a iv raw sid w = ((True, None), w)"
  using assms by (auto simp: handleInvoicePaid_def invoice_due_def)

lemma handleInvoicePaid_due:
  assumes "resolveUserPlan iv raw sid w = ((u, plan), w)"
    and "invoice_due iv sid" "u \<noteq> []" "plan \<noteq> []" "plan_credits (ad_cfg a) plan \<noteq> 0"
  shows "handleInvoicePaid a iv raw sid w =
    (case GrantSubscriptionPeriod (ad_payments a) ''stripe'' sid (inv_ID iv) u (plan_credits (ad_cfg a) plan) (invoice_period iv) w of
       (Inl err, w2) \<Rightarrow> ((True, Some err), w2) | (Inr _, w2) \<Rightarrow> ((True, None), w2))"
  using assms by (auto simp: handleInvoicePaid_def invoice_due_def)

text \<open>What the grant needs of its surroundings: identifiers the ledger accepts and a fresh row id.\<close>

definition grantable :: "string \<Rightarrow> string \<Rightarrow> string \<Rightarrow> int \<Rightarrow> world \<Rightarrow> bool" where
  "grantable u sid iid start w \<longleftrightarrow>
     0 < start \<and> iid \<noteq> [] \<and> valid_id u \<and> valid_id (''subscription period '' @ sid) \<and> valid_id (subscription_key ''stripe'' sid start iid) \<and>
     randomIDBytes \<le> length (rnd w) \<and> (\<forall>x \<in> set (credit_transactions (db w)). t_id x \<noteq> hex_encode (take randomIDBytes (rnd w)))"

text \<open>C22: which paid invoices are credited. Without faults a signed \<open>invoice.paid\<close> is answered with 200, and the balance of the user
  rises by the credits of the plan exactly if the invoice is due (paid, not manual, not a proration, with a subscription and a period),
  its user and plan are known, the plan has credits, and the period was not credited before. Nobody else's balance moves.\<close>

theorem invoice_paid_decided:
  assumes "ps_ledger (ad_payments a) = CreditsService" "faults w = []"
    and "verified L a r w body evt" "evt_Type evt = ''invoice.paid''" "json_Invoice L (evt_Raw evt) = Inr iv"
    and "raw = json_invoiceShadow L (evt_Raw evt)" "sid = invoiceSubID iv raw" "fst (resolveUserPlan iv raw sid w) = (u, plan)"
    and "0 \<le> plan_credits (ad_cfg a) plan" "grantable u sid (inv_ID iv) (invoice_period iv) w \<or> \<not> invoice_due iv sid \<or> u = []"
  shows "case HandleWebhook L a r w of (rp, w') \<Rightarrow>
     rp = (200, []) \<and>
     (\<forall>v. balance_of (db w') v = balance_of (db w) v +
        (if v = u \<and> invoice_due iv sid \<and> u \<noteq> [] \<and> plan \<noteq> [] \<and>
            \<not> key_used (db w) (subscription_key ''stripe'' sid (invoice_period iv) (inv_ID iv))
         then plan_credits (ad_cfg a) plan else 0))"
proof -
  have res: "resolveUserPlan iv raw sid w = ((u, plan), w)"
    using assms(8) resolveUserPlan_ok [OF assms(2)] by (metis prod.collapse)
  have run: "HandleWebhook L a r w = invoice_answer (handleInvoicePaid a iv raw sid w)"
    using HandleWebhook_verified [OF assms(3)] assms(4-7) by (simp add: mapSubscriptionEvent_def invoice_event_def handleInvoiceEvent_def Let_def)
  show ?thesis
  proof (cases "invoice_due iv sid \<and> u \<noteq> [] \<and> plan \<noteq> [] \<and> plan_credits (ad_cfg a) plan \<noteq> 0")
    case False
    then show ?thesis using run handleInvoicePaid_skips [OF assms(2) res] by (auto simp: invoice_answer_def)
  next
    case True
    then have g: "grantable u sid (inv_ID iv) (invoice_period iv) w" "sid \<noteq> []" "0 < plan_credits (ad_cfg a) plan"
      using assms(9,10) by (auto simp: invoice_due_def)
    from GrantSubscriptionPeriod_ok [OF assms(1,2) g(3), of "invoice_period iv" "inv_ID iv" sid u] g(1,2)
    obtain w' where "GrantSubscriptionPeriod (ad_payments a) ''stripe'' sid (inv_ID iv) u (plan_credits (ad_cfg a) plan) (invoice_period iv) w = (Inr (), w')"
      "\<And>v. balance_of (db w') v = balance_of (db w) v + (if v = u \<and> \<not> key_used (db w) (subscription_key ''stripe'' sid (invoice_period iv) (inv_ID iv))
         then plan_credits (ad_cfg a) plan else 0)"
      by (auto simp: grantable_def)
    then show ?thesis using True run handleInvoicePaid_due [OF res] by (simp add: invoice_answer_def)
  qed
qed

lemma sample_verified: "verified sample_lib sample_adapter (sample_hook ty) w ty
    \<lparr>evt_ID = ''evt1'', evt_Type = ty, evt_Created = 30, evt_Raw = ty\<rparr> \<longleftrightarrow> length ty \<le> maxWebhookBytes"
  by (auto simp: verified_def sample_lib_def sample_hook_def read_body_def)

lemma sample_grantable: "grantable ''u1'' ''sub1'' ''in1'' 1785542400 (sample_world empty_db)"
proof -
  have "subscription_key ''stripe'' ''sub1'' 1785542400 ''in1'' = ''subscription:stripe:sub1:1785542400:in1''"
    by (simp add: subscription_key_def sprint_int_def digits.simps hex_digit_def) code_simp
  moreover have "valid_id ''u1''" "valid_id ''subscription period sub1''" "valid_id ''subscription:stripe:sub1:1785542400:in1''"
    by (code_simp, code_simp, code_simp)
  ultimately show ?thesis by (simp add: grantable_def randomIDBytes_def)
qed

theorem invoice_paid_decided_witness:
  "balance_of (db (snd (HandleWebhook sample_lib sample_adapter (sample_hook ''invoice.paid'') (sample_world empty_db)))) ''u1'' = 500"
proof -
  let ?w = "sample_world empty_db" and ?evt = "\<lparr>evt_ID = ''evt1'', evt_Type = ''invoice.paid'', evt_Created = 30, evt_Raw = ''invoice.paid''\<rparr>"
  have j: "json_Invoice sample_lib x = Inr sample_invoice" "json_invoiceShadow sample_lib x = empty_shadow" for x by (simp_all add: sample_lib_def)
  have iv: "invoiceSubID sample_invoice empty_shadow = ''sub1''" "invoice_due sample_invoice ''sub1''"
    "fst (resolveUserPlan sample_invoice empty_shadow ''sub1'' ?w) = (''u1'', ''pro'')" "plan_credits sample_cfg ''pro'' = 500"
    "invoice_period sample_invoice = 1785542400" "inv_ID sample_invoice = ''in1''"
    by (simp_all add: invoiceSubID_def sample_invoice_def invoice_due_def invoice_period_def resolveUserPlan_def meta_get_def
        empty_shadow_def plan_credits_def sample_cfg_def)
  have "verified sample_lib sample_adapter (sample_hook ''invoice.paid'') ?w ''invoice.paid'' ?evt"
    by (simp add: sample_verified maxWebhookBytes_def)
  from invoice_paid_decided [OF _ _ this _ j(1) refl refl, of "''u1''" "''pro''"] show ?thesis
    by (simp add: j iv sample_payments_ok sample_grantable split: prod.splits)
qed

section \<open>Failed invoices\<close>

text \<open>A failed payment forgets a pending cancellation. When \<open>invoice.payment_failed\<close> arrives for a subscription whose newest event
  is older, the stored subscription becomes \<open>past_due\<close> with its user and plan, but the trial, the scheduled cancellation and the
  flag \<open>cancel_at_period_end\<close> that the subscription events had stored are reset, because the invoice carries none of them.\<close>

theorem failed_invoice_forgets_cancellation:
  assumes "faults w = []" "verified L a r w body evt" "evt_Type evt = ''invoice.payment_failed''" "json_Invoice L (evt_Raw evt) = Inr iv"
    and "sid = invoiceSubID iv (json_invoiceShadow L (evt_Raw evt))" "sid \<noteq> []" "inv_Metadata iv = None"
    and "find_sub ''stripe'' sid (db w) = Some q" "q_user_id q \<noteq> []" "q_plan q \<noteq> []"
    and "q_last_event_created q < evt_Created evt" "0 < evt_Created evt" "evt_ID evt \<noteq> []"
  shows "case HandleWebhook L a r w of (rp, w') \<Rightarrow>
     rp = (200, []) \<and>
     (case fst (PaySubscriptionOf ''stripe'' sid w') of
        Inl _ \<Rightarrow> False
      | Inr sub \<Rightarrow> ps_Status sub = ''past_due'' \<and> ps_UserID sub = q_user_id q \<and> ps_Plan sub = q_plan q \<and>
          \<not> ps_CancelAtPeriodEnd sub \<and> ps_CancelAt sub = 0 \<and> ps_TrialEnd sub = 0)"
proof -
  let ?e = "failed_event evt iv sid (q_user_id q) (q_plan q)"
  let ?w' = "w\<lparr>db := snd (projr (upsert_psub (sub_row ?e w) (db w)))\<rparr>"
  have key: "q_provider (sub_row ?e w) = ''stripe''" "q_subscription_id (sub_row ?e w) = sid" "q_last_event_created (sub_row ?e w) = evt_Created evt"
    by (simp_all add: sub_row_def psub_of_event_def failed_event_def)
  have res: "resolveUserPlan iv empty_shadow sid w = ((q_user_id q, q_plan q), w)"
    using assms(1,7,8) by (simp add: resolveUserPlan_def empty_shadow_def PaySubscriptionOf_def io_ok row_or_none_def find_sub_def)
  have ok: "valid_sub_event ?e" using assms(6,9,10,12,13) by (simp add: valid_sub_event_def failed_event_def subscription_status_def)
  have "handleInvoiceEvent L a evt w = ((True, None), ?w')"
    using assms(3-6,9,10) res ApplySubscription_ok [OF ok assms(1)] by (simp add: handleInvoiceEvent_def handleInvoiceFailed_def)
  moreover have "find_sub ''stripe'' sid (db ?w') = Some (sub_row ?e w)"
    using find_upsert_psub [OF key(1,2), of "db w"] assms(8,11) key(3) by simp
  ultimately show ?thesis
    using HandleWebhook_verified [OF assms(2)] assms(1,3)
    by (simp add: mapSubscriptionEvent_def invoice_event_def invoice_answer_def PaySubscriptionOf_def io_ok row_or_none_def find_sub_def)
      (simp add: sub_row_def psub_of_event_def failed_event_def subscription_status_def boolToInt_def)
qed

definition cancelling_sub :: psub_row where
  "cancelling_sub = \<lparr>q_provider = ''stripe'', q_subscription_id = ''sub1'', q_user_id = ''u1'', q_plan = ''pro'', q_status = ''active'',
     q_period_start = 1785542400, q_period_end = 1788220800, q_last_event_created = 20, q_updated_at = 20, q_trial_start = 0,
     q_trial_end = 0, q_cancel_at = 1788220800, q_cancel_at_period_end = 1, q_canceled_at = 0\<rparr>"

definition plain_lib :: StripeLib where
  "plain_lib = sample_lib\<lparr>json_Invoice := (\<lambda>s. Inr (sample_invoice\<lparr>inv_Metadata := None\<rparr>))\<rparr>"

theorem failed_invoice_forgets_cancellation_witness:
  "case HandleWebhook plain_lib sample_adapter (sample_hook ''invoice.payment_failed'')
      (sample_world (empty_db\<lparr>payment_subscriptions := [cancelling_sub]\<rparr>)) of (rp, w') \<Rightarrow>
     rp = (200, []) \<and>
     (case fst (PaySubscriptionOf ''stripe'' ''sub1'' w') of
        Inl _ \<Rightarrow> False
      | Inr sub \<Rightarrow> ps_Status sub = ''past_due'' \<and> ps_UserID sub = q_user_id cancelling_sub \<and> ps_Plan sub = q_plan cancelling_sub \<and>
          \<not> ps_CancelAtPeriodEnd sub \<and> ps_CancelAt sub = 0 \<and> ps_TrialEnd sub = 0)"
  by (rule failed_invoice_forgets_cancellation [where body = "''invoice.payment_failed''" and iv = "sample_invoice\<lparr>inv_Metadata := None\<rparr>"
        and evt = "\<lparr>evt_ID = ''evt1'', evt_Type = ''invoice.payment_failed'', evt_Created = 30, evt_Raw = ''invoice.payment_failed''\<rparr>"])
    (simp_all add: verified_def plain_lib_def sample_lib_def sample_hook_def read_body_def maxWebhookBytes_def invoiceSubID_def sample_invoice_def
      find_sub_def cancelling_sub_def)

section \<open>The checkout\<close>

definition pending_row :: "string \<Rightarrow> string \<Rightarrow> string \<Rightarrow> string \<Rightarrow> CatalogItem \<Rightarrow> int \<Rightarrow> purchase_row" where
  "pending_row i prov u sku item ts =
     \<lparr>p_id = i, p_provider = prov, p_user_id = u, p_sku = sku, p_credits = ci_Credits item, p_currency = to_lower (ci_Currency item),
      p_amount_minor = ci_AmountMinor item, p_payment_id = None, p_status = ''pending'', p_created_at = ts, p_updated_at = ts,
      p_fulfilled_at = None, p_reversed_at = None, p_reversed_credits = 0\<rparr>"

lemma CreatePurchase_Inr:
  assumes "CreatePurchase s prov u sku w = (Inr p, w')"
  obtains item i ts where "CatalogItemOf s sku = Some item" "p = purchase_of_row (pending_row i prov u sku item ts)"
    "db w' = db w\<lparr>payment_purchases := payment_purchases (db w) @ [pending_row i prov u sku item ts]\<rparr>"
proof -
  from assms obtain item where item: "CatalogItemOf s sku = Some item" by (auto simp: CreatePurchase_def throw_io_def split: option.splits)
  with assms obtain i w1 n where run: "NewRequestID w = (Inr i, w1)" "stmt (insert_purchase (pending_row i prov u sku item (pnow w1))) w1 = (Inr n, w')"
    "p = purchase_of_row (pending_row i prov u sku item (pnow w1))"
    by (auto simp: CreatePurchase_def bind_io_Inr return_io_Inr throw_io_Inr read_io_Inr pending_row_def purchase_of_row_def split: if_splits)
  have "db w1 = db w" using run(1) by (auto simp: NewRequestID_def newID_def split: if_splits)
  then have "db w' = db w\<lparr>payment_purchases := payment_purchases (db w) @ [pending_row i prov u sku item (pnow w1)]\<rparr>"
    using run(2) by (auto simp: stmt_Inr insert_purchase_def split: if_splits)
  then show thesis using item run(3) that by blast
qed

text \<open>What a checkout needs to go through: the configuration, a known item, a user, a database without faults, random bytes
  for a new id, and a Stripe that opens the session.\<close>

definition checkout_ready :: "StripeLib \<Rightarrow> Adapter \<Rightarrow> string \<Rightarrow> string \<Rightarrow> world \<Rightarrow> bool" where
  "checkout_ready L a userID sku w \<longleftrightarrow>
     sc_SecretKey (ad_cfg a) \<noteq> [] \<and> sc_SuccessURL (ad_cfg a) \<noteq> [] \<and> sc_CancelURL (ad_cfg a) \<noteq> [] \<and> trim_space userID \<noteq> [] \<and>
     (\<exists>item. CatalogItemOf (ad_payments a) sku = Some item \<and> 0 < ci_Credits item \<and> 0 < ci_AmountMinor item) \<and>
     faults w = [] \<and> randomIDBytes \<le> length (rnd w) \<and>
     hex_encode (take randomIDBytes (rnd w)) \<notin> p_id ` set (payment_purchases (db w)) \<and>
     (\<forall>params. \<exists>x. session_New L (sc_SecretKey (ad_cfg a)) params = Inr x)"

lemma CreateCheckout_ok:
  assumes "checkout_ready L a userID sku w"
  shows "\<exists>co w'. CreateCheckout L a userID sku w = (Inr co, w')"
proof -
  from assms obtain item where r: "CatalogItemOf (ad_payments a) sku = Some item" "0 < ci_Credits item" "0 < ci_AmountMinor item"
    "sc_SecretKey (ad_cfg a) \<noteq> []" "sc_SuccessURL (ad_cfg a) \<noteq> []" "sc_CancelURL (ad_cfg a) \<noteq> []" "trim_space userID \<noteq> []" "faults w = []"
    "randomIDBytes \<le> length (rnd w)" "hex_encode (take randomIDBytes (rnd w)) \<notin> p_id ` set (payment_purchases (db w))"
    and ses: "\<And>params. \<exists>x. session_New L (sc_SecretKey (ad_cfg a)) params = Inr x" unfolding checkout_ready_def by blast
  let ?id = "hex_encode (take randomIDBytes (rnd w))"
  have p: "trim_space ''stripe'' \<noteq> []" by code_simp
  have "\<not> list_ex (\<lambda>x. p_id x = ?id) (payment_purchases (db w))" using r(10) unfolding list_ex_iff by (metis imageI)
  then have "\<exists>p w'. CreatePurchase (ad_payments a) ''stripe'' userID sku w = (Inr p, w')"
    using r p by (simp add: CreatePurchase_def io_ok NewRequestID_def newID_def insert_purchase_def)
  then obtain p w' where buy: "CreatePurchase (ad_payments a) ''stripe'' userID sku w = (Inr p, w')" by blast
  obtain x where "session_New L (sc_SecretKey (ad_cfg a)) (checkout_params (ad_cfg a) p) = Inr x" using ses by blast
  then show ?thesis using buy r(4-6) by (cases x) (simp add: CreateCheckout_def StripePurchase_def Let_def io_defs)
qed

text \<open>C34: what a checkout sells. A successful \<open>CreateCheckout\<close> has stored exactly one new pending purchase of the requested item for the
  user, and the session it opened at Stripe charges that purchase: once, at the catalog price and in the catalog currency, with
  the id of the purchase as reference, in both metadata maps and in the idempotency key. It succeeds whenever the checkout
  is configured, the item is known, nothing fails and Stripe opens the session. Without the checkout configuration
  nothing is stored.\<close>

theorem CreateCheckout_sells_catalog_item:
  "(checkout_ready L a userID sku w \<longrightarrow> (\<exists>co w'. CreateCheckout L a userID sku w = (Inr co, w'))) \<and>
   (case CreateCheckout L a userID sku w of
     (Inl _, w') \<Rightarrow> sc_SecretKey (ad_cfg a) = [] \<or> sc_SuccessURL (ad_cfg a) = [] \<or> sc_CancelURL (ad_cfg a) = [] \<longrightarrow> w' = w
   | (Inr co, w') \<Rightarrow>
       (\<exists>row item params. CatalogItemOf (ad_payments a) sku = Some item \<and>
          db w' = db w\<lparr>payment_purchases := payment_purchases (db w) @ [row]\<rparr> \<and>
          p_id row = co_PurchaseID co \<and> p_user_id row = userID \<and> p_sku row = sku \<and> p_provider row = ''stripe'' \<and>
          p_status row = ''pending'' \<and> p_payment_id row = None \<and> p_credits row = ci_Credits item \<and>
          p_amount_minor row = ci_AmountMinor item \<and> p_currency row = to_lower (ci_Currency item) \<and>
          session_New L (sc_SecretKey (ad_cfg a)) params = Inr (co_URL co, co_SessionID co) \<and>
          csp_Quantity params = 1 \<and> csp_UnitAmount params = p_amount_minor row \<and> csp_Currency params = p_currency row \<and>
          csp_ClientReferenceID params = p_id row \<and> csp_Metadata params = [(''purchase_id'', p_id row)] \<and>
          csp_PaymentIntentMetadata params = [(''purchase_id'', p_id row)] \<and>
          csp_IdempotencyKey params = ''credits-checkout:'' @ p_id row))" (is "?ready \<and> ?sells")
proof (cases "CreateCheckout L a userID sku w")
  case (Pair x w')
  have ?sells
  proof (cases x)
    case (Inl e)
    then show ?sells using Pair by (auto simp: CreateCheckout_def throw_io_def Let_def)
  next
    case (Inr co)
    then obtain p where p: "StripePurchase a userID sku w = (Inr p, w')" and
      n: "session_New L (sc_SecretKey (ad_cfg a)) (checkout_params (ad_cfg a) p) = Inr (co_URL co, co_SessionID co)" "co_PurchaseID co = pu_ID p"
      using Pair by (cases "StripePurchase a userID sku w"; cases "fst (StripePurchase a userID sku w)")
        (auto simp: CreateCheckout_def Let_def io_defs split: if_splits sum.splits)
    from p obtain item i ts where r: "CatalogItemOf (ad_payments a) sku = Some item" "p = purchase_of_row (pending_row i ''stripe'' userID sku item ts)"
      "db w' = db w\<lparr>payment_purchases := payment_purchases (db w) @ [pending_row i ''stripe'' userID sku item ts]\<rparr>"
      unfolding StripePurchase_def by (rule CreatePurchase_Inr)
    show ?sells
      unfolding Pair Inr prod.case sum.case
      by (intro exI [of _ "pending_row i ''stripe'' userID sku item ts"] exI [of _ item] exI [of _ "checkout_params (ad_cfg a) p"])
        (simp add: r(1,3) n, simp add: r(2) checkout_params_def purchase_of_row_def pending_row_def)
  qed
  then show ?thesis using CreateCheckout_ok by blast
qed

theorem CreateCheckout_sells_catalog_item_witness:
  "\<exists>co w' row. CreateCheckout sample_lib sample_adapter ''u1'' ''topup'' (sample_world empty_db) = (Inr co, w') \<and>
     db w' = empty_db\<lparr>payment_purchases := [row]\<rparr> \<and> co_PurchaseID co = p_id row \<and> p_user_id row = ''u1'' \<and>
     p_status row = ''pending'' \<and> p_credits row = 100 \<and> p_amount_minor row = 1000"
proof -
  have item: "CatalogItemOf sample_payments ''topup'' = Some \<lparr>ci_Credits = 100, ci_Currency = ''USD'', ci_AmountMinor = 1000\<rparr>"
    by (simp add: sample_payments_def CatalogItemOf_def)
  have "trim_space ''u1'' \<noteq> []" by code_simp
  then have ready: "checkout_ready sample_lib sample_adapter ''u1'' ''topup'' (sample_world empty_db)"
    by (simp add: checkout_ready_def item sample_cfg_def sample_lib_def randomIDBytes_def)
  note sells = CreateCheckout_sells_catalog_item [of sample_lib sample_adapter "''u1''" "''topup''" "sample_world empty_db"]
  then obtain co w' where run: "CreateCheckout sample_lib sample_adapter ''u1'' ''topup'' (sample_world empty_db) = (Inr co, w')"
    using ready by blast
  then show ?thesis using conjunct2 [OF sells] item by auto
qed

end
