(* ===== verification/Byok_Store.thy ===== *)
theory Byok_Store
  imports Reservations
begin

text \<open>
  The store of user-supplied provider keys (\<open>src/credits/byokstore.go\<close>, \<open>src/credits/byokstore_struct.go\<close>).

  The cipher, XChaCha20-Poly1305 of \<open>golang.org/x/crypto\<close>, is a parameter: \<open>aead\<close> holds its \<open>Seal\<close> and \<open>Open\<close>
  as functions of key, nonce, text and additional data. What the code relies on are the documented properties
  \<open>aead_correct\<close> (opening a sealed text with the same data gives the text, a sealed text is 16 bytes longer) and,
  for the isolation of users, \<open>aead_binding\<close> (among the additional data in use, a text does not open with another's).
\<close>

section \<open>The cipher\<close>

record aead =
  a_Seal :: "string \<Rightarrow> string \<Rightarrow> string \<Rightarrow> string \<Rightarrow> string"
  a_Open :: "string \<Rightarrow> string \<Rightarrow> string \<Rightarrow> string \<Rightarrow> string option"

definition NonceSizeX :: nat where "NonceSizeX = 24"
definition Overhead :: nat where "Overhead = 16"

definition aead_correct :: "aead \<Rightarrow> bool" where
  "aead_correct c \<longleftrightarrow>
     (\<forall>key nonce pt aad. length nonce = NonceSizeX \<longrightarrow>
        a_Open c key nonce (a_Seal c key nonce pt aad) aad = Some pt \<and>
        length (a_Seal c key nonce pt aad) = length pt + Overhead)"

definition aead_binding :: "aead \<Rightarrow> string set \<Rightarrow> bool" where
  "aead_binding c A \<longleftrightarrow>
     (\<forall>key nonce pt. \<forall>aad \<in> A. \<forall>aad' \<in> A. aad \<noteq> aad' \<longrightarrow> a_Open c key nonce (a_Seal c key nonce pt aad) aad' = None)"

section \<open>The store\<close>

record CredentialStore =
  cs_aead :: aead
  blob :: string

text \<open>The constructor; the handle and the clock of the service are those of the world an operation runs in.\<close>

definition NewCredentialStore :: "aead \<Rightarrow> string \<Rightarrow> CredentialStore" where
  "NewCredentialStore c encKey = \<lparr>cs_aead = c, blob = encKey\<rparr>"

definition keyed :: "CredentialStore \<Rightarrow> bool" where
  "keyed c \<longleftrightarrow> blob c \<noteq> replicate 32 (CHR 0x00)"

definition aad_of :: "string \<Rightarrow> string \<Rightarrow> string" where
  "aad_of userID provider = userID @ [CHR 0x00] @ provider"

definition seal :: "CredentialStore \<Rightarrow> string \<Rightarrow> string \<Rightarrow> 'z world_scheme \<Rightarrow> (error + string) \<times> 'z world_scheme" where
  "seal c cred aad w =
     (if length (rnd w) < NonceSizeX then (Inl (ErrMsg ''crypto/rand: read failed''), w)
      else (let nonce = take NonceSizeX (rnd w)
            in (Inr (nonce @ a_Seal (cs_aead c) (blob c) nonce cred aad), w\<lparr>rnd := drop NonceSizeX (rnd w)\<rparr>)))"

text \<open>\<open>open\<close>; the joined error of a failed \<open>Open\<close> is, for \<open>errors.Is\<close>, \<open>ErrCredentialDecrypt\<close>.\<close>

definition open_cred :: "CredentialStore \<Rightarrow> string \<Rightarrow> string \<Rightarrow> error + string" where
  "open_cred c sealed aad =
     (if length sealed < NonceSizeX + Overhead then Inl ErrCredentialDecrypt
      else case a_Open (cs_aead c) (blob c) (take NonceSizeX sealed) (drop NonceSizeX sealed) aad of
             None \<Rightarrow> Inl ErrCredentialDecrypt
           | Some pt \<Rightarrow> Inr pt)"

definition is_cred :: "string \<Rightarrow> string \<Rightarrow> credential_row \<Rightarrow> bool" where
  "is_cred userID provider k \<longleftrightarrow> k_user_id k = userID \<and> k_provider k = provider"

definition find_cred :: "string \<Rightarrow> string \<Rightarrow> database \<Rightarrow> credential_row option" where
  "find_cred userID provider d = find (is_cred userID provider) (byok_credentials d)"

text \<open>\<open>INSERT INTO byok_credentials ... ON CONFLICT(user_id, provider) DO UPDATE\<close>.\<close>

definition upsert_cred :: "credential_row \<Rightarrow> database \<Rightarrow> error + (nat \<times> database)" where
  "upsert_cred k d =
     (let same = is_cred (k_user_id k) (k_provider k)
      in Inr (1, d\<lparr>byok_credentials :=
           (if list_ex same (byok_credentials d)
            then update_where same (\<lambda>x. x\<lparr>k_encrypted_key := k_encrypted_key k, k_version := k_version k,
                   k_previous_key := k_previous_key k, k_updated_at := k_updated_at k\<rparr>) (byok_credentials d)
            else byok_credentials d @ [k])\<rparr>))"

text \<open>\<open>COALESCE(MAX(version),0)\<close> over the rows of the key.\<close>

definition max_version :: "string \<Rightarrow> string \<Rightarrow> database \<Rightarrow> int" where
  "max_version userID provider d =
     (case map k_version (filter (is_cred userID provider) (byok_credentials d)) of [] \<Rightarrow> 0 | v # vs \<Rightarrow> fold max vs v)"

definition Put :: "CredentialStore \<Rightarrow> string \<Rightarrow> string \<Rightarrow> string \<Rightarrow> 'z world_scheme \<Rightarrow> (error + unit) \<times> 'z world_scheme" where
  "Put c userID provider cred =
     (if \<not> keyed c then throw_io ErrCredentialStoreDisabled else
      bind_io (check_io (requireIdentifier ''user_id'' userID)) (\<lambda>_.
      bind_io (check_io (requireIdentifier ''provider'' provider)) (\<lambda>_.
      if cred = [] then throw_io (ErrMsg ''credits: credential is required'') else
      bind_io (seal c cred (aad_of userID provider)) (\<lambda>sealed.
      bind_io (read_io now) (\<lambda>ts.
      bind_io (try_io (query (\<lambda>d. row_or_none (find_cred userID provider d)))) (\<lambda>q.
      let prev = (case q of Inl _ \<Rightarrow> None | Inr k \<Rightarrow> Some (k_encrypted_key k)) in
      bind_io (try_io (query (\<lambda>d. Inr (max_version userID provider d)))) (\<lambda>v.
      let version = (case v of Inl _ \<Rightarrow> 1 | Inr curVer \<Rightarrow> if curVer > 0 then wrap64 (curVer + 1) else 1) in
      bind_io (stmt (upsert_cred \<lparr>k_user_id = userID, k_provider = provider, k_encrypted_key = sealed, k_version = version,
         k_previous_key = prev, k_created_at = ts, k_updated_at = ts\<rparr>)) (\<lambda>_.
      return_io ()))))))))"

definition Get :: "CredentialStore \<Rightarrow> string \<Rightarrow> string \<Rightarrow> 'z world_scheme \<Rightarrow> (error + string) \<times> 'z world_scheme" where
  "Get c userID provider =
     (if \<not> keyed c then throw_io ErrCredentialStoreDisabled else
      bind_io (try_io (query (\<lambda>d. row_or_none (find_cred userID provider d)))) (\<lambda>q.
      case q of
        Inl e \<Rightarrow> throw_io (if e = ErrNoRows then ErrCredentialNotFound else e)
      | Inr k \<Rightarrow>
          (case open_cred c (k_encrypted_key k) (aad_of userID provider) of
             Inr cred \<Rightarrow> return_io cred
           | Inl err \<Rightarrow>
               bind_io (try_io (query (\<lambda>d. row_or_none (find_cred userID provider d)))) (\<lambda>q2.
               case q2 of
                 Inl _ \<Rightarrow> throw_io err
               | Inr k2 \<Rightarrow>
                   (case k_previous_key k2 of
                      None \<Rightarrow> throw_io err
                    | Some prev \<Rightarrow>
                        if prev = [] then throw_io err
                        else (case open_cred c prev (aad_of userID provider) of
                                Inr pc \<Rightarrow> return_io pc
                              | Inl _ \<Rightarrow> throw_io err))))))"

definition GetVersion :: "string \<Rightarrow> string \<Rightarrow> 'z world_scheme \<Rightarrow> (error + int) \<times> 'z world_scheme" where
  "GetVersion userID provider =
     bind_io (query (\<lambda>d. row_or_none (find_cred userID provider d))) (\<lambda>k. return_io (k_version k))"

definition Rotate :: "CredentialStore \<Rightarrow> string \<Rightarrow> string \<Rightarrow> string \<Rightarrow> 'z world_scheme \<Rightarrow> (error + unit) \<times> 'z world_scheme" where
  "Rotate c userID provider newCred = Put c userID provider newCred"

text \<open>\<open>DELETE FROM byok_credentials WHERE user_id = ? AND provider = ?\<close>.\<close>

definition delete_cred :: "string \<Rightarrow> string \<Rightarrow> database \<Rightarrow> error + (nat \<times> database)" where
  "delete_cred userID provider d =
     Inr (count_where (is_cred userID provider) (byok_credentials d),
          d\<lparr>byok_credentials := filter (\<lambda>k. \<not> is_cred userID provider k) (byok_credentials d)\<rparr>)"

definition Delete :: "CredentialStore \<Rightarrow> string \<Rightarrow> string \<Rightarrow> 'z world_scheme \<Rightarrow> (error + unit) \<times> 'z world_scheme" where
  "Delete c userID provider =
     (if \<not> keyed c then throw_io ErrCredentialStoreDisabled else
      bind_io (stmt (delete_cred userID provider)) (\<lambda>_. return_io ()))"

definition Configured :: "CredentialStore \<Rightarrow> string \<Rightarrow> string \<Rightarrow> 'z world_scheme \<Rightarrow> (error + bool) \<times> 'z world_scheme" where
  "Configured c userID provider =
     (if \<not> keyed c then return_io False else
      bind_io (query (\<lambda>d. Inr (count_where (is_cred userID provider) (byok_credentials d)))) (\<lambda>n. return_io (n > 0)))"

section \<open>What the operations do\<close>

lemma find_cred_upsert:
  assumes "k_user_id k = u" "k_provider k = p" "upsert_cred k d = Inr (n, d')"
  shows "find_cred u p d' = Some (case find_cred u p d of None \<Rightarrow> k
       | Some x \<Rightarrow> x\<lparr>k_encrypted_key := k_encrypted_key k, k_version := k_version k, k_previous_key := k_previous_key k,
                       k_updated_at := k_updated_at k\<rparr>)"
    and "(v, q) \<noteq> (u, p) \<Longrightarrow> find_cred v q d' = find_cred v q d"
proof -
  let ?f = "\<lambda>x. x\<lparr>k_encrypted_key := k_encrypted_key k, k_version := k_version k, k_previous_key := k_previous_key k,
                       k_updated_at := k_updated_at k\<rparr>"
  have f: "is_cred v q (?f x) = is_cred v q x" for v q x by (simp add: is_cred_def)
  have upd: "find (is_cred v q) (update_where (is_cred u p) ?f rs) =
      map_option (\<lambda>x. if is_cred u p x then ?f x else x) (find (is_cred v q) rs)" for v q rs
    by (induction rs) (simp_all add: f)
  have ex: "list_ex (is_cred u p) (byok_credentials d) \<longleftrightarrow> find_cred u p d \<noteq> None"
    by (auto simp: find_cred_def find_None_iff_set list_ex_iff)
  have hit: "is_cred u p x" if "find_cred u p d = Some x" for x using that by (auto simp: find_cred_def dest: find_SomeD)
  have "is_cred u p k" using assms(1,2) by (simp add: is_cred_def)
  then show "find_cred u p d' = Some (case find_cred u p d of None \<Rightarrow> k | Some x \<Rightarrow> ?f x)"
    using assms ex upd [of u p "byok_credentials d"] hit
    by (auto simp: upsert_cred_def Let_def find_cred_def split: option.splits)
  show "find_cred v q d' = find_cred v q d" if "(v, q) \<noteq> (u, p)"
  proof -
    have "\<not> is_cred u p x" if "find (is_cred v q) (byok_credentials d) = Some x" for x
      using find_SomeD [OF that] \<open>(v, q) \<noteq> (u, p)\<close> by (auto simp: is_cred_def)
    moreover have "\<not> is_cred v q k" using assms(1,2) that by (auto simp: is_cred_def)
    ultimately show ?thesis using assms upd [of v q "byok_credentials d"]
      by (cases "find (is_cred v q) (byok_credentials d)") (auto simp: upsert_cred_def Let_def find_cred_def split: if_splits)
  qed
qed

lemma open_sealed:
  assumes "aead_correct (cs_aead c)" "length nonce = NonceSizeX"
  shows "open_cred c (nonce @ a_Seal (cs_aead c) (blob c) nonce pt aad) aad = Inr pt"
  using assms by (simp add: open_cred_def aead_correct_def)

lemma Put_ok:
  assumes "faults w = []" "keyed c" "valid_id u" "valid_id p" "cred \<noteq> []" "NonceSizeX \<le> length (rnd w)"
  defines "nonce \<equiv> take NonceSizeX (rnd w)"
  defines "row \<equiv> \<lparr>k_user_id = u, k_provider = p,
     k_encrypted_key = nonce @ a_Seal (cs_aead c) (blob c) nonce cred (aad_of u p),
     k_version = (if max_version u p (db w) > 0 then wrap64 (max_version u p (db w) + 1) else 1),
     k_previous_key = map_option k_encrypted_key (find_cred u p (db w)), k_created_at = now w, k_updated_at = now w\<rparr>"
  shows "\<exists>n d. upsert_cred row (db w) = Inr (n, d) \<and> Put c u p cred w = (Inr (), w\<lparr>rnd := drop NonceSizeX (rnd w), db := d\<rparr>)"
proof -
  obtain n d where u: "upsert_cred row (db w) = Inr (n, d)" by (auto simp: upsert_cred_def Let_def)
  have "Put c u p cred w = (Inr (), w\<lparr>rnd := drop NonceSizeX (rnd w), db := d\<rparr>)"
    using assms(1-6) u unfolding row_def nonce_def
    by (cases "find_cred u p (db w)") (auto simp: Put_def io_ok seal_def row_or_none_def Let_def split: if_splits)
  with u show ?thesis by blast
qed

text \<open>C28: a stored key comes back. Without faults, on an enabled store and with a correct cipher, \<open>Put\<close> succeeds and the
  next \<open>Get\<close> of the same user and provider returns exactly the key; the replaced one is kept as the previous key, the
  version is one more than the highest before, and no other user's or provider's entry changes.\<close>

theorem Put_Get_roundtrip:
  assumes "faults w = []" "keyed c" "aead_correct (cs_aead c)" "valid_id u" "valid_id p" "cred \<noteq> []" "NonceSizeX \<le> length (rnd w)"
    and "max_version u p (db w) < max_int64"
  shows "\<exists>w'. Put c u p cred w = (Inr (), w') \<and> fst (Get c u p w') = Inr cred \<and>
     fst (GetVersion u p w') = Inr (max 0 (max_version u p (db w)) + 1) \<and>
     (\<exists>k. find_cred u p (db w') = Some k \<and> k_previous_key k = map_option k_encrypted_key (find_cred u p (db w))) \<and>
     (\<forall>v q. (v, q) \<noteq> (u, p) \<longrightarrow> find_cred v q (db w') = find_cred v q (db w))"
proof -
  let ?nonce = "take NonceSizeX (rnd w)"
  let ?v = "if max_version u p (db w) > 0 then wrap64 (max_version u p (db w) + 1) else 1"
  let ?row = "\<lparr>k_user_id = u, k_provider = p, k_encrypted_key = ?nonce @ a_Seal (cs_aead c) (blob c) ?nonce cred (aad_of u p),
     k_version = ?v, k_previous_key = map_option k_encrypted_key (find_cred u p (db w)), k_created_at = now w, k_updated_at = now w\<rparr>"
  obtain n d where ins: "upsert_cred ?row (db w) = Inr (n, d)"
    and put: "Put c u p cred w = (Inr (), w\<lparr>rnd := drop NonceSizeX (rnd w), db := d\<rparr>)"
    using Put_ok [OF assms(1,2,4-7)] by blast
  obtain k where k: "find_cred u p d = Some k" "k_encrypted_key k = k_encrypted_key ?row" "k_version k = ?v"
    "k_previous_key k = k_previous_key ?row"
    using find_cred_upsert(1) [OF _ _ ins, of u p] by (cases "find_cred u p (db w)") auto
  have "open_cred c (k_encrypted_key k) (aad_of u p) = Inr cred"
    unfolding k(2) using open_sealed [OF assms(3), of ?nonce cred "aad_of u p"] assms(7) by simp
  then have "fst (Get c u p (w\<lparr>rnd := drop NonceSizeX (rnd w), db := d\<rparr>)) = Inr cred"
    using k(1) assms(1,2) by (simp add: Get_def io_ok row_or_none_def)
  moreover have "?v = max 0 (max_version u p (db w)) + 1"
    using assms(8) by (auto simp: wrap64_id in64_def max_int64_def)
  then have "fst (GetVersion u p (w\<lparr>rnd := drop NonceSizeX (rnd w), db := d\<rparr>)) = Inr (max 0 (max_version u p (db w)) + 1)"
    using k(1,3) assms(1) by (simp add: GetVersion_def io_ok row_or_none_def)
  moreover have "find_cred v q d = find_cred v q (db w)" if "(v, q) \<noteq> (u, p)" for v q
    using find_cred_upsert(2) [OF _ _ ins, of u p v q] that by simp
  ultimately show ?thesis using put k(1,4) by (intro exI [of _ "w\<lparr>rnd := drop NonceSizeX (rnd w), db := d\<rparr>"]) auto
qed

text \<open>A stand-in cipher for the examples: the tag is the additional data, cut or padded to 16 bytes.\<close>

definition sample_tag :: "string \<Rightarrow> string" where
  "sample_tag aad = take 16 (aad @ replicate 16 (CHR 0x00))"

definition sample_aead :: aead where
  "sample_aead = \<lparr>a_Seal = (\<lambda>key nonce pt aad. pt @ sample_tag aad),
     a_Open = (\<lambda>key nonce ct aad. if drop (length ct - 16) ct = sample_tag aad then Some (take (length ct - 16) ct) else None)\<rparr>"

definition sample_store :: CredentialStore where
  "sample_store = NewCredentialStore sample_aead (replicate 32 (CHR ''k''))"

lemma length_sample_tag [simp]: "length (sample_tag aad) = 16"
  by (simp add: sample_tag_def)

lemma sample_aead_correct: "aead_correct sample_aead"
  by (simp add: aead_correct_def sample_aead_def Overhead_def)

lemma sample_store_simps [simp]: "cs_aead sample_store = sample_aead" "keyed sample_store"
  by (simp_all add: sample_store_def NewCredentialStore_def keyed_def)

lemma max_version_empty [simp]: "max_version u p empty_db = 0"
  by (simp add: max_version_def)

theorem Put_Get_roundtrip_witness:
  "\<exists>w'. Put sample_store ''u1'' ''openai'' ''sk-1'' (sample_world empty_db) = (Inr (), w') \<and>
     fst (Get sample_store ''u1'' ''openai'' w') = Inr ''sk-1'' \<and> fst (GetVersion ''u1'' ''openai'' w') = Inr 1"
proof -
  have "valid_id ''openai''" by code_simp
  then show ?thesis
    using Put_Get_roundtrip [of "sample_world empty_db" sample_store "''u1''" "''openai''" "''sk-1''"] valid_sample_ids(1)
    by (auto simp: sample_aead_correct NonceSizeX_def max_int64_def)
qed

lemma aad_of_inj: "CHR 0x00 \<notin> set u \<Longrightarrow> CHR 0x00 \<notin> set v \<Longrightarrow> aad_of u p = aad_of v q \<longleftrightarrow> u = v \<and> p = q"
proof -
  assume u: "CHR 0x00 \<notin> set u" and v: "CHR 0x00 \<notin> set v"
  have tw: "takeWhile (\<lambda>c. c \<noteq> CHR 0x00) (aad_of x y) = x" if "CHR 0x00 \<notin> set x" for x y
    using that by (induction x) (auto simp: aad_of_def)
  show ?thesis using tw [OF u, of p] tw [OF v, of q] by (auto simp: aad_of_def)
qed

lemma open_other:
  assumes "aead_binding (cs_aead c) {a, a'}" "a \<noteq> a'" "length nonce = NonceSizeX"
  shows "open_cred c (nonce @ a_Seal (cs_aead c) (blob c) nonce pt a) a' = Inl ErrCredentialDecrypt"
  using assms by (auto simp: open_cred_def aead_binding_def)

text \<open>C29: a sealed key is bound to its owner. If the entry of one user and provider holds texts that were sealed for another
  (rows swapped in the database), \<open>Get\<close> reports \<open>ErrCredentialDecrypt\<close> and never hands the key out, for user ids without
  a zero byte.\<close>

theorem Get_rejects_foreign_key:
  assumes "faults w = []" "keyed c" "CHR 0x00 \<notin> set u" "CHR 0x00 \<notin> set v" "(u, p) \<noteq> (v, q)"
    and "aead_binding (cs_aead c) {aad_of u p, aad_of v q}"
    and "find_cred v q (db w) = Some k" "length nonce = NonceSizeX" "length nonce' = NonceSizeX"
    and "k_encrypted_key k = nonce @ a_Seal (cs_aead c) (blob c) nonce pt (aad_of u p)"
    and "k_previous_key k \<in> {None, Some (nonce' @ a_Seal (cs_aead c) (blob c) nonce' pt' (aad_of u p))}"
  shows "Get c v q w = (Inl ErrCredentialDecrypt, w)"
proof -
  have ne: "aad_of u p \<noteq> aad_of v q" using assms(3-5) by (simp add: aad_of_inj)
  note op = open_other [OF assms(6) ne]
  show ?thesis using assms(1,2,7,10,11) op [OF assms(8), of pt] op [OF assms(9), of pt']
    by (auto simp: Get_def io_ok row_or_none_def)
qed

text \<open>A database in which the row of user \<open>u2\<close> holds the key of user \<open>u1\<close>.\<close>

definition swapped_db :: database where
  "swapped_db = empty_db\<lparr>byok_credentials := [\<lparr>k_user_id = ''u2'', k_provider = ''openai'',
     k_encrypted_key = replicate 24 (CHR ''n'') @ ''sk-1'' @ sample_tag (aad_of ''u1'' ''openai''), k_version = 1, k_previous_key = None,
     k_created_at = 1786751000, k_updated_at = 1786751000\<rparr>]\<rparr>"

theorem Get_rejects_foreign_key_witness:
  "Get sample_store ''u2'' ''openai'' (sample_world swapped_db) = (Inl ErrCredentialDecrypt, sample_world swapped_db)"
proof (rule Get_rejects_foreign_key [where u = "''u1''" and p = "''openai''" and nonce = "replicate 24 (CHR ''n'')" and pt = "''sk-1''"
      and nonce' = "replicate 24 (CHR ''n'')" and pt' = "[]" and k = "hd (byok_credentials swapped_db)"])
  have "sample_tag (aad_of ''u1'' ''openai'') \<noteq> sample_tag (aad_of ''u2'' ''openai'')" by code_simp
  then show "aead_binding (cs_aead sample_store) {aad_of ''u1'' ''openai'', aad_of ''u2'' ''openai''}"
    by (auto simp: aead_binding_def sample_aead_def)
qed (simp_all add: swapped_db_def find_cred_def is_cred_def NonceSizeX_def sample_aead_def)

text \<open>With a zero byte in a user id the additional data of two different entries coincide.\<close>

lemma aad_of_ambiguous: "aad_of (''a'' @ [CHR 0x00] @ ''b'') ''c'' = aad_of ''a'' (''b'' @ [CHR 0x00] @ ''c'')"
  by (simp add: aad_of_def)

text \<open>After \<open>Delete\<close> the entry is gone, and only that one.\<close>

lemma Delete_forgets:
  assumes "faults w = []" "keyed c"
  shows "\<exists>w'. Delete c u p w = (Inr (), w') \<and> fst (Get c u p w') = Inl ErrCredentialNotFound \<and>
     fst (Configured c u p w') = Inr False \<and> (\<forall>v q. (v, q) \<noteq> (u, p) \<longrightarrow> find_cred v q (db w') = find_cred v q (db w))"
proof -
  have none: "find (is_cred u p) (filter (\<lambda>k. \<not> is_cred u p k) ks) = None" for ks by (auto simp: find_None_iff_set)
  have other: "find (is_cred v q) (filter (\<lambda>k. \<not> is_cred u p k) ks) = find (is_cred v q) ks" if "(v, q) \<noteq> (u, p)" for v q ks
    using that by (induction ks) (auto simp: is_cred_def)
  show ?thesis using assms none other
    by (auto simp: Delete_def Get_def Configured_def io_ok delete_cred_def find_cred_def row_or_none_def)
qed

end
