(* ===== verification/Byok_Relay.thy ===== *)
theory Byok_Relay
  imports Byok_Store Settlement
begin

text \<open>
  The relay for calls with the user's own key: path handling (\<open>src/credits/byoksplit.go\<close>, \<open>src/credits/byokoutpath.go\<close>),
  the capture of usage from the response (\<open>src/credits/byokcapture.go\<close>) and the handler (\<open>src/credits/byokrelay.go\<close>).

  Parameters are the decoders of \<open>encoding/json\<close> and \<open>net/url\<close> (collected in \<open>codec\<close>) and the upstream provider, which
  \<open>httputil.ReverseProxy\<close> calls: a function from the outgoing request to the chunks it writes to the response.
\<close>

section \<open>Paths\<close>

text \<open>\<open>strings.SplitN(s, "/", n)\<close>.\<close>

fun splitN :: "nat \<Rightarrow> string \<Rightarrow> string list" where
  "splitN 0 s = []"
| "splitN (Suc 0) s = [s]"
| "splitN (Suc (Suc n)) s =
     (if CHR ''/'' \<in> set s
      then takeWhile (\<lambda>c. c \<noteq> CHR ''/'') s # splitN (Suc n) (tl (dropWhile (\<lambda>c. c \<noteq> CHR ''/'') s))
      else [s])"

definition splitPath :: "string \<Rightarrow> string \<times> string" where
  "splitPath p =
     (let parts = splitN 4 (trim_slash p)
      in if length parts < 3 \<or> parts ! 0 \<noteq> ''api'' \<or> parts ! 1 \<noteq> ''byok'' \<or> parts ! 2 = [] then ([], [])
         else if length parts = 3 then (parts ! 2, [])
         else (parts ! 2, parts ! 3))"

text \<open>\<open>strings.TrimSuffix\<close>.\<close>

definition trim_suffix :: "string \<Rightarrow> string \<Rightarrow> string" where
  "trim_suffix s x = (if suffix x s then take (length s - length x) s else s)"

definition outboundPath :: "string \<Rightarrow> string \<Rightarrow> string" where
  "outboundPath basePath rest0 =
     (let base = trim_slash (trim_suffix basePath ''/''); rest = trim_slash rest0
      in if rest = [] then (if base = [] then ''/'' else ''/'' @ base)
         else
           let base' = (if base \<noteq> [] then
                          let first = splitN 2 rest ! 0
                          in if suffix first base then trim_suffix (trim_suffix base ''/'') first else base
                        else base)
           in if base' = [] then ''/'' @ rest else ''/'' @ base' @ ''/'' @ rest)"

section \<open>Capturing usage\<close>

definition maxUsageCaptureBytes :: nat where "maxUsageCaptureBytes = 2 ^ 20"

record openaiUsage =
  PromptTokens :: int
  CompletionTokens :: int
  TotalTokens :: int
  CachedTokens :: "int option"

text \<open>\<open>url.URL\<close>, as far as the relay looks at it.\<close>

record url =
  ur_Scheme :: string
  ur_Host :: string
  ur_Hostname :: string
  ur_Path :: string

text \<open>
  The decoders. \<open>decode_usage\<close>: \<open>json.Unmarshal\<close> into \<open>struct{Usage *openaiUsage}\<close>, \<^const>\<open>None\<close> when it fails.
  \<open>decode_head\<close>: the fields \<open>Model\<close> and \<open>Stream\<close> after \<open>json.Unmarshal\<close> of the request, whose error is dropped.
  \<open>with_usage\<close>: the request re-encoded with \<open>stream_options.include_usage\<close> set, \<^const>\<open>None\<close> when it is no JSON object.
\<close>

record codec =
  decode_usage :: "string \<Rightarrow> openaiUsage option option"
  decode_head :: "string \<Rightarrow> string \<times> bool option"
  with_usage :: "string \<Rightarrow> string option"
  parse_url :: "string \<Rightarrow> url option"
  loopback_ip :: "string \<Rightarrow> bool"

text \<open>
  The calls an \<open>http.ResponseWriter\<close> receives, and \<open>usageRW\<close>: the fields that change, the calls made on the wrapped writer
  so far, and whether that writer is an \<open>http.Flusher\<close>.
\<close>

datatype writer_call = CallWriteHeader int | CallWrite string | CallFlush

record usageRW =
  rw_rec :: Usage
  rw_body :: string
  rw_line :: string
  rw_usage :: "openaiUsage option"
  rw_stream :: bool
  rw_done :: bool
  rw_calls :: "writer_call list"
  rw_flusher :: bool

definition appendLine :: "string \<Rightarrow> usageRW \<Rightarrow> usageRW" where
  "appendLine p u =
     (if length (rw_line u) + length p \<le> maxUsageCaptureBytes then u\<lparr>rw_line := rw_line u @ p\<rparr> else u)"

definition parseLine :: "codec \<Rightarrow> usageRW \<Rightarrow> usageRW" where
  "parseLine cd u =
     (let line = trim_space (rw_line u)
      in if \<not> prefix ''data:'' line then u
         else (case decode_usage cd (trim_space (drop 5 line)) of
                 Some (Some x) \<Rightarrow> u\<lparr>rw_usage := Some x\<rparr>
               | _ \<Rightarrow> u))"

text \<open>The loop of \<open>capture\<close> over the lines of a chunk.\<close>

function capture_lines :: "codec \<Rightarrow> string \<Rightarrow> usageRW \<Rightarrow> usageRW" where
  "capture_lines cd p u =
     (if p = [] then u
      else if CHR 0x0A \<notin> set p then appendLine p u
      else let l = takeWhile (\<lambda>c. c \<noteq> CHR 0x0A) p
           in capture_lines cd (drop (length l + 1) p) ((parseLine cd (appendLine l u))\<lparr>rw_line := []\<rparr>))"
  by pat_completeness auto
termination
  by (relation "measure (\<lambda>(_, p, _). length p)") (auto simp: Let_def)

declare capture_lines.simps [simp del]

definition capture :: "codec \<Rightarrow> string \<Rightarrow> usageRW \<Rightarrow> usageRW" where
  "capture cd p u0 =
     (let u = (if \<not> rw_stream u0 \<and> prefix ''data:'' (trim_space p) then u0\<lparr>rw_stream := True, rw_body := []\<rparr> else u0)
      in if \<not> rw_stream u
         then (if length (rw_body u) + length p \<le> maxUsageCaptureBytes then u\<lparr>rw_body := rw_body u @ p\<rparr> else u)
         else capture_lines cd p u)"

text \<open>The methods of \<open>usageRW\<close> as a writer.\<close>

definition rw_Write :: "codec \<Rightarrow> string \<Rightarrow> usageRW \<Rightarrow> usageRW" where
  "rw_Write cd p u = (let u' = capture cd p u in u'\<lparr>rw_calls := rw_calls u' @ [CallWrite p]\<rparr>)"

definition rw_Flush :: "usageRW \<Rightarrow> usageRW" where
  "rw_Flush u = (if rw_flusher u then u\<lparr>rw_calls := rw_calls u @ [CallFlush]\<rparr> else u)"

definition rw_WriteHeader :: "int \<Rightarrow> usageRW \<Rightarrow> usageRW" where
  "rw_WriteHeader code u = u\<lparr>rw_calls := rw_calls u @ [CallWriteHeader code]\<rparr>"

definition rw_call :: "codec \<Rightarrow> writer_call \<Rightarrow> usageRW \<Rightarrow> usageRW" where
  "rw_call cd c =
     (case c of CallWriteHeader code \<Rightarrow> rw_WriteHeader code | CallWrite p \<Rightarrow> rw_Write cd p | CallFlush \<Rightarrow> rw_Flush)"

definition recordUsage ::
  "codec \<Rightarrow> Service \<Rightarrow> (nat \<Rightarrow> error option) \<Rightarrow> usageRW \<Rightarrow> world \<Rightarrow> (error + unit) \<times> world" where
  "recordUsage cd s ctx u =
     (let usage = (if \<not> rw_stream u
                   then (case decode_usage cd (rw_body u) of Some x \<Rightarrow> x | None \<Rightarrow> rw_usage u)
                   else rw_usage u)
      in case usage of
           None \<Rightarrow> return_io ()
         | Some x \<Rightarrow>
             bind_io (read_io clk) (\<lambda>t.
             RecordUsageRetry s ctx
               ((rw_rec u)\<lparr>u_CreatedAt := (case u_CreatedAt (rw_rec u) of None \<Rightarrow> Some t | Some c \<Rightarrow> Some c),
                  u_InputTokens := PromptTokens x, u_OutputTokens := CompletionTokens x,
                  u_CachedTokens := (case CachedTokens x of None \<Rightarrow> u_CachedTokens (rw_rec u) | Some c \<Rightarrow> c)\<rparr>)))"

text \<open>\<open>finish\<close>; the error of recording is only logged.\<close>

definition finish ::
  "codec \<Rightarrow> Service \<Rightarrow> (nat \<Rightarrow> error option) \<Rightarrow> usageRW \<Rightarrow> world \<Rightarrow> usageRW \<times> world" where
  "finish cd s ctx u w =
     (if rw_done u then (u, w)
      else (let u' = u\<lparr>rw_done := True\<rparr> in (u', snd (recordUsage cd s ctx u' w))))"

section \<open>The handler\<close>

type_synonym headers = "(string \<times> string) list"

definition header_get :: "string \<Rightarrow> headers \<Rightarrow> string" where
  "header_get k hs = (case map_of hs k of None \<Rightarrow> [] | Some v \<Rightarrow> v)"

definition header_del :: "string \<Rightarrow> headers \<Rightarrow> headers" where
  "header_del k hs = filter (\<lambda>(x, _). x \<noteq> k) hs"

definition header_set :: "string \<Rightarrow> string \<Rightarrow> headers \<Rightarrow> headers" where
  "header_set k v hs = (k, v) # header_del k hs"

text \<open>A request and, beside it, whether the writer that comes with it is an \<open>http.Flusher\<close>.\<close>

record http_request =
  rq_Method :: string
  rq_Path :: string
  rq_Headers :: headers
  rq_Body :: "(error + string) option"
  rq_Flusher :: bool

text \<open>The request the proxy sends: what \<open>Rewrite\<close> makes of it, and the body as \<open>modelFromBody\<close> leaves it.\<close>

record outbound =
  ob_Scheme :: string
  ob_Host :: string
  ob_Path :: string
  ob_Headers :: headers
  ob_Body :: "string option"

text \<open>
  \<open>br_proxied\<close> are the headers \<open>ReverseProxy\<close> hands to \<open>Rewrite\<close>, \<open>br_forwarded\<close> is \<open>SetXForwarded\<close>, \<open>br_upstream\<close> the calls
  \<open>ReverseProxy\<close> makes on the writer it is given.
\<close>

record ByokRelay =
  br_svc :: Service
  br_stores :: CredentialStore
  br_bases :: "(string \<times> string) list"
  br_codec :: codec
  br_proxied :: "headers \<Rightarrow> headers"
  br_forwarded :: "headers \<Rightarrow> headers"
  br_upstream :: "outbound \<Rightarrow> writer_call list"

text \<open>The constructor. The logger and the timeout of the upstream call do not show in what the relay computes.\<close>

definition NewByokRelay ::
  "codec \<Rightarrow> (headers \<Rightarrow> headers) \<Rightarrow> (headers \<Rightarrow> headers) \<Rightarrow> (outbound \<Rightarrow> writer_call list) \<Rightarrow>
   Service \<Rightarrow> CredentialStore \<Rightarrow> (string \<times> string) list \<Rightarrow> ByokRelay" where
  "NewByokRelay cd proxied forwarded upstream s stores bases =
     \<lparr>br_svc = s, br_stores = stores, br_bases = bases, br_codec = cd, br_proxied = proxied, br_forwarded = forwarded,
      br_upstream = upstream\<rparr>"

datatype response = Refused int string | Panicked error | Relayed outbound usageRW

definition maxByokRequestBytes :: nat where "maxByokRequestBytes = 2 ^ 20"

definition isLoopbackHost :: "codec \<Rightarrow> string \<Rightarrow> bool" where
  "isLoopbackHost cd host \<longleftrightarrow> host = ''localhost'' \<or> loopback_ip cd host"

text \<open>\<open>modelFromBody\<close>: model, stream flag and the new body; reading stops after \<open>maxByokRequestBytes + 1\<close> bytes.\<close>

definition modelFromBody :: "codec \<Rightarrow> (error + string) option \<Rightarrow> error + (string \<times> bool \<times> string option)" where
  "modelFromBody cd rb =
     (case rb of
        None \<Rightarrow> Inr ([], False, None)
      | Some (Inl err) \<Rightarrow> Inl err
      | Some (Inr all) \<Rightarrow>
          (let body = take (maxByokRequestBytes + 1) all
           in if length body > maxByokRequestBytes then Inl (ErrMsg ''request body too large'')
              else (let (model, stream) = decode_head cd body;
                        streaming = (stream = Some True);
                        body' = (if streaming then (case with_usage cd body of Some out \<Rightarrow> out | None \<Rightarrow> body) else body)
                    in Inr (model, streaming, Some body'))))"

definition newRequestIDForRelay :: "http_request \<Rightarrow> world \<Rightarrow> (error + string) \<times> world" where
  "newRequestIDForRelay req =
     (let id = header_get ''X-Byok-Request-Id'' (rq_Headers req)
      in if id \<noteq> [] then return_io (''byok:'' @ id) else NewRequestID)"

definition bad_target :: "codec \<Rightarrow> url \<Rightarrow> bool" where
  "bad_target cd t \<longleftrightarrow>
     ur_Scheme t \<noteq> ''https'' \<and> (ur_Scheme t \<noteq> ''http'' \<or> \<not> isLoopbackHost cd (ur_Hostname t)) \<or> ur_Host t = []"

text \<open>The function \<open>Rewrite\<close> of the proxy.\<close>

definition rewrite :: "ByokRelay \<Rightarrow> url \<Rightarrow> string \<Rightarrow> string \<Rightarrow> headers \<Rightarrow> string option \<Rightarrow> outbound" where
  "rewrite r target upstreamPath cred hs body =
     \<lparr>ob_Scheme = ur_Scheme target, ob_Host = ur_Host target, ob_Path = upstreamPath,
      ob_Headers = header_del ''X-Auth-User'' (header_del ''X-Byok-Key''
        (header_set ''Authorization'' (''Bearer '' @ cred) (br_forwarded r (br_proxied r hs)))),
      ob_Body = body\<rparr>"

definition new_meter :: "string \<Rightarrow> string \<Rightarrow> string \<Rightarrow> string \<Rightarrow> bool \<Rightarrow> bool \<Rightarrow> usageRW" where
  "new_meter requestID userID provider model stream flusher =
     \<lparr>rw_rec = \<lparr>u_RequestID = requestID, u_UserID = userID, u_Provider = provider, u_Model = model,
        u_BillingMode = billingModeByok, u_InputTokens = 0, u_OutputTokens = 0, u_CachedTokens = 0, u_ReasoningTokens = 0,
        u_CostMicrounits = 0, u_CreditsCharged = 0, u_PricingVersion = [], u_CreatedAt = None\<rparr>,
      rw_body = [], rw_line = [], rw_usage = None, rw_stream = stream, rw_done = False, rw_calls = [],
      rw_flusher = flusher\<rparr>"

definition ServeHTTP :: "ByokRelay \<Rightarrow> (nat \<Rightarrow> error option) \<Rightarrow> http_request \<Rightarrow> world \<Rightarrow> response \<times> world" where
  "ServeHTTP r ctx req w =
     (if rq_Method req \<noteq> ''POST'' then (Refused 405 ''method not allowed'', w) else
      let (provider, rest) = splitPath (rq_Path req)
      in if provider = [] then (Refused 400 ''provider required'', w) else
      case map_of (br_bases r) provider of
        None \<Rightarrow> (Refused 404 ''unknown provider'', w)
      | Some base \<Rightarrow>
      let userID = header_get ''X-Auth-User'' (rq_Headers req)
      in case requireIdentifier ''X-Auth-User'' userID of
        Some _ \<Rightarrow> (Refused 401 ''authenticated user required'', w)
      | None \<Rightarrow>
      case Get (br_stores r) userID provider w of
        (Inl _, w1) \<Rightarrow> (Refused 404 ''credential not configured'', w1)
      | (Inr cred, w1) \<Rightarrow>
      case parse_url (br_codec r) base of
        None \<Rightarrow> (Refused 500 ''bad provider base'', w1)
      | Some target \<Rightarrow>
      if bad_target (br_codec r) target then (Refused 500 ''bad provider base'', w1) else
      let upstreamPath = outboundPath (ur_Path target) rest
      in case modelFromBody (br_codec r) (rq_Body req) of
        Inl err \<Rightarrow> (Refused 413 (error_text err), w1)
      | Inr (model, stream, body) \<Rightarrow>
      case newRequestIDForRelay req w1 of
        (Inl err, w2) \<Rightarrow> (Panicked err, w2)
      | (Inr requestID, w2) \<Rightarrow>
      let out = rewrite r target upstreamPath cred (rq_Headers req) body;
          meter = fold (rw_call (br_codec r)) (br_upstream r out)
                    (new_meter requestID userID provider model stream (rq_Flusher req));
          (meter', w3) = finish (br_codec r) (br_svc r) ctx meter w2
      in (Relayed out meter', w3))"

section \<open>The capture does not depend on the chunks\<close>

text \<open>\<open>fits n p\<close>: reading \<open>p\<close> behind \<open>n\<close> bytes of an unfinished line never makes a line longer than the buffer.\<close>

fun fits :: "nat \<Rightarrow> string \<Rightarrow> bool" where
  "fits n [] \<longleftrightarrow> n \<le> maxUsageCaptureBytes"
| "fits n (c # cs) \<longleftrightarrow> n \<le> maxUsageCaptureBytes \<and> (if c = CHR 0x0A then fits 0 cs else fits (Suc n) cs)"

lemma fits_start: "fits n p \<Longrightarrow> n \<le> maxUsageCaptureBytes"
  by (cases p) auto

lemma fits_append_line: "CHR 0x0A \<notin> set l \<Longrightarrow> fits n (l @ p) \<Longrightarrow> fits (n + length l) p"
proof (induction l arbitrary: n)
  case (Cons a l)
  then show ?case using Cons.IH [of "Suc n"] by auto
qed simp

lemma fits_line: "CHR 0x0A \<notin> set l \<Longrightarrow> fits n (l @ p) \<Longrightarrow> n + length l \<le> maxUsageCaptureBytes"
  using fits_append_line fits_start by blast

lemma appendLine_split:
  assumes "length (rw_line u) + length l + length k \<le> maxUsageCaptureBytes"
  shows "appendLine (l @ k) u = appendLine k (appendLine l u)"
  using assms by (simp add: appendLine_def)

lemma line_split:
  assumes "CHR 0x0A \<in> set p"
  obtains l q where "p = l @ [CHR 0x0A] @ q" "CHR 0x0A \<notin> set l"
  using split_list_first [OF assms] by auto

lemma takeWhile_line [simp]:
  "CHR 0x0A \<notin> set l \<Longrightarrow> takeWhile (\<lambda>c. c \<noteq> CHR 0x0A) (l @ CHR 0x0A # q) = l"
  by (induction l) auto

lemma capture_line:
  "CHR 0x0A \<notin> set l \<Longrightarrow> capture_lines cd (l @ [CHR 0x0A] @ q) u =
     capture_lines cd q ((parseLine cd (appendLine l u))\<lparr>rw_line := []\<rparr>)"
  by (subst capture_lines.simps) (simp add: Let_def)

lemma capture_rest: "CHR 0x0A \<notin> set p \<Longrightarrow> capture_lines cd p u = appendLine p u"
  by (subst capture_lines.simps) (auto simp: appendLine_def)

lemma capture_lines_append:
  assumes "fits (length (rw_line u)) (p @ q)"
  shows "capture_lines cd (p @ q) u = capture_lines cd q (capture_lines cd p u)"
  using assms
proof (induction p arbitrary: u rule: length_induct)
  case (1 p)
  show ?case
  proof (cases "CHR 0x0A \<in> set p")
    case True
    then obtain l k where p: "p = l @ [CHR 0x0A] @ k" "CHR 0x0A \<notin> set l" by (rule line_split)
    let ?u = "(parseLine cd (appendLine l u))\<lparr>rw_line := []\<rparr>"
    have "fits (length (rw_line u) + length l) (CHR 0x0A # k @ q)" using 1(2) p by (auto dest: fits_append_line)
    then have "capture_lines cd (k @ q) ?u = capture_lines cd q (capture_lines cd k ?u)"
      using 1(1) p by (intro 1(1) [rule_format]) auto
    then show ?thesis using p(2) capture_line [OF p(2), of cd "k @ q" u] capture_line [OF p(2), of cd k u] by (simp add: p(1))
  next
    case False
    note rest = capture_rest [OF False]
    show ?thesis
    proof (cases "CHR 0x0A \<in> set q")
      case True
      then obtain l k where q: "q = l @ [CHR 0x0A] @ k" "CHR 0x0A \<notin> set l" by (rule line_split)
      have "length (rw_line u) + length (p @ l) \<le> maxUsageCaptureBytes"
        using fits_line [of "p @ l" "length (rw_line u)" "CHR 0x0A # k"] 1(2) False q by simp
      then have "appendLine (p @ l) u = appendLine l (appendLine p u)" by (simp add: appendLine_split)
      then show ?thesis using False q capture_line [of "p @ l" cd k u] capture_line [OF q(2), of cd k "appendLine p u"] by (simp add: rest)
    next
      case nq: False
      have "length (rw_line u) + length (p @ q) \<le> maxUsageCaptureBytes"
        using fits_line [of "p @ q" "length (rw_line u)" "[]"] 1(2) False nq by simp
      then show ?thesis using False nq by (simp add: rest capture_rest appendLine_split)
    qed
  qed
qed

lemma capture_lines_stream: "rw_stream (capture_lines cd p u) = rw_stream u"
proof (induction cd p u rule: capture_lines.induct)
  case (1 cd p u)
  have "rw_stream (parseLine cd x) = rw_stream x" "rw_stream (appendLine y x) = rw_stream x" for x y
    by (simp_all add: parseLine_def appendLine_def Let_def split: option.splits)
  then show ?case using 1 by (subst capture_lines.simps) (simp add: Let_def)
qed

lemma capture_stream: "rw_stream u \<Longrightarrow> capture cd p u = capture_lines cd p u"
  by (simp add: capture_def)

lemma fits_after:
  "fits (length (rw_line u)) (p @ q) \<Longrightarrow> fits (length (rw_line (capture_lines cd p u))) q"
proof (induction p arbitrary: u rule: length_induct)
  case (1 p)
  show ?case
  proof (cases "CHR 0x0A \<in> set p")
    case True
    then obtain l k where p: "p = l @ [CHR 0x0A] @ k" "CHR 0x0A \<notin> set l" by (rule line_split)
    have "fits (length (rw_line u) + length l) (CHR 0x0A # k @ q)" using 1(2) p by (auto dest: fits_append_line)
    then show ?thesis using p 1(1) capture_line [OF p(2), of cd k u] by (auto simp del: append.simps)
  next
    case False
    then have "length (rw_line u) + length p \<le> maxUsageCaptureBytes" "fits (length (rw_line u) + length p) q"
      using 1(2) fits_line fits_append_line by blast+
    then show ?thesis using False by (simp add: capture_rest appendLine_def)
  qed
qed

text \<open>The first chunk decides whether an unmarked response is taken for a stream; more bytes behind it change nothing.\<close>

lemma prefix_before: "c \<in> set s \<Longrightarrow> c \<notin> set q \<Longrightarrow> prefix q (s @ t) \<longleftrightarrow> prefix q s"
  by (auto simp: prefix_append)

lemma trim_with_append:
  assumes "\<forall>q \<in> set seqs. c \<notin> set q" "trim_with seqs s = c # r"
  shows "trim_with seqs (s @ t) = c # r @ t"
  using assms
proof (induction seqs s rule: trim_with.induct)
  case (1 seqs s)
  have "c \<in> set s" using trim_with_suffix [of seqs s] 1(3) by (metis list.set_intros(1) set_mono_suffix subsetD)
  then have "prefix q (s @ t) \<longleftrightarrow> prefix q s" if "q \<in> set seqs" for q using prefix_before [of c s q t] that 1(2) by blast
  then have "find (\<lambda>q. q \<noteq> [] \<and> prefix q (s @ t)) seqs = find (\<lambda>q. q \<noteq> [] \<and> prefix q s) seqs"
    by (intro find_cong) auto
  note same = this
  have "strip_one seqs (s @ t) = map_option (\<lambda>x. x @ t) (strip_one seqs s)"
  proof (cases "find (\<lambda>q. q \<noteq> [] \<and> prefix q s) seqs")
    case (Some q)
    from find_SomeD [OF Some] have "drop (length q) (s @ t) = drop (length q) s @ t" by (auto simp: prefix_def)
    then show ?thesis unfolding strip_one_def same Some by simp
  qed (simp only: strip_one_def same option.map)
  then show ?case using 1
    by (cases "strip_one seqs s") (simp_all add: trim_with.simps [of seqs s] trim_with.simps [of seqs "s @ t"] trim_with.simps [of seqs "c # r @ t"])
qed

lemma trim_with_keeps:
  assumes "\<forall>q \<in> set seqs. c \<notin> set q" "suffix (c # y) s"
  shows "suffix (c # y) (trim_with seqs s)"
  using assms
proof (induction seqs s rule: trim_with.induct)
  case (1 seqs s)
  show ?case
  proof (cases "strip_one seqs s")
    case (Some s')
    then obtain q where f: "find (\<lambda>q. q \<noteq> [] \<and> prefix q s) seqs = Some q" and s': "s' = drop (length q) s" by (auto simp: strip_one_def)
    note q = conjunct1 [OF find_SomeD [OF f]] conjunct2 [OF conjunct2 [OF find_SomeD [OF f]]] s'
    obtain x where x: "s = x @ c # y" using 1(3) by (auto simp: suffix_def)
    have "prefix q ((x @ [c]) @ y)" using q(2) x by simp
    then have "prefix q (x @ [c])" using prefix_before [of c "x @ [c]" q y] 1(2) q(1) by simp
    then have "prefix q x" using 1(2) q(1) by (auto simp: prefix_snoc)
    then have "suffix (c # y) s'" using q(3) x by (auto simp: prefix_def suffix_def)
    then show ?thesis using 1 Some by (simp add: trim_with.simps [of seqs s])
  qed (use 1 in \<open>simp add: trim_with.simps [of seqs s]\<close>)
qed

lemma data_chunk:
  assumes "prefix ''data:'' (trim_space p)"
  shows "prefix ''data:'' (trim_space (p @ q))"
proof -
  let ?l = "trim_with space_seqs p"
  have "suffix (trim_with (map rev space_seqs) (rev ?l)) (rev ?l)" by (rule trim_with_suffix)
  then have "prefix (trim_space p) ?l" by (simp add: trim_space_def suffix_to_prefix)
  then have "prefix ''data:'' ?l" using assms prefix_order.trans by blast
  then obtain r where l: "?l = CHR ''d'' # ''ata:'' @ r" by (auto simp: prefix_def)
  have "\<forall>x \<in> set space_seqs. CHR ''d'' \<notin> set x" "\<forall>x \<in> set (map rev space_seqs). CHR '':'' \<notin> set x"
    by (simp_all add: space_seqs_def)
  note sp = this
  have "trim_with space_seqs (p @ q) = ''data:'' @ r @ q" using trim_with_append [OF sp(1) l, of q] by simp
  moreover have "suffix (CHR '':'' # ''atad'') (rev (''data:'' @ r @ q))" by (simp add: suffix_def)
  from trim_with_keeps [OF sp(2) this] have "prefix ''data:'' (rev (trim_with (map rev space_seqs) (rev (''data:'' @ r @ q))))"
    by (simp add: suffix_to_prefix)
  ultimately show ?thesis by (simp add: trim_space_def)
qed

lemma capture_lines_chunks:
  assumes "rw_stream u" "fits (length (rw_line u)) (concat ps)"
  shows "fold (capture cd) ps u = capture_lines cd (concat ps) u"
  using assms
proof (induction ps arbitrary: u)
  case Nil
  then show ?case by (simp add: capture_rest appendLine_def fits_start)
next
  case (Cons p ps)
  have "fold (capture cd) ps (capture_lines cd p u) = capture_lines cd (concat ps) (capture_lines cd p u)"
    using Cons.prems by (intro Cons.IH) (simp_all add: capture_lines_stream fits_after)
  then show ?case using Cons.prems by (simp add: capture_stream capture_lines_append)
qed

lemma capture_turns_stream:
  "\<not> rw_stream u \<Longrightarrow> prefix ''data:'' (trim_space p) \<Longrightarrow> capture cd p u = capture_lines cd p (u\<lparr>rw_stream := True, rw_body := []\<rparr>)"
  by (simp add: capture_def)

text \<open>C33: how the upstream response is cut into chunks does not matter, once it is known to be a stream: because the request
  asked for one, or because its first chunk begins, after white space, with the whole of \<open>data:\<close>. If besides no line
  outgrows the buffer, capturing the response chunk by chunk leaves exactly the state that capturing it in one piece
  does, and so the same usage.\<close>

theorem capture_chunk_independent:
  assumes "rw_stream u \<or> ps \<noteq> [] \<and> prefix ''data:'' (trim_space (hd ps))" "fits (length (rw_line u)) (concat ps)"
  shows "fold (capture cd) ps u = capture cd (concat ps) u"
proof (cases "rw_stream u")
  case True
  then show ?thesis using capture_lines_chunks assms(2) by (simp add: capture_stream)
next
  case False
  then obtain p qs where ps: "ps = p # qs" and d: "prefix ''data:'' (trim_space p)" using assms(1) by (cases ps) auto
  let ?u = "u\<lparr>rw_stream := True, rw_body := []\<rparr>"
  have "fold (capture cd) ps u = fold (capture cd) ps ?u"
    using capture_turns_stream [OF False d] by (simp add: ps capture_stream)
  also have "\<dots> = capture_lines cd (concat ps) ?u" using assms(2) by (intro capture_lines_chunks) simp_all
  also have "\<dots> = capture cd (concat ps) u" using capture_turns_stream [OF False] data_chunk [OF d] by (simp add: ps)
  finally show ?thesis .
qed

text \<open>A decoder for the examples: the only usage it knows is that of the payload \<open>U\<close>.\<close>

definition sample_codec :: codec where
  "sample_codec = \<lparr>decode_usage = (\<lambda>s. if s = ''U'' then Some (Some \<lparr>PromptTokens = 7, CompletionTokens = 5, TotalTokens = 12,
       CachedTokens = None\<rparr>) else None),
     decode_head = (\<lambda>s. (''gpt-4o-mini'', Some True)), with_usage = (\<lambda>s. None),
     parse_url = (\<lambda>s. Some \<lparr>ur_Scheme = ''https'', ur_Host = s, ur_Hostname = s, ur_Path = ''/v1''\<rparr>),
     loopback_ip = (\<lambda>s. s = ''127.0.0.1'')\<rparr>"

definition sample_chunks :: "string list" where
  "sample_chunks = [''dat'', ''a: U'' @ [CHR 0x0A] @ ''da'', ''ta: [DONE]'' @ [CHR 0x0A]]"

abbreviation sample_meter :: "bool \<Rightarrow> usageRW" where
  "sample_meter \<equiv> \<lambda>stream. new_meter ''q'' ''u1'' ''openai'' ''gpt-4o-mini'' stream True"

theorem capture_chunk_independent_witness:
  "fold (capture sample_codec) sample_chunks (sample_meter True) =
     capture sample_codec (''data: U'' @ [CHR 0x0A] @ ''data: [DONE]'' @ [CHR 0x0A]) (sample_meter True) \<and>
   fold (capture sample_codec) [''data: '', ''U'' @ [CHR 0x0A]] (sample_meter False) =
     capture sample_codec (''data: U'' @ [CHR 0x0A]) (sample_meter False)"
proof -
  have "prefix ''data:'' (trim_space ''data: '')" by code_simp
  then show ?thesis
    using capture_chunk_independent [of "sample_meter True" sample_chunks sample_codec]
      capture_chunk_independent [of "sample_meter False" "[''data: '', ''U'' @ [CHR 0x0A]]" sample_codec]
    by (simp add: sample_chunks_def maxUsageCaptureBytes_def new_meter_def)
qed

text \<open>The condition on the first chunk is needed. A response nobody marked as a stream whose chunks all begin in the middle of
  the text, so that none of them begins with \<open>data:\<close>, is kept as one body, which is not JSON; nothing is recorded. The
  same bytes in one piece are metered (the witness: \<open>da\<close> and \<open>ta: U\<close>), so the usage of a call can depend on how the
  network cuts the response.\<close>

theorem unmarked_stream_unmetered:
  assumes "\<not> rw_stream u" "rw_usage u = None" "\<forall>p \<in> set ps. \<not> prefix ''data:'' (trim_space p)"
    and "length (rw_body u) + length (concat ps) \<le> maxUsageCaptureBytes" "decode_usage cd (rw_body u @ concat ps) = None"
  shows "recordUsage cd s ctx (fold (capture cd) ps u) w = (Inr (), w)"
proof -
  have "fold (capture cd) ps u = u\<lparr>rw_body := rw_body u @ concat ps\<rparr>" using assms(1,3,4)
  proof (induction ps arbitrary: u)
    case (Cons p ps)
    have "capture cd p u = u\<lparr>rw_body := rw_body u @ p\<rparr>" using Cons.prems by (simp add: capture_def)
    then show ?case using Cons.IH [of "u\<lparr>rw_body := rw_body u @ p\<rparr>"] Cons.prems by simp
  qed simp
  then show ?thesis using assms(1,2,5) by (simp add: recordUsage_def return_io_def)
qed

theorem unmarked_stream_unmetered_witness:
  "recordUsage sample_codec sample_service (\<lambda>_. None) (fold (capture sample_codec) [''da'', ''ta: U'' @ [CHR 0x0A]] (sample_meter False))
     (sample_world empty_db) = (Inr (), sample_world empty_db) \<and>
   map_option PromptTokens (rw_usage (capture sample_codec (''data: U'' @ [CHR 0x0A]) (sample_meter False))) = Some 7"
proof
  have "\<not> prefix ''data:'' (trim_space ''da'')" "\<not> prefix ''data:'' (trim_space (''ta: U'' @ [CHR 0x0A]))" by code_simp+
  then show "recordUsage sample_codec sample_service (\<lambda>_. None) (fold (capture sample_codec) [''da'', ''ta: U'' @ [CHR 0x0A]] (sample_meter False))
     (sample_world empty_db) = (Inr (), sample_world empty_db)"
    by (intro unmarked_stream_unmetered) (simp_all add: new_meter_def maxUsageCaptureBytes_def sample_codec_def)
  have "trim_space ''data: U'' = ''data: U''" "trim_space '' U'' = ''U''" "prefix ''data:'' (trim_space (''data: U'' @ [CHR 0x0A]))" by code_simp+
  then show "map_option PromptTokens (rw_usage (capture sample_codec (''data: U'' @ [CHR 0x0A]) (sample_meter False))) = Some 7"
    using capture_line [of "''data: U''" sample_codec "[]"]
    by (simp add: capture_def new_meter_def capture_rest appendLine_def maxUsageCaptureBytes_def parseLine_def sample_codec_def)
qed

section \<open>Memory and money\<close>

definition buffers_ok :: "usageRW \<Rightarrow> bool" where
  "buffers_ok u \<longleftrightarrow> length (rw_body u) \<le> maxUsageCaptureBytes \<and> length (rw_line u) \<le> maxUsageCaptureBytes"

lemma parseLine_simps [simp]:
  "rw_line (parseLine cd u) = rw_line u" "rw_body (parseLine cd u) = rw_body u" "rw_rec (parseLine cd u) = rw_rec u"
  by (simp_all add: parseLine_def Let_def split: option.splits)

lemma appendLine_simps [simp]: "rw_body (appendLine l u) = rw_body u" "rw_rec (appendLine l u) = rw_rec u"
  by (simp_all add: appendLine_def)

lemma capture_lines_buffers: "buffers_ok u \<Longrightarrow> buffers_ok (capture_lines cd p u)"
proof (induction cd p u rule: capture_lines.induct)
  case (1 cd p u)
  have "buffers_ok (appendLine p u)" using 1(2) by (simp add: buffers_ok_def) (simp add: appendLine_def)
  then show ?case using 1 by (subst capture_lines.simps) (auto simp: Let_def buffers_ok_def)
qed

lemma capture_lines_rec: "rw_rec (capture_lines cd p u) = rw_rec u"
proof (induction cd p u rule: capture_lines.induct)
  case (1 cd p u)
  then show ?case by (subst capture_lines.simps) (simp add: Let_def)
qed

lemma capture_buffers: "buffers_ok u \<Longrightarrow> buffers_ok (capture cd p u)"
  using capture_lines_buffers [of u cd p] capture_lines_buffers [of "u\<lparr>rw_stream := True, rw_body := []\<rparr>" cd p]
  by (simp add: capture_def Let_def) (auto simp: buffers_ok_def)

lemma capture_rec: "rw_rec (capture cd p u) = rw_rec u"
  by (simp add: capture_def Let_def capture_lines_rec)

text \<open>The memory the relay spends on a response is bounded. Whatever the upstream sends, in whatever chunks, neither the
  body buffer nor the line buffer ever holds more than \<open>maxUsageCaptureBytes\<close>.\<close>

theorem capture_bounded:
  "buffers_ok (fold (capture cd) ps (new_meter q u prov model stream flusher))"
proof -
  have "buffers_ok v \<Longrightarrow> buffers_ok (fold (capture cd) ps v)" for v
    by (induction ps arbitrary: v) (simp_all add: capture_buffers)
  then show ?thesis by (simp add: buffers_ok_def new_meter_def)
qed

lemma capture_lines_calls: "capture_lines cd p (u\<lparr>rw_calls := cs\<rparr>) = (capture_lines cd p u)\<lparr>rw_calls := cs\<rparr>"
proof (induction cd p u rule: capture_lines.induct)
  case (1 cd p u)
  have a: "appendLine l (u\<lparr>rw_calls := cs\<rparr>) = (appendLine l u)\<lparr>rw_calls := cs\<rparr>" for l u by (simp add: appendLine_def)
  have "parseLine cd (u\<lparr>rw_calls := cs\<rparr>) = (parseLine cd u)\<lparr>rw_calls := cs\<rparr>" for u
    by (simp add: parseLine_def Let_def split: option.splits)
  then have "(parseLine cd (appendLine l (u\<lparr>rw_calls := cs\<rparr>)))\<lparr>rw_line := []\<rparr> =
      ((parseLine cd (appendLine l u))\<lparr>rw_line := []\<rparr>)\<lparr>rw_calls := cs\<rparr>" for l by (simp add: a)
  with 1 show ?case by (subst (1 2) capture_lines.simps) (simp add: Let_def a)
qed

lemma capture_calls: "capture cd p (u\<lparr>rw_calls := cs\<rparr>) = (capture cd p u)\<lparr>rw_calls := cs\<rparr>"
proof -
  have eq: "u\<lparr>rw_calls := cs, rw_stream := True, rw_body := []\<rparr> = u\<lparr>rw_stream := True, rw_body := [], rw_calls := cs\<rparr>" by simp
  show ?thesis by (simp add: capture_def Let_def eq capture_lines_calls)
qed

lemma capture_kept: "rw_calls (capture cd p u) = rw_calls u" "rw_flusher (capture cd p u) = rw_flusher u"
proof -
  show "rw_calls (capture cd p u) = rw_calls u"
    using capture_calls [where u = u and cs = "rw_calls u"] by (metis usageRW.select_convs(7) usageRW.surjective usageRW.update_convs(7))
  have "rw_flusher (capture_lines cd p u) = rw_flusher u" for u
  proof (induction cd p u rule: capture_lines.induct)
    case (1 cd p u)
    then show ?case
      by (subst capture_lines.simps) (simp add: Let_def parseLine_def appendLine_def split: option.splits)
  qed
  then show "rw_flusher (capture cd p u) = rw_flusher u" by (simp add: capture_def Let_def)
qed

text \<open>Handing the calls on and metering them do not disturb each other.\<close>

definition handed_on :: "bool \<Rightarrow> writer_call list \<Rightarrow> writer_call list" where
  "handed_on flusher cs = filter (\<lambda>c. c \<noteq> CallFlush \<or> flusher) cs"

definition chunks :: "writer_call list \<Rightarrow> string list" where
  "chunks cs = List.map_filter (\<lambda>c. case c of CallWrite p \<Rightarrow> Some p | _ \<Rightarrow> None) cs"

lemma fold_rw_call:
  "fold (rw_call cd) cs u = (fold (capture cd) (chunks cs) u)\<lparr>rw_calls := rw_calls u @ handed_on (rw_flusher u) cs\<rparr>"
proof (induction cs arbitrary: u)
  case Nil
  then show ?case by (simp add: chunks_def handed_on_def List.map_filter_def)
next
  case (Cons c cs)
  have f: "fold (capture cd) ps (u\<lparr>rw_calls := x\<rparr>) = (fold (capture cd) ps u)\<lparr>rw_calls := x\<rparr>" for ps u x
    by (induction ps arbitrary: u) (simp_all add: capture_calls)
  show ?case using Cons.IH
    by (cases c) (auto simp: rw_call_def rw_Write_def rw_Flush_def rw_WriteHeader_def Let_def f capture_kept chunks_def
        handed_on_def List.map_filter_def)
qed

lemma fold_capture_rec: "rw_rec (fold (capture cd) ps u) = rw_rec u"
  by (induction ps arbitrary: u) (simp_all add: capture_rec)

lemma Get_any: "Get c u p w = (x, w') \<Longrightarrow> db w' = db w"
proof -
  assume run: "Get c u p w = (x, w')"
  have "preserves (\<lambda>d. d = db w) (Get c u p)" unfolding Get_def by (intro pres_intros)
  from preservesD [OF this, of w] run show ?thesis by simp
qed

lemma NewRequestID_any: "NewRequestID w = (x, w') \<Longrightarrow> db w' = db w"
  by (auto simp: NewRequestID_def newID_def split: if_splits)

text \<open>What a request that reaches the upstream has passed.\<close>

lemma ServeHTTP_Relayed:
  assumes "ServeHTTP r ctx req w = (Relayed out u, w')"
  obtains provider rest base cred w1 target model stream body requestID w2 where
    "rq_Method req = ''POST''" "splitPath (rq_Path req) = (provider, rest)" "map_of (br_bases r) provider = Some base"
    "valid_id (header_get ''X-Auth-User'' (rq_Headers req))"
    "Get (br_stores r) (header_get ''X-Auth-User'' (rq_Headers req)) provider w = (Inr cred, w1)"
    "parse_url (br_codec r) base = Some target" "\<not> bad_target (br_codec r) target"
    "out = rewrite r target (outboundPath (ur_Path target) rest) cred (rq_Headers req) body"
    "newRequestIDForRelay req w1 = (Inr requestID, w2)"
    "finish (br_codec r) (br_svc r) ctx (fold (rw_call (br_codec r)) (br_upstream r out)
       (new_meter requestID (header_get ''X-Auth-User'' (rq_Headers req)) provider model stream (rq_Flusher req))) w2 = (u, w')"
  using assms that unfolding ServeHTTP_def Let_def
  by (auto split: if_splits prod.splits option.splits sum.splits)

lemma header_get_set: "header_get k (header_set k v hs) = v"
  by (simp add: header_get_def header_set_def)

lemma header_get_del: "header_get k (header_del k' hs) = (if k = k' then [] else header_get k hs)"
proof -
  have "map_of (filter (\<lambda>(x, _). x \<noteq> k') hs) k = (if k = k' then None else map_of hs k)" by (induction hs) auto
  then show ?thesis by (simp add: header_get_def header_del_def)
qed

lemma header_get_other: "k \<noteq> k' \<Longrightarrow> header_get k (header_set k' v hs) = header_get k hs"
  using header_get_del [of k k' hs] by (simp add: header_set_def header_get_def)

text \<open>C30: only the stored key leaves. A request the relay forwards was a \<open>POST\<close> with an authenticated user, goes by \<open>https\<close>, or
  by \<open>http\<close> to the loopback host, carries as \<open>Authorization\<close> the key that \<open>Get\<close> returned for that user and provider, and
  neither \<open>X-Auth-User\<close> nor \<open>X-Byok-Key\<close>. Every other header goes out as the proxy hands it to \<open>Rewrite\<close>: in particular the
  internal \<open>X-Byok-Request-Id\<close> is not removed but reaches the provider (the witness).\<close>

theorem relay_swaps_credentials:
  assumes "ServeHTTP r ctx req w = (Relayed out u, w')"
  shows "rq_Method req = ''POST'' \<and> valid_id (header_get ''X-Auth-User'' (rq_Headers req)) \<and>
     (\<exists>cred w1. Get (br_stores r) (header_get ''X-Auth-User'' (rq_Headers req)) (fst (splitPath (rq_Path req))) w = (Inr cred, w1) \<and>
        header_get ''Authorization'' (ob_Headers out) = ''Bearer '' @ cred) \<and>
     header_get ''X-Auth-User'' (ob_Headers out) = [] \<and> header_get ''X-Byok-Key'' (ob_Headers out) = [] \<and>
     (\<forall>k. k \<noteq> ''Authorization'' \<longrightarrow> k \<noteq> ''X-Auth-User'' \<longrightarrow> k \<noteq> ''X-Byok-Key'' \<longrightarrow>
        header_get k (ob_Headers out) = header_get k (br_forwarded r (br_proxied r (rq_Headers req)))) \<and>
     (\<exists>base target. map_of (br_bases r) (fst (splitPath (rq_Path req))) = Some base \<and> parse_url (br_codec r) base = Some target \<and>
        ob_Scheme out = ur_Scheme target \<and> ob_Host out = ur_Host target \<and> ur_Host target \<noteq> [] \<and>
        (ur_Scheme target = ''https'' \<or> ur_Scheme target = ''http'' \<and> isLoopbackHost (br_codec r) (ur_Hostname target)))"
  using assms
proof (rule ServeHTTP_Relayed)
  fix provider rest base cred w1 target model stream body requestID w2
  assume a: "rq_Method req = ''POST''" "splitPath (rq_Path req) = (provider, rest)"
    "valid_id (header_get ''X-Auth-User'' (rq_Headers req))"
    "Get (br_stores r) (header_get ''X-Auth-User'' (rq_Headers req)) provider w = (Inr cred, w1)"
    and t: "map_of (br_bases r) provider = Some base" "parse_url (br_codec r) base = Some target" "\<not> bad_target (br_codec r) target"
    and out: "out = rewrite r target (outboundPath (ur_Path target) rest) cred (rq_Headers req) body"
  have "header_get k (ob_Headers out) = header_get k (br_forwarded r (br_proxied r (rq_Headers req)))"
    if "k \<noteq> ''Authorization''" "k \<noteq> ''X-Auth-User''" "k \<noteq> ''X-Byok-Key''" for k
    using that by (simp add: out rewrite_def header_get_del header_get_other)
  moreover have "header_get ''X-Auth-User'' (ob_Headers out) = []" "header_get ''X-Byok-Key'' (ob_Headers out) = []"
    "header_get ''Authorization'' (ob_Headers out) = ''Bearer '' @ cred" "ob_Scheme out = ur_Scheme target" "ob_Host out = ur_Host target"
    by (simp_all add: out rewrite_def header_get_del header_get_set)
  moreover have "ur_Host target \<noteq> []" "ur_Scheme target = ''https'' \<or> ur_Scheme target = ''http'' \<and> isLoopbackHost (br_codec r) (ur_Hostname target)"
    using t(3) by (auto simp: bad_target_def)
  ultimately show ?thesis using a t(1,2) by (simp only: fst_conv) blast
qed

definition sample_relay :: ByokRelay where
  "sample_relay = NewByokRelay sample_codec (\<lambda>hs. hs) (\<lambda>hs. hs)
     (\<lambda>_. CallWriteHeader 200 # concat (map (\<lambda>p. [CallWrite p, CallFlush]) sample_chunks))
     sample_service sample_store [(''openai'', ''api.openai.com'')]"

definition sample_request :: http_request where
  "sample_request = \<lparr>rq_Method = ''POST'', rq_Path = ''/api/byok/openai/v1/chat/completions'',
     rq_Headers = [(''X-Auth-User'', ''u1''), (''X-Byok-Key'', ''client''), (''X-Byok-Request-Id'', ''7'')], rq_Body = Some (Inr ''{}''),
     rq_Flusher = True\<rparr>"

definition stored_db :: database where
  "stored_db = empty_db\<lparr>byok_credentials := [\<lparr>k_user_id = ''u1'', k_provider = ''openai'',
     k_encrypted_key = replicate 24 (CHR ''n'') @ ''sk-1'' @ sample_tag (aad_of ''u1'' ''openai''), k_version = 1, k_previous_key = None,
     k_created_at = 1786751000, k_updated_at = 1786751000\<rparr>]\<rparr>"

lemma sample_captured:
  assumes "rw_stream v" "rw_line v = []"
  shows "fold (capture sample_codec) sample_chunks v =
    v\<lparr>rw_usage := Some \<lparr>PromptTokens = 7, CompletionTokens = 5, TotalTokens = 12, CachedTokens = None\<rparr>\<rparr>"
proof -
  have t: "trim_space ''data: U'' = ''data: U''" "trim_space '' U'' = ''U''" "trim_space ''data: [DONE]'' = ''data: [DONE]''"
    "trim_space '' [DONE]'' = ''[DONE]''" by code_simp+
  have l: "capture_lines cd (''data: U'' @ [CHR 0x0A] @ q) u = capture_lines cd q ((parseLine cd (appendLine ''data: U'' u))\<lparr>rw_line := []\<rparr>)"
    "capture_lines cd (''data: [DONE]'' @ [CHR 0x0A] @ []) u = capture_lines cd [] ((parseLine cd (appendLine ''data: [DONE]'' u))\<lparr>rw_line := []\<rparr>)"
    for cd q u by (rule capture_line, simp)+
  have "fold (capture sample_codec) sample_chunks v = capture_lines sample_codec (concat sample_chunks) v"
    using assms by (intro capture_lines_chunks) (simp_all add: sample_chunks_def maxUsageCaptureBytes_def)
  also have "concat sample_chunks = ''data: U'' @ [CHR 0x0A] @ ''data: [DONE]'' @ [CHR 0x0A] @ []" by (simp add: sample_chunks_def)
  finally show ?thesis unfolding l
    using assms t by (simp add: capture_rest appendLine_def maxUsageCaptureBytes_def parseLine_def sample_codec_def)
qed

text \<open>The sample request is relayed, and its usage is recorded.\<close>

lemma sample_run:
  "\<exists>out u w' l. ServeHTTP sample_relay (\<lambda>_. None) sample_request (sample_world stored_db) = (Relayed out u, w') \<and>
     header_get ''X-Byok-Request-Id'' (br_forwarded sample_relay (br_proxied sample_relay (rq_Headers sample_request))) = ''7'' \<and>
     llm_usage (db w') = [l] \<and> l_input_tokens l = 7"
proof -
  have sp: "splitPath (rq_Path sample_request) = (''openai'', ''v1/chat/completions'')" by code_simp
  have get: "Get sample_store ''u1'' ''openai'' (sample_world stored_db) = (Inr ''sk-1'', sample_world stored_db)" by code_simp
  have mb: "modelFromBody sample_codec (rq_Body sample_request) = Inr (''gpt-4o-mini'', True, Some ''{}'')"
    by (simp add: modelFromBody_def maxByokRequestBytes_def sample_codec_def sample_request_def)
  have rq: "rq_Method sample_request = ''POST''" "header_get ''X-Auth-User'' (rq_Headers sample_request) = ''u1''" "rq_Flusher sample_request"
    "newRequestIDForRelay sample_request (sample_world stored_db) = (Inr ''byok:7'', sample_world stored_db)"
    by (simp_all add: sample_request_def header_get_def newRequestIDForRelay_def return_io_def)
  have rl: "map_of (br_bases sample_relay) ''openai'' = Some ''api.openai.com''" "br_stores sample_relay = sample_store"
    "br_codec sample_relay = sample_codec" "parse_url sample_codec ''api.openai.com'' = Some \<lparr>ur_Scheme = ''https'',
       ur_Host = ''api.openai.com'', ur_Hostname = ''api.openai.com'', ur_Path = ''/v1''\<rparr>" "br_svc sample_relay = sample_service"
    "chunks (br_upstream sample_relay out) = sample_chunks" for out
    by (simp_all add: sample_relay_def NewByokRelay_def sample_codec_def chunks_def List.map_filter_def sample_chunks_def)
  let ?m = "new_meter ''byok:7'' ''u1'' ''openai'' ''gpt-4o-mini'' True True"
  let ?y = "(rw_rec ?m)\<lparr>u_CreatedAt := Some 1786752000000000000, u_InputTokens := 7, u_OutputTokens := 5, u_CachedTokens := 0\<rparr>"
  have v: "validateUsage 0 ?y = None" by code_simp
  have "pick (sample_world d) = 0" for d by (simp add: sample_world_def)
  then have "\<exists>w1 l. RecordUsage sample_service ?y (sample_world stored_db) = (Inr (), w1) \<and> llm_usage (db w1) = [l] \<and> l_input_tokens l = 7"
    using RecordUsage_ok(1) [of "sample_world stored_db" ?y sample_service] v
    by (simp add: stored_db_def usage_recorded_def randomIDBytes_def new_usage_row_def)
  then obtain w3 l where rec: "RecordUsage sample_service ?y (sample_world stored_db) = (Inr (), w3)" "llm_usage (db w3) = [l]" "l_input_tokens l = 7"
    by blast
  have fin: "snd (finish sample_codec sample_service (\<lambda>_. None) (fold (rw_call sample_codec) (br_upstream sample_relay out) ?m) (sample_world stored_db)) = w3" for out
    using rec(1) by (simp add: finish_def fold_rw_call rl(6) sample_captured new_meter_def recordUsage_def io_defs RecordUsageRetry_def numeral_3_eq_3)
  have "\<exists>out u. ServeHTTP sample_relay (\<lambda>_. None) sample_request (sample_world stored_db) =
      (Relayed out u, snd (finish sample_codec sample_service (\<lambda>_. None) (fold (rw_call sample_codec) (br_upstream sample_relay out) ?m) (sample_world stored_db)))"
    using sp get mb rq rl(1-5) valid_sample_ids(1)
    by (simp add: ServeHTTP_def Let_def bad_target_def split: prod.splits)
  moreover have "header_get ''X-Byok-Request-Id'' (br_forwarded sample_relay (br_proxied sample_relay (rq_Headers sample_request))) = ''7''"
    by (simp add: sample_relay_def NewByokRelay_def sample_request_def header_get_def)
  ultimately show ?thesis using rec(2,3) unfolding fin by blast
qed

theorem relay_swaps_credentials_witness:
  "\<exists>out u w'. ServeHTTP sample_relay (\<lambda>_. None) sample_request (sample_world stored_db) = (Relayed out u, w') \<and>
     header_get ''Authorization'' (ob_Headers out) = ''Bearer sk-1'' \<and> header_get ''X-Byok-Request-Id'' (ob_Headers out) = ''7'' \<and>
     header_get ''X-Auth-User'' (ob_Headers out) = [] \<and> header_get ''X-Byok-Key'' (ob_Headers out) = []"
proof -
  obtain out u w' where run: "ServeHTTP sample_relay (\<lambda>_. None) sample_request (sample_world stored_db) = (Relayed out u, w')"
    and id: "header_get ''X-Byok-Request-Id'' (br_forwarded sample_relay (br_proxied sample_relay (rq_Headers sample_request))) = ''7''"
    using sample_run by blast
  let ?get = "Get (br_stores sample_relay) (header_get ''X-Auth-User'' (rq_Headers sample_request)) (fst (splitPath (rq_Path sample_request)))
      (sample_world stored_db)"
  have key: "fst ?get = Inr ''sk-1''" by code_simp
  note swap = relay_swaps_credentials [OF run]
  from swap obtain cred w1 where c: "?get = (Inr cred, w1)" "header_get ''Authorization'' (ob_Headers out) = ''Bearer '' @ cred" by blast
  have "cred = ''sk-1''" using key unfolding c(1) by simp
  then have "header_get ''Authorization'' (ob_Headers out) = ''Bearer sk-1''" using c(2) by simp
  moreover have "header_get ''X-Byok-Request-Id'' (ob_Headers out) = ''7''" unfolding id [symmetric] using swap by simp
  moreover have "header_get ''X-Auth-User'' (ob_Headers out) = []" "header_get ''X-Byok-Key'' (ob_Headers out) = []"
    using conjunct1 [OF conjunct2 [OF conjunct2 [OF conjunct2 [OF swap]]]] conjunct1 [OF conjunct2 [OF conjunct2 [OF conjunct2 [OF conjunct2 [OF swap]]]]] .
  ultimately show ?thesis using run by (intro exI [of _ out] exI [of _ u] exI [of _ w'] conjI)
qed

text \<open>What a request can change: at most the usage log, by one attempt to record a usage of the caller.\<close>

definition byok_usage :: "http_request \<Rightarrow> Usage \<Rightarrow> bool" where
  "byok_usage req y \<longleftrightarrow>
     u_BillingMode y = billingModeByok \<and> u_CreditsCharged y = 0 \<and> u_CostMicrounits y = 0 \<and>
     u_UserID y = header_get ''X-Auth-User'' (rq_Headers req) \<and> u_Provider y = fst (splitPath (rq_Path req))"

lemma recordUsage_run:
  assumes "byok_usage req (rw_rec u)"
  shows "snd (recordUsage cd s ctx u w) = w \<or> (\<exists>y. byok_usage req y \<and> snd (recordUsage cd s ctx u w) = snd (RecordUsageRetry s ctx y w))"
proof -
  define v where "v = (if \<not> rw_stream u then (case decode_usage cd (rw_body u) of Some x \<Rightarrow> x | None \<Rightarrow> rw_usage u) else rw_usage u)"
  have "recordUsage cd s ctx u w = (Inr (), w) \<or> (\<exists>t i out c. recordUsage cd s ctx u w =
      RecordUsageRetry s ctx ((rw_rec u)\<lparr>u_CreatedAt := t, u_InputTokens := i, u_OutputTokens := out, u_CachedTokens := c\<rparr>) w)"
    unfolding recordUsage_def Let_def v_def [symmetric] by (cases v) (auto simp: return_io_def bind_io_def read_io_def)
  then show ?thesis
  proof (elim disjE exE)
    fix t i out c
    let ?y = "(rw_rec u)\<lparr>u_CreatedAt := t, u_InputTokens := i, u_OutputTokens := out, u_CachedTokens := c\<rparr>"
    assume "recordUsage cd s ctx u w = RecordUsageRetry s ctx ?y w"
    then show ?thesis using assms by (intro disjI2 exI [of _ ?y]) (simp add: byok_usage_def)
  qed simp
qed

lemma ServeHTTP_any:
  assumes "ServeHTTP r ctx req w = (x, w')"
  shows "db w' = db w \<or> (\<exists>out m u (w1 :: world). x = Relayed out m \<and> byok_usage req u \<and> db w1 = db w \<and>
    db w' = db (snd (RecordUsageRetry (br_svc r) ctx u w1)))"
proof (cases "\<exists>out m. x = Relayed out m")
  case True
  then obtain out m where x: "x = Relayed out m" by blast
  with assms have "ServeHTTP r ctx req w = (Relayed out m, w')" by simp
  then show ?thesis
  proof (rule ServeHTTP_Relayed)
    fix provider rest base cred w1 target model stream body requestID w2
    let ?m = "new_meter requestID (header_get ''X-Auth-User'' (rq_Headers req)) provider model stream (rq_Flusher req)"
    let ?v = "fold (rw_call (br_codec r)) (br_upstream r out) ?m"
    assume a: "Get (br_stores r) (header_get ''X-Auth-User'' (rq_Headers req)) provider w = (Inr cred, w1)"
      "newRequestIDForRelay req w1 = (Inr requestID, w2)" and sp: "splitPath (rq_Path req) = (provider, rest)"
      and f: "finish (br_codec r) (br_svc r) ctx ?v w2 = (m, w')"
    have w2: "db w2 = db w"
      using a by (auto simp: newRequestIDForRelay_def Let_def return_io_def dest!: Get_any NewRequestID_any split: if_splits)
    have "rw_rec ?v = rw_rec ?m" by (simp add: fold_rw_call fold_capture_rec)
    then have "byok_usage req (rw_rec (?v\<lparr>rw_done := True\<rparr>))" using sp by (simp add: byok_usage_def new_meter_def)
    from recordUsage_run [OF this, of "br_codec r" "br_svc r" ctx w2] f
    have "w' = w2 \<or> (\<exists>y. byok_usage req y \<and> w' = snd (RecordUsageRetry (br_svc r) ctx y w2))"
      by (auto simp: finish_def Let_def split: if_splits)
    then show ?thesis using w2 x by auto
  qed
next
  case False
  then have "db w' = db w" using assms unfolding ServeHTTP_def Let_def newRequestIDForRelay_def return_io_def
    by (auto dest!: Get_any NewRequestID_any split: if_splits option.splits sum.splits prod.splits)
  then show ?thesis ..
qed

text \<open>C32: the client sees what the upstream sent. Whatever the meter captures, drops or fails to record, the writer of the client
  receives exactly the calls the proxy makes, with the same bytes and in the same order; only flushes are left out, and
  only for a writer that cannot flush.\<close>

theorem relay_passes_through:
  assumes "ServeHTTP r ctx req w = (Relayed out u, w')"
  shows "rw_calls u = filter (\<lambda>c. c \<noteq> CallFlush \<or> rq_Flusher req) (br_upstream r out)"
  using assms
proof (rule ServeHTTP_Relayed)
  fix provider rest base cred w1 target model stream body requestID w2
  assume f: "finish (br_codec r) (br_svc r) ctx (fold (rw_call (br_codec r)) (br_upstream r out)
       (new_meter requestID (header_get ''X-Auth-User'' (rq_Headers req)) provider model stream (rq_Flusher req))) w2 = (u, w')"
  have m: "rw_calls (new_meter q i prov md st fl) = []" "rw_flusher (new_meter q i prov md st fl) = fl" for q i prov md st fl
    by (simp_all add: new_meter_def)
  show ?thesis using f by (auto simp: finish_def Let_def fold_rw_call m handed_on_def split: if_splits)
qed

theorem relay_passes_through_witness:
  "\<exists>out u w'. ServeHTTP sample_relay (\<lambda>_. None) sample_request (sample_world stored_db) = (Relayed out u, w') \<and>
     rw_calls u = [CallWriteHeader 200, CallWrite ''dat'', CallFlush, CallWrite (''a: U'' @ [CHR 0x0A] @ ''da''), CallFlush,
       CallWrite (''ta: [DONE]'' @ [CHR 0x0A]), CallFlush]"
proof -
  obtain out u w' where run: "ServeHTTP sample_relay (\<lambda>_. None) sample_request (sample_world stored_db) = (Relayed out u, w')"
    using sample_run by blast
  then show ?thesis using relay_passes_through [OF run]
    by (simp add: sample_relay_def NewByokRelay_def sample_request_def sample_chunks_def)
qed

text \<open>C31: a call with the user's own key costs no credits. Whatever the request, the upstream and the faults, the relay changes
  no table but the usage log, and there it appends at most one row, only for a request it relayed and whose id is new: a
  row of the caller and the provider called, with billing mode \<open>byok\<close>, no credits and no cost. A request that is refused
  changes nothing.\<close>

theorem relay_never_charges:
  "case ServeHTTP r ctx req w of (x, w') \<Rightarrow>
     db w' = db w \<or>
     (\<exists>out u l. x = Relayed out u \<and> db w' = (db w)\<lparr>llm_usage := llm_usage (db w) @ [l]\<rparr> \<and>
        l_billing_mode l = billingModeByok \<and> l_credits_charged l = 0 \<and> l_actual_cost_microunits l = Some 0 \<and>
        l_user_id l = header_get ''X-Auth-User'' (rq_Headers req) \<and> l_provider l = fst (splitPath (rq_Path req)) \<and>
        l_request_id l \<notin> l_request_id ` set (llm_usage (db w)))"
proof -
  obtain x w' where run: "ServeHTTP r ctx req w = (x, w')" by fastforce
  show ?thesis using ServeHTTP_any [OF run]
  proof (elim disjE exE conjE)
    fix out m y and w1 :: world
    assume y: "x = Relayed out m" "byok_usage req y" "db w1 = db w" "db w' = db (snd (RecordUsageRetry (br_svc r) ctx y w1))"
    obtain z w2 where "usage_attempts (br_svc r) ctx y 3 w1 = (z, w2)" by fastforce
    from usage_attempts_run [OF this] this y(3,4) have "db w' = db w \<or> appended (br_svc r) y (db w) (db w')"
      by (auto simp: RecordUsageRetry_def)
    then show ?thesis
    proof
      assume "appended (br_svc r) y (db w) (db w')"
      then obtain lid t where "db w' = (db w)\<lparr>llm_usage := llm_usage (db w) @ [new_usage_row (br_svc r) y lid t]\<rparr>"
        "\<forall>x \<in> set (llm_usage (db w)). l_id x \<noteq> lid \<and> l_request_id x \<noteq> u_RequestID y" unfolding appended_def by blast
      then show ?thesis unfolding run prod.case
        using y(1,2) by (intro disjI2 exI [of _ out] exI [of _ m] exI [of _ "new_usage_row (br_svc r) y lid t"])
          (auto simp: byok_usage_def new_usage_row_def)
    qed (simp add: run)
  qed (simp add: run)
qed

theorem relay_never_charges_witness:
  "\<exists>out u w' l. ServeHTTP sample_relay (\<lambda>_. None) sample_request (sample_world stored_db) = (Relayed out u, w') \<and>
     db w' = stored_db\<lparr>llm_usage := [l]\<rparr> \<and> l_billing_mode l = billingModeByok \<and> l_credits_charged l = 0 \<and>
     l_user_id l = ''u1'' \<and> l_provider l = ''openai'' \<and> l_input_tokens l = 7"
proof -
  obtain out u w' l where run: "ServeHTTP sample_relay (\<lambda>_. None) sample_request (sample_world stored_db) = (Relayed out u, w')"
    and l: "llm_usage (db w') = [l]" "l_input_tokens l = 7" using sample_run by blast
  have e: "llm_usage stored_db = []" "header_get ''X-Auth-User'' (rq_Headers sample_request) = ''u1''"
    by (simp_all add: stored_db_def sample_request_def header_get_def)
  have sp: "fst (splitPath (rq_Path sample_request)) = ''openai''" by code_simp
  have "db w' \<noteq> stored_db" using l(1) e(1) by auto
  then obtain l' where "db w' = stored_db\<lparr>llm_usage := [l']\<rparr>" "l_billing_mode l' = billingModeByok" "l_credits_charged l' = 0"
    "l_user_id l' = ''u1''" "l_provider l' = ''openai''"
    using relay_never_charges [where r = sample_relay and ctx = "\<lambda>_. None" and req = sample_request and w = "sample_world stored_db", unfolded run prod.case sample_world_simps e sp]
    by auto
  then show ?thesis using run l by auto
qed

section \<open>Paths, forwards and back\<close>

lemma trim_slash_id: "s = [] \<or> hd s \<noteq> CHR ''/'' \<and> last s \<noteq> CHR ''/'' \<Longrightarrow> trim_slash s = s"
proof (cases "s = []")
  case False
  assume "s = [] \<or> hd s \<noteq> CHR ''/'' \<and> last s \<noteq> CHR ''/''"
  then have "dropWhile (\<lambda>c. c = CHR ''/'') s = s" "dropWhile (\<lambda>c. c = CHR ''/'') (rev s) = rev s"
    using False by (simp_all only: dropWhile_eq_self_iff hd_rev rev_is_Nil_conv) simp_all
  then show ?thesis by (simp add: trim_slash_def)
qed (simp add: trim_slash_def)

lemma suffix_single: "suffix [c] s \<longleftrightarrow> s \<noteq> [] \<and> last s = c"
proof
  show "s \<noteq> [] \<and> last s = c \<Longrightarrow> suffix [c] s" by (metis append_butlast_last_id suffixI)
qed (auto simp: suffix_def)

lemma trim_slash_Cons [simp]: "trim_slash (CHR ''/'' # s) = trim_slash s"
  by (simp add: trim_slash_def)

lemma splitN_segment:
  "CHR ''/'' \<notin> set a \<Longrightarrow> splitN (Suc (Suc n)) (a @ CHR ''/'' # s) = a # splitN (Suc n) s"
proof -
  assume "CHR ''/'' \<notin> set a"
  then have "takeWhile (\<lambda>c. c \<noteq> CHR ''/'') (a @ CHR ''/'' # s) = a" "dropWhile (\<lambda>c. c \<noteq> CHR ''/'') (a @ CHR ''/'' # s) = CHR ''/'' # s"
    by (induction a) auto
  then show ?thesis by simp
qed

text \<open>The relay's URL scheme can be read back: for a provider name without slashes and a path that does not end in one,
  \<open>splitPath\<close> of \<open>/api/byok/provider/path\<close> gives the provider and the path.\<close>

theorem splitPath_roundtrip:
  assumes "prov \<noteq> []" "CHR ''/'' \<notin> set prov" "rest \<noteq> []" "last rest \<noteq> CHR ''/''"
  shows "splitPath (''/api/byok/'' @ prov @ ''/'' @ rest) = (prov, rest)"
proof -
  have "trim_slash (''/api/byok/'' @ prov @ ''/'' @ rest) = ''api'' @ CHR ''/'' # ''byok'' @ CHR ''/'' # prov @ CHR ''/'' # rest"
    using assms by (simp add: trim_slash_id)
  moreover have "splitN 4 (''api'' @ CHR ''/'' # ''byok'' @ CHR ''/'' # prov @ CHR ''/'' # rest) = [''api'', ''byok'', prov, rest]"
    using splitN_segment [of "''api''" 2] splitN_segment [of "''byok''" 1] splitN_segment [OF assms(2), of 0 rest]
    by (simp add: numeral_eq_Suc)
  ultimately show ?thesis using assms(1) by (simp add: splitPath_def Let_def)
qed

theorem splitPath_roundtrip_witness:
  "splitPath ''/api/byok/openai/v1/chat/completions'' = (''openai'', ''v1/chat/completions'')"
  using splitPath_roundtrip [of "''openai''" "''v1/chat/completions''"] by simp

text \<open>Where the base path ends in the first segment of the request's path, \<open>outboundPath\<close> drops that segment but not
  the slash before it, so for every base with more than one segment the upstream is called with an empty path segment:
  a base \<open>/api/v1\<close> and a request for \<open>v1/chat\<close> give \<open>/api//v1/chat\<close>.\<close>

theorem outboundPath_doubles_slash:
  assumes "b \<noteq> []" "hd b \<noteq> CHR ''/''" "seg \<noteq> []" "CHR ''/'' \<notin> set seg" "rest \<noteq> []" "last rest \<noteq> CHR ''/''"
  shows "outboundPath (''/'' @ b @ ''/'' @ seg) (seg @ ''/'' @ rest) = ''/'' @ b @ ''//'' @ seg @ ''/'' @ rest"
proof -
  have ls: "last seg \<noteq> CHR ''/''" "hd seg \<noteq> CHR ''/''" using assms(3,4) by (metis last_in_set, metis hd_in_set)
  have "\<not> suffix ''/'' (''/'' @ b @ ''/'' @ seg)" "\<not> suffix ''/'' (b @ ''/'' @ seg)"
    using ls assms(3) by (simp_all add: suffix_single)
  then have base: "trim_slash (trim_suffix (''/'' @ b @ ''/'' @ seg) ''/'') = b @ ''/'' @ seg" "trim_suffix (b @ ''/'' @ seg) ''/'' = b @ ''/'' @ seg"
    using assms(1-3) ls by (simp_all add: trim_suffix_def trim_slash_id)
  have rest: "trim_slash (seg @ ''/'' @ rest) = seg @ ''/'' @ rest" using assms(3,5,6) ls by (simp add: trim_slash_id)
  have first: "splitN 2 (seg @ ''/'' @ rest) ! 0 = seg" using splitN_segment [OF assms(4), of 0 rest] by (simp add: numeral_eq_Suc)
  have "trim_suffix (b @ ''/'' @ seg) seg = b @ ''/''" "suffix seg (b @ ''/'' @ seg)" by (auto simp: trim_suffix_def suffix_def)
  then show ?thesis using assms(3) by (simp only: outboundPath_def Let_def base rest first) simp
qed

theorem outboundPath_doubles_slash_witness:
  "outboundPath ''/api/v1'' ''v1/chat/completions'' = ''/api//v1/chat/completions''"
  using outboundPath_doubles_slash [of "''api''" "''v1''" "''chat/completions''"] by simp

end
