(* ===== verification/Reversals.thy ===== *)
theory Reversals
  imports Payment_Runs
begin

text \<open>
  Reversals are cumulative: what a purchase has given back is always the largest share any of its applied refund and dispute
  events asks for. \<open>reversals_ok\<close> says so of a database; every \<open>log_step\<close> keeps it (\<open>log_step_reversals\<close>), because the service
  processes events with the content of their rows (\<open>logged\<close>).
\<close>

section \<open>The reversals a purchase has seen\<close>

definition is_reversal :: "string \<Rightarrow> event_row \<Rightarrow> bool" where
  "is_reversal pid r \<longleftrightarrow> e_purchase_id r = pid \<and> e_process_status r = ''applied'' \<and> e_status r \<noteq> ''paid''"

text \<open>The cumulative amounts of the applied reversals of a purchase, and the largest share of its credits they ask for.\<close>

definition returned_minor :: "event_row list \<Rightarrow> string \<Rightarrow> int set" where
  "returned_minor rs pid = e_reversed_minor ` {r \<in> set rs. is_reversal pid r}"

definition owed_back :: "event_row list \<Rightarrow> purchase_row \<Rightarrow> int" where
  "owed_back rs p = Max (insert 0 (reversal_target (p_credits p) (p_amount_minor p) ` returned_minor rs (p_id p)))"

definition reversals_ok :: "database \<Rightarrow> bool" where
  "reversals_ok d \<longleftrightarrow>
     (\<forall>p \<in> set (payment_purchases d). p_reversed_credits p = owed_back (payment_events d) p) \<and>
     (\<forall>r \<in> set (payment_events d). e_process_status r = ''applied'' \<longrightarrow> e_purchase_id r \<in> p_id ` set (payment_purchases d))"

definition rev_inv :: "database \<Rightarrow> bool" where
  "rev_inv d \<longleftrightarrow> pay_inv d \<and> reversals_ok d"

lemma owed_back_insert:
  assumes "returned_minor rs' (p_id p) = insert m (returned_minor rs (p_id p))"
  shows "owed_back rs' p = max (owed_back rs p) (reversal_target (p_credits p) (p_amount_minor p) m)"
proof -
  let ?f = "reversal_target (p_credits p) (p_amount_minor p)"
  have "insert 0 (?f ` insert m (returned_minor rs (p_id p))) = insert (?f m) (insert 0 (?f ` returned_minor rs (p_id p)))" by auto
  moreover have "finite (insert 0 (?f ` returned_minor rs (p_id p)))" by (simp add: returned_minor_def)
  ultimately show ?thesis unfolding owed_back_def assms by (simp only: Max_insert max.commute insert_not_empty not_False_eq_True)
qed

lemma owed_back_cong:
  "returned_minor rs' (p_id q) = returned_minor rs (p_id p) \<Longrightarrow> p_credits q = p_credits p \<Longrightarrow> p_amount_minor q = p_amount_minor p \<Longrightarrow>
   owed_back rs' q = owed_back rs p"
  by (simp add: owed_back_def)

lemma returned_minor_append: "e_process_status r \<noteq> ''applied'' \<Longrightarrow> returned_minor (rs @ [r]) pid = returned_minor rs pid"
  by (auto simp: returned_minor_def is_reversal_def)

section \<open>Steps on the log\<close>

text \<open>Bookkeeping on events that are not applied, before and after.\<close>

lemma returned_minor_bookkeeping:
  assumes "\<And>r. q r \<Longrightarrow> e_process_status r \<noteq> ''applied''" "\<And>r. e_process_status (g r) \<noteq> ''applied''"
  shows "returned_minor (update_where q g rs) pid = returned_minor rs pid"
proof -
  have "r \<in> set (update_where q g rs) \<and> is_reversal pid r \<longleftrightarrow> r \<in> set rs \<and> is_reversal pid r" for r
    using assms by (fastforce simp: set_update_where is_reversal_def)
  then show ?thesis by (simp add: returned_minor_def)
qed

lemma rev_inv_bookkeeping:
  assumes inv: "rev_inv d" and g: "\<And>r. same_fact r (g r)" "\<And>r. e_process_status (g r) \<noteq> ''applied''"
    and q: "\<And>r. q r \<Longrightarrow> e_process_status r \<noteq> ''applied''"
  shows "rev_inv (d\<lparr>payment_events := update_where q g (payment_events d)\<rparr>)"
proof -
  have "owed_back (update_where q g (payment_events d)) p = owed_back (payment_events d) p" for p
    using returned_minor_bookkeeping [OF q g(2)] by (intro owed_back_cong) simp_all
  moreover have "r \<in> set (payment_events d)" if "r \<in> set (update_where q g (payment_events d))" "e_process_status r = ''applied''" for r
    using that g(2) by (auto simp: set_update_where split: if_splits)
  ultimately have "reversals_ok (d\<lparr>payment_events := update_where q g (payment_events d)\<rparr>)"
    using inv by (simp add: rev_inv_def reversals_ok_def del: update_where_def)
  then show ?thesis using inv pay_inv_bookkeeping [OF _ g(1) q] by (simp add: rev_inv_def)
qed

lemma rev_inv_put_off: "rev_inv d \<Longrightarrow> put_off e d d' \<Longrightarrow> rev_inv d'"
  unfolding put_off_def by (auto intro!: rev_inv_bookkeeping simp: waiting_def)

text \<open>The event a worker processes is one of the log, with the content of its row.\<close>

definition logged :: "Event \<Rightarrow> database \<Rightarrow> bool" where
  "logged e d \<longleftrightarrow> (\<exists>r \<in> set (payment_events d). is_event e r \<and> e_purchase_id r = ev_PurchaseID e \<and> e_payment_id r = ev_PaymentID e \<and>
     e_status r = ev_Status e \<and> e_reversed_minor r = ev_ReversedMinor e)"

lemma logged_update:
  assumes "logged e d" "\<And>r. same_fact r (g r)" "payment_events d' = update_where q g (payment_events d)"
  shows "logged e d'"
proof -
  from assms(1) obtain r where r: "r \<in> set (payment_events d)" "is_event e r" "e_purchase_id r = ev_PurchaseID e"
    "e_payment_id r = ev_PaymentID e" "e_status r = ev_Status e" "e_reversed_minor r = ev_ReversedMinor e" unfolding logged_def by blast
  show ?thesis unfolding logged_def assms(3)
    by (rule bexI [of _ "if q r then g r else r"])
      (use r assms(2) [of r] in \<open>auto simp: set_update_where same_fact_def is_event_def\<close>)
qed

lemma same_fact_written: "same_fact r ((applied_row ts \<circ> claim_row ts) r)"
  using same_fact_trans [OF same_fact_rows(1,3)] by simp

lemma logged_processed:
  assumes "logged e d" "put_off e' d d' \<or> fulfilled e' ts d d'"
  shows "logged e d'"
proof (cases "d' = d")
  case False
  from assms(2) show ?thesis
  proof
    assume "put_off e' d d'"
    then obtain g where g: "\<forall>r. same_fact r (g r) \<and> e_process_status (g r) \<noteq> ''applied''"
      "d' = d\<lparr>payment_events := update_where (\<lambda>r. is_event e' r \<and> waiting r) g (payment_events d)\<rparr>"
      using False unfolding put_off_def by blast
    then show ?thesis by (intro logged_update [OF assms(1), of g]) simp_all
  next
    assume "fulfilled e' ts d d'"
    then obtain d1 ps where "d' = d1\<lparr>payment_purchases := ps,
        payment_events := update_where (\<lambda>r. is_event e' r \<and> waiting r) (applied_row ts \<circ> claim_row ts) (payment_events d)\<rparr>"
      unfolding fulfilled_def by blast
    then show ?thesis
      by (intro logged_update [OF assms(1), of "applied_row ts \<circ> claim_row ts" _ "\<lambda>r. is_event e' r \<and> waiting r"] same_fact_written) simp
  qed
qed (use assms(1) in simp)

lemma pending_logged: "e \<in> set (pending_events limit d) \<Longrightarrow> logged e d"
  unfolding pending_events_def logged_def by (auto simp: event_of_row_def is_event_def dest!: in_set_takeD)

section \<open>Applying an event\<close>

lemma image_if: "(\<lambda>r. if q r then g r else r) ` S = g ` {x \<in> S. q x} \<union> {x \<in> S. \<not> q x}"
  by auto

lemma returned_minor_applied:
  assumes wf: "events_wf d" and r: "r \<in> set (payment_events d)" "is_event e r" "waiting r"
    and f: "e_purchase_id r = ev_PurchaseID e" "e_status r = ev_Status e" "e_reversed_minor r = ev_ReversedMinor e"
  shows "returned_minor (update_where (\<lambda>r. is_event e r \<and> waiting r) (applied_row ts \<circ> claim_row ts) (payment_events d)) pid =
    (if pid = ev_PurchaseID e \<and> ev_Status e \<noteq> ''paid'' then insert (ev_ReversedMinor e) (returned_minor (payment_events d) pid)
     else returned_minor (payment_events d) pid)"
proof -
  let ?g = "applied_row ts \<circ> claim_row ts" and ?q = "\<lambda>r. is_event e r \<and> waiting r"
  have only: "x = r" if "x \<in> set (payment_events d)" "?q x" for x
    using events_wf_same [OF wf that(1) r(1), of e] that(2) r(2) by simp
  have old: "is_reversal pid x \<Longrightarrow> \<not> ?q x" for x by (auto simp: is_reversal_def waiting_def)
  have new: "is_reversal pid (?g r) \<longleftrightarrow> pid = ev_PurchaseID e \<and> ev_Status e \<noteq> ''paid''" "e_reversed_minor (?g r) = ev_ReversedMinor e"
    by (auto simp: is_reversal_def applied_row_def claim_row_def f)
  have "set (update_where ?q ?g (payment_events d)) = ?g ` {x \<in> set (payment_events d). ?q x} \<union> {x \<in> set (payment_events d). \<not> ?q x}"
    unfolding set_update_where by (rule image_if)
  also have "{x \<in> set (payment_events d). ?q x} = {r}" using only r by blast
  finally have "set (update_where ?q ?g (payment_events d)) = {?g r} \<union> {x \<in> set (payment_events d). \<not> ?q x}"
    by (simp only: image_insert image_empty)
  then have "{x \<in> set (update_where ?q ?g (payment_events d)). is_reversal pid x} =
      {x \<in> {?g r}. is_reversal pid x} \<union> {x \<in> set (payment_events d). is_reversal pid x}"
    using old by blast
  then show ?thesis using new unfolding returned_minor_def by (auto simp: image_Un)
qed

lemma reversed_after:
  assumes "purchase_ok d p"
  shows "p_reversed_credits (purchase_update e ts p p) = (if ev_Status e = ''paid'' then p_reversed_credits p
     else max (p_reversed_credits p) (reversal_target (p_credits p) (p_amount_minor p) (ev_ReversedMinor e)))"
proof -
  let ?t = "reversal_target (p_credits p) (p_amount_minor p) (ev_ReversedMinor e)"
  have ok: "small_price (p_credits p) (p_amount_minor p)" "0 \<le> p_reversed_credits p" "p_reversed_credits p \<le> p_credits p"
    using assms by (simp_all add: purchase_ok_def)
  have "reversal_amount (purchase_of_row p) e = ?t - p_reversed_credits p"
    using reversal_amount_eq [of "purchase_of_row p" e] ok by (simp add: purchase_fields)
  moreover have "0 < ?t \<and> ?t \<le> p_credits p" "p_credits p \<le> max_int64"
    using reversal_target_bounds small_priceD [OF ok(1)] by auto
  then have "wrap64 (p_reversed_credits p + max (?t - p_reversed_credits p) 0) = max (p_reversed_credits p) ?t"
    using ok by (subst wrap64_id) (auto simp: in64_def max_int64_def)
  ultimately show ?thesis by simp
qed

lemma rev_inv_fulfilled:
  assumes inv: "rev_inv d" and e: "ev_PaymentID e \<noteq> []" "logged e d" and f: "fulfilled e ts d d'"
  shows "rev_inv d'"
proof -
  from f obtain p d1 r where p: "p \<in> set (payment_purchases d)" "p_id p = ev_PurchaseID e"
    and r: "r \<in> set (payment_events d)" "is_event e r" "waiting r"
    and d': "d' = d1\<lparr>payment_purchases := update_where (\<lambda>x. p_id x = ev_PurchaseID e) (purchase_update e ts p) (payment_purchases d),
                payment_events := update_where (\<lambda>r. is_event e r \<and> waiting r) (applied_row ts \<circ> claim_row ts) (payment_events d)\<rparr>"
    unfolding fulfilled_def by blast
  let ?es = "update_where (\<lambda>r. is_event e r \<and> waiting r) (applied_row ts \<circ> claim_row ts) (payment_events d)"
  have pi: "pay_inv d" and ro: "reversals_ok d" using inv by (simp_all add: rev_inv_def)
  have wf: "events_wf d" and ids: "distinct (map p_id (payment_purchases d))" and ok: "purchase_ok d p"
    using pi p(1) by (auto simp: pay_inv_defs)
  from e(2) obtain r' where "r' \<in> set (payment_events d)" "is_event e r'" "e_purchase_id r' = ev_PurchaseID e"
    "e_status r' = ev_Status e" "e_reversed_minor r' = ev_ReversedMinor e" unfolding logged_def by blast
  then have facts: "e_purchase_id r = ev_PurchaseID e" "e_status r = ev_Status e" "e_reversed_minor r = ev_ReversedMinor e"
    using events_wf_same [OF wf r(1), of r' e] r(2) by auto
  note ret = returned_minor_applied [OF wf r facts]
  have own: "p_reversed_credits (purchase_update e ts p p) = owed_back ?es (purchase_update e ts p p)"
    using reversed_after [OF ok, of e ts] ro p ret [of ts "p_id p"] owed_back_insert [of ?es p "ev_ReversedMinor e" "payment_events d"]
    by (auto simp: reversals_ok_def owed_back_def)
  have other: "p_reversed_credits q = owed_back ?es q" if "q \<in> set (payment_purchases d)" "p_id q \<noteq> ev_PurchaseID e" for q
    using ro that ret [of ts "p_id q"] by (simp add: reversals_ok_def owed_back_def)
  have "p_reversed_credits q = owed_back ?es q" if "q \<in> set (payment_purchases d')" for q
  proof -
    from that obtain x where x: "x \<in> set (payment_purchases d)" "q = (if p_id x = ev_PurchaseID e then purchase_update e ts p x else x)"
      by (auto simp: d' set_update_where)
    moreover have "x = p" if "p_id x = ev_PurchaseID e" using key_inj [OF ids x(1) p(1)] p(2) that by simp
    ultimately show ?thesis using own other by auto
  qed
  moreover have "e_purchase_id y \<in> p_id ` set (payment_purchases d')" if y: "y \<in> set ?es" "e_process_status y = ''applied''" for y
  proof -
    have "map p_id (payment_purchases d') = map p_id (payment_purchases d)" by (simp add: d' map_update_where)
    then have same: "p_id ` set (payment_purchases d') = p_id ` set (payment_purchases d)" by (metis set_map)
    from y(1) obtain x where x: "x \<in> set (payment_events d)" "y = (if is_event e x \<and> waiting x then (applied_row ts \<circ> claim_row ts) x else x)"
      by (auto simp: set_update_where)
    show ?thesis
    proof (cases "is_event e x \<and> waiting x")
      case True
      then have "x = r" using events_wf_same [OF wf x(1) r(1), of e] r(2) by simp
      then have "e_purchase_id y = ev_PurchaseID e" using facts(1) x(2) True same_fact_written [of r ts] by (simp add: same_fact_def)
      then show ?thesis using p same by force
    next
      case False
      then show ?thesis using x y(2) ro same by (auto simp: reversals_ok_def)
    qed
  qed
  ultimately show ?thesis using pay_inv_fulfilled [OF pi e(1) f] by (simp add: rev_inv_def reversals_ok_def d')
qed

section \<open>Every step keeps the reversals cumulative\<close>

lemma processOne_reversals:
  assumes cs: "ps_ledger s = CreditsService" and inv: "rev_inv (db w)" and e: "ev_PaymentID e \<noteq> []" "logged e (db w)"
    and run: "processOne s e w = (x, w')"
  shows "rev_inv (db w')" and "logged e' (db w) \<Longrightarrow> logged e' (db w')"
proof -
  have "events_wf (db w)" using inv by (simp add: rev_inv_def pay_inv_defs)
  from processOne_effect [OF cs this run] have eff: "put_off e (db w) (db w') \<or> fulfilled e (pnow w) (db w) (db w')" by blast
  then show "rev_inv (db w')" using rev_inv_put_off [OF inv] rev_inv_fulfilled [OF inv e] by blast
  show "logged e' (db w) \<Longrightarrow> logged e' (db w')" using logged_processed eff by blast
qed

lemma process_events_reversals:
  assumes cs: "ps_ledger s = CreditsService" and "rev_inv (db w)" "\<forall>e \<in> set es. ev_PaymentID e \<noteq> [] \<and> logged e (db w)"
  shows "rev_inv (db (snd (process_events s es w)))"
  using assms(2,3)
proof (induction es arbitrary: w)
  case (Cons e es)
  obtain x w1 where run: "processOne s e w = (x, w1)" by fastforce
  have "rev_inv (db w1)" "\<forall>e' \<in> set es. ev_PaymentID e' \<noteq> [] \<and> logged e' (db w1)"
    using processOne_reversals [OF cs Cons.prems(1) _ _ run] Cons.prems(2) by simp_all
  then show ?case using Cons.IH run by (cases x) (simp_all add: bind_io_def)
qed (simp add: return_io_def)

lemma ProcessPending_reversals:
  assumes "ps_ledger s = CreditsService"
  shows "preserves rev_inv (ProcessPending s limit)"
  unfolding preserves_def
proof (intro allI impI)
  fix w :: world
  assume inv: "rev_inv (db w)"
  let ?q = "query (\<lambda>d. Inr (pending_events (if limit \<le> 0 then 100 else limit) d))"
  obtain n w1 where c: "stmt (update_events (lease_expired (pnow w)) expire_lease) w = (n, w1)" by fastforce
  obtain l w2 where q: "?q w1 = (l, w2)" by fastforce
  have inv1: "rev_inv (db w1)"
  proof (cases n)
    case (Inr k)
    then have "db w1 = (db w)\<lparr>payment_events := update_where (lease_expired (pnow w)) expire_lease (payment_events (db w))\<rparr>"
      using c by (auto simp: stmt_Inr update_events_def)
    then show ?thesis using inv
      by (simp only:) (rule rev_inv_bookkeeping, simp_all add: same_fact_rows lease_expired_def, simp add: expire_lease_def)
  qed (use c inv stmt_Inl in metis)
  moreover have d2: "db w2 = db w1" using query_any [OF q] by simp
  moreover have "rev_inv (db (snd (process_events s es w2)))" if "l = Inr es" for es
  proof -
    have "es = pending_events (if limit \<le> 0 then 100 else limit) (db w1)" using q that by (simp add: query_Inr)
    then have "\<forall>e \<in> set es. ev_PaymentID e \<noteq> [] \<and> logged e (db w2)"
      using pending_events_ids pending_logged inv1 d2 by (auto simp: rev_inv_def)
    then show ?thesis using process_events_reversals [OF assms, of w2 es] inv1 d2 by simp
  qed
  ultimately show "rev_inv (db (snd (ProcessPending s limit w)))"
    using c q by (cases n; cases l) (simp_all add: ProcessPending_def bind_io_def read_io_def)
qed

lemma insert_event_reversals:
  assumes "rev_inv d" "insert_event (new_event_row e ts) d = Inr (n, d')" "ev_PaymentID e \<noteq> []" "plain (ev_Provider e)"
  shows "rev_inv d'"
proof -
  have st: "e_process_status (new_event_row e ts) \<noteq> ''applied''" by (simp add: new_event_row_def)
  have "d' = d \<or> d' = d\<lparr>payment_events := payment_events d @ [new_event_row e ts]\<rparr>"
    using assms(2) by (auto simp: insert_event_def split: if_splits)
  then have "reversals_ok d'" using assms(1) st
    by (auto simp: rev_inv_def reversals_ok_def owed_back_def returned_minor_append)
  then show ?thesis using insert_event_inv [OF _ assms(2-4)] assms(1) by (simp add: rev_inv_def)
qed

lemma Receive_reversals:
  assumes "ps_ledger s = CreditsService" "plain (ev_Provider e)"
  shows "preserves rev_inv (Receive s e)"
proof (cases "ev_PaymentID e = []")
  case True
  then show ?thesis by (simp add: Receive_def pres_intros)
next
  case False
  have "preserves rev_inv (stmt (insert_event (new_event_row e ts)))" for ts
    by (rule preserves_stmt) (rule insert_event_reversals [OF _ _ False assms(2)])
  then show ?thesis unfolding Receive_def
    by (intro pres_intros ProcessPending_reversals assms(1))
qed

lemma insert_purchase_reversals:
  assumes inv: "rev_inv d" and ins: "insert_purchase p d = Inr (n, d')"
    and p: "small_price (p_credits p) (p_amount_minor p)" "p_fulfilled_at p = None" "p_reversed_credits p = 0"
  shows "rev_inv d'"
proof -
  from ins have d': "d' = d\<lparr>payment_purchases := payment_purchases d @ [p]\<rparr>"
    and new: "p_id p \<notin> p_id ` set (payment_purchases d)"
    by (auto simp: insert_purchase_def list_ex_iff split: if_splits)
  have "\<forall>r \<in> set (payment_events d). e_process_status r = ''applied'' \<longrightarrow> e_purchase_id r \<noteq> p_id p"
    using inv new unfolding rev_inv_def reversals_ok_def by metis
  then have "returned_minor (payment_events d) (p_id p) = {}" by (auto simp: returned_minor_def is_reversal_def)
  then have "reversals_ok d'" using inv p(3) by (auto simp: d' rev_inv_def reversals_ok_def owed_back_def)
  then show ?thesis using insert_purchase_inv [OF _ ins p] inv by (simp add: rev_inv_def)
qed

lemma CreatePurchase_reversals:
  assumes "small_catalog s"
  shows "preserves rev_inv (CreatePurchase s provider userID sku)"
proof (cases "CatalogItemOf s sku")
  case None
  then show ?thesis by (simp add: CreatePurchase_def pres_intros)
next
  case (Some item)
  then have "small_price (ci_Credits item) (ci_AmountMinor item)"
    using assms by (auto simp: small_catalog_def CatalogItemOf_def list_all_iff dest!: map_of_SomeD)
  moreover have "preserves rev_inv NewRequestID"
    by (simp add: preserves_def NewRequestID_def newID_def)
  ultimately show ?thesis
    by (auto simp: CreatePurchase_def Some intro!: pres_intros preserves_stmt dest: insert_purchase_reversals)
qed

lemma foreign_reversals: "rev_inv d \<Longrightarrow> foreign d d' \<Longrightarrow> rev_inv d'"
  using pay_inv_foreign [of d d'] by (simp add: rev_inv_def reversals_ok_def foreign_def)

lemma log_step_reversals:
  assumes "ps_ledger s = CreditsService" "small_catalog s" "log_step s d d'" "rev_inv d"
  shows "rev_inv d'"
  using assms(3,4)
  by (induction rule: log_step.induct)
    (auto intro: preservesD [OF CreatePurchase_reversals [OF assms(2)]] preservesD [OF Receive_reversals [OF assms(1)]]
      preservesD [OF ProcessPending_reversals [OF assms(1)]] foreign_reversals)

lemma log_steps_reversals:
  assumes "ps_ledger s = CreditsService" "small_catalog s" "(log_step s)\<^sup>*\<^sup>* d d'" "rev_inv d"
  shows "rev_inv d'"
  using assms(3,4) by (induction rule: rtranclp_induct) (auto intro: log_step_reversals [OF assms(1,2)])

lemma rev_inv_empty: "rev_inv empty_db"
  by (simp add: rev_inv_def reversals_ok_def pay_inv_empty)

end
