(* ===== verification/Whole_System.thy ===== *)
theory Whole_System
  imports Credits_System Worker Webhooks Byok_Relay Reversals
begin

text \<open>
  The program as a whole: one database, on which the credits service, the payment service, its worker, the Stripe webhooks, the
  credential store and the relay act side by side. \<open>system_step\<close> is one public operation of any of them, in an arbitrary
  world (any faults, clocks, random bytes); \<open>system_reachable\<close> are the databases such steps produce from the empty schema.

  Every step is a run of the payment service's own transition system (\<open>system_step_runs\<close>), because the steps of the other
  components are \<open>foreign\<close> to it, which gives the facts that span the components: a balance is explained down to the
  purchases behind it, what a purchase has given back is what its reversals ask for, and no component rewrites history.
\<close>

section \<open>The credits service seen from the payment service\<close>

text \<open>What a client that is not the payment service may write: no key and no reason of that package.\<close>

definition outside :: "string option \<Rightarrow> (string \<times> string) list option \<Rightarrow> bool" where
  "outside k m \<longleftrightarrow>
     (case k of None \<Rightarrow> True | Some x \<Rightarrow> \<not> prefix ''payment:'' x \<and> \<not> prefix ''reversal:'' x) \<and>
     (case m of Some [(_, rsn)] \<Rightarrow> \<not> prefix ''purchase '' rsn \<and> \<not> prefix ''reversal '' rsn | _ \<Rightarrow> True)"

lemma outside_foreign: "outside (t_idempotency_key t) (t_metadata t) \<longleftrightarrow> foreign_row t"
  unfolding outside_def foreign_row_def ..

definition appends :: "database \<Rightarrow> database \<Rightarrow> bool" where
  "appends d d' \<longleftrightarrow>
     payment_purchases d' = payment_purchases d \<and> payment_events d' = payment_events d \<and>
     (\<exists>ts. credit_transactions d' = credit_transactions d @ ts \<and> list_all foreign_row ts)"

lemma appends_refl: "appends d d"
  by (simp add: appends_def)

lemma appends_same:
  "appends d0 d \<Longrightarrow> payment_purchases d' = payment_purchases d \<Longrightarrow> payment_events d' = payment_events d \<Longrightarrow>
   credit_transactions d' = credit_transactions d \<Longrightarrow> appends d0 d'"
  by (simp add: appends_def)

lemma appends_row: "appends d0 d \<Longrightarrow> foreign_row t \<Longrightarrow> appends d0 (d\<lparr>credit_transactions := credit_transactions d @ [t]\<rparr>)"
  unfolding appends_def by force

interpretation client: table_law_on "appends d0" outside for d0
proof
  fix d d' n
  assume h: "appends d0 d"
  show "appends d0 d'" if "outside (t_idempotency_key t) (t_metadata t)" "insert_ledger t d = Inr (n, d')" for t
    using that h by (auto simp: insert_ledger_Inr outside_foreign intro: appends_row)
  show "appends d0 d'" if "upsert_account u a ts d = Inr (n, d')" for u a ts
    using upsert_account_Inr [OF that] by (intro appends_same [OF h]) simp_all
  show "appends d0 d'" if "bump_account u a ts d = Inr (n, d')" for u a ts
    using that by (intro appends_same [OF h]) (auto simp: bump_account_def)
  show "appends d0 d'" if "debit_account u a ts d = Inr (n, d')" for u a ts
    using that by (intro appends_same [OF h]) (auto simp: debit_account_def Let_def)
  show "appends d0 d'" if "insert_reservation r d = Inr (n, d')" for r
    using that by (intro appends_same [OF h]) (auto simp: insert_reservation_Inr)
  show "appends d0 d'" if "close_reservation c rel st ts rid d = Inr (n, d')" for c rel st ts rid
    using that by (intro appends_same [OF h]) (auto simp: close_reservation_def Let_def)
  show "appends d0 d'" if "expire_reservation rid ts d = Inr (n, d')" for rid ts
    using that by (intro appends_same [OF h]) (auto simp: expire_reservation_def Let_def)
  show "appends d0 d'" if "insert_usage l d = Inr (n, d')" for l
    using that by (intro appends_same [OF h]) (auto simp: insert_usage_Inr)
  show "appends d0 d'" if "upsert_subscription u plan st ts d = Inr (n, d')" for u plan st ts
    using that by (intro appends_same [OF h]) (auto simp: upsert_subscription_def)
  show "appends d0 d'" if "insert_outbox ob d = Inr (n, d')" for ob
    using that by (intro appends_same [OF h]) (auto simp: insert_outbox_def split: if_splits)
  show "appends d0 d'" if "update_outbox f q d = Inr (n, d')" for f q
    using that by (intro appends_same [OF h]) (auto simp: update_outbox_def)
qed (simp_all add: outside_def monthlyGrantKey_def)

lemma client_step_foreign:
  assumes "client_step outside d d'" "credits_inv d"
  shows "foreign d d'"
  using client.step_law [OF assms(1) appends_refl] client_step_inv [OF assms] by (simp add: appends_def foreign_def)

lemma client_step_any: "client_step own d d' \<Longrightarrow> credit_step d d'"
  by (induction rule: client_step.induct) (auto intro: client_step.intros)

section \<open>The transition system\<close>

inductive system_step :: "StripeLib \<Rightarrow> Adapter \<Rightarrow> database \<Rightarrow> database \<Rightarrow> bool" for L a where
  credits: "client_step outside d d' \<Longrightarrow> system_step L a d d'"
| purchase: "system_step L a (db w) (db (snd (CreatePurchase (ad_payments a) provider userID sku w)))"
| receive: "plain (ev_Provider e) \<Longrightarrow> system_step L a (db w) (db (snd (Receive (ad_payments a) e w)))"
| process: "system_step L a (db w) (db (snd (ProcessPending (ad_payments a) limit w)))"
| worker: "wk_svc wk = ad_payments a \<Longrightarrow> system_step L a d (snd (snd (Run wk ticks backoff dead d)))"
| apply_sub: "system_step L a (db w) (db (snd (ApplySubscription sub w)))"
| grant_period: "system_step L a (db w) (db (snd (GrantSubscriptionPeriod (ad_payments a) prov sid iid userID n start w)))"
| checkout: "system_step L a (db w) (db (snd (CreateCheckout L a userID sku w)))"
| webhook: "system_step L a (db w) (db (snd (HandleWebhook L a hook w)))"
| put_key: "system_step L a (db w) (db (snd (Put store userID provider cred (w :: world))))"
| delete_key: "system_step L a (db w) (db (snd (Delete store userID provider (w :: world))))"
| relay: "system_step L a (db w) (db (snd (ServeHTTP rel ctx req w)))"

inductive system_reachable :: "StripeLib \<Rightarrow> Adapter \<Rightarrow> database \<Rightarrow> bool" for L a where
  init: "system_reachable L a empty_db"
| step: "system_reachable L a d \<Longrightarrow> system_step L a d d' \<Longrightarrow> system_reachable L a d'"

section \<open>Laws of all tables\<close>

text \<open>The statements of the payment service and of the credential store, beside those of the credits service.\<close>

locale system_law = table_law I for I +
  assumes purchase_law: "I d \<Longrightarrow> p_payment_id p = None \<Longrightarrow> insert_purchase p d = Inr (n, d') \<Longrightarrow> I d'"
    and update_purchase_law: "I d \<Longrightarrow> (\<And>p. p_id (f p) = p_id p \<and> p_provider (f p) = p_provider p) \<Longrightarrow>
      update_purchase f pid d = Inr (n, d') \<Longrightarrow> I d'"
    and event_law: "I d \<Longrightarrow> insert_event r d = Inr (n, d') \<Longrightarrow> I d'"
    and update_events_law: "I d \<Longrightarrow> (\<And>r. same_fact r (g r)) \<Longrightarrow> update_events q g d = Inr (n, d') \<Longrightarrow> I d'"
    and psub_law: "I d \<Longrightarrow> upsert_psub x d = Inr (n, d') \<Longrightarrow> I d'"
    and cred_law: "I d \<Longrightarrow> upsert_cred k d = Inr (n, d') \<Longrightarrow> I d'"
    and delete_law: "I d \<Longrightarrow> delete_cred u pv d = Inr (n, d') \<Longrightarrow> I d'"
begin

lemma pay_stmts:
  "p_payment_id p = None \<Longrightarrow> preserves I (stmt (insert_purchase p))" "preserves I (stmt (insert_event r))"
  "preserves I (stmt (upsert_psub x))" "preserves I (stmt (upsert_cred k))" "preserves I (stmt (delete_cred u pv))"
  by (rule preserves_stmt, blast intro: purchase_law event_law psub_law cred_law delete_law)+

lemma pay_updates:
  "(\<And>p. p_id (f p) = p_id p \<and> p_provider (f p) = p_provider p) \<Longrightarrow> preserves I (stmt (update_purchase f pid))"
  "(\<And>r. same_fact r (g r)) \<Longrightarrow> preserves I (stmt (update_events q g))"
  by (rule preserves_stmt, blast intro: update_purchase_law update_events_law)+

lemma NewRequestID_law: "preserves I NewRequestID"
  by (simp add: preserves_def NewRequestID_def newID_def)

lemma CreatePurchase_law: "preserves I (CreatePurchase s provider userID sku)"
  unfolding CreatePurchase_def Let_def by (intro pres_intros NewRequestID_law pay_stmts) simp

lemma fail_law: "preserves I (fail e cause)" "preserves I (fail_locked e cause)"
  unfolding fail_def fail_locked_def by (intro pres_intros pay_updates same_fact_rows preserves_stmt; simp)+

lemma ignore_duplicate_law: "preserves I m \<Longrightarrow> preserves I (ignore_duplicate m)"
  unfolding ignore_duplicate_def by (intro pres_intros)

lemma adjustTx_law: "preserves I (adjustTx u n src rsn k typ)"
  unfolding adjustTx_def adjust_body_def by (intro pres_intros stmts ledger_stmt TrueI)

lemma book_event_law: "preserves I (book_event GrantTx RefundTx e p)"
  unfolding book_event_def Let_def GrantTx_def RefundTx_def by (intro pres_intros ignore_duplicate_law adjustTx_law)

lemma write_event_law: "preserves I (write_event e p ts)"
  unfolding write_event_def by (intro pres_intros pay_updates same_fact_rows) (simp_all add: paid_row_def reversed_row_def)

lemma finish_event_law: "preserves I (finish_event e r)"
  unfolding finish_event_def by (cases r; simp split: applied.splits add: pres_intros fail_law)

lemma processOne_law:
  assumes "ps_ledger s = CreditsService"
  shows "preserves I (processOne s e)"
  unfolding processOne_def PurchaseOf_def process_tx_def write_tx_def assms LedgerImpl.case
  by (intro pres_intros pay_updates same_fact_rows fail_law book_event_law write_event_law finish_event_law)

lemma process_events_law: "ps_ledger s = CreditsService \<Longrightarrow> preserves I (process_events s es)"
  by (induction es) (auto intro!: pres_intros processOne_law)

lemma ProcessPending_law: "ps_ledger s = CreditsService \<Longrightarrow> preserves I (ProcessPending s limit)"
  unfolding ProcessPending_def by (intro pres_intros pay_updates same_fact_rows process_events_law)

lemma Receive_law: "ps_ledger s = CreditsService \<Longrightarrow> preserves I (Receive s e)"
  unfolding Receive_def by (intro pres_intros pay_stmts ProcessPending_law)

lemma ApplySubscription_law: "preserves I (ApplySubscription e)"
  unfolding ApplySubscription_def by (intro pres_intros pay_stmts)

lemma GrantSubscriptionPeriod_law:
  "ps_ledger s = CreditsService \<Longrightarrow> preserves I (GrantSubscriptionPeriod s prov sid iid u n start)"
  unfolding GrantSubscriptionPeriod_def by simp (intro pres_intros conjI impI ignore_duplicate_law Grant_law TrueI)

lemma CreateCheckout_law: "preserves I (CreateCheckout L a u sku)"
  unfolding CreateCheckout_def StripePurchase_def Let_def by (intro pres_intros CreatePurchase_law)

lemma store_law: "preserves I (Put c u pv cred)" "preserves I (Delete c u pv)"
proof -
  have "preserves I (seal c cred aad)" for aad by (simp add: preserves_def seal_def Let_def)
  then show "preserves I (Put c u pv cred)" unfolding Put_def Let_def by (intro pres_intros pay_stmts)
  show "preserves I (Delete c u pv)" unfolding Delete_def by (intro pres_intros pay_stmts)
qed

lemma Run_law:
  assumes "ps_ledger (wk_svc wk) = CreditsService" "I d"
  shows "I (snd (snd (Run wk ticks backoff dead d)))"
  using assms(2)
proof (induction ticks arbitrary: backoff dead d)
  case (Cons t ts)
  let ?w = "(tk_world t)\<lparr>db := d\<rparr>"
  obtain x w where run: "ProcessPending (wk_svc wk) (wk_batchSize wk) ?w = (x, w)" by fastforce
  obtain es w' where dead: "checkDeadLetter wk w = (es, w')" by fastforce
  have "I (db w)" using preservesD [OF ProcessPending_law [OF assms(1)], of ?w "wk_batchSize wk"] Cons.prems run by simp
  moreover have "db w' = db w" using checkDeadLetter_db [OF dead] .
  ultimately show ?case using Cons.IH run dead by (cases x) simp_all
qed simp

lemma handleInvoiceEvent_law:
  assumes "ps_ledger (ad_payments a) = CreditsService" "I (db w)"
  shows "I (db (snd (handleInvoiceEvent L a evt w)))"
proof (cases rule: handleInvoiceEvent_cases [of L a evt w])
  case (failed e w1)
  then show ?thesis using preservesD [OF ApplySubscription_law, of w1 e] assms(2) by simp
next
  case (paid sid iid u n start w1)
  then show ?thesis
    using preservesD [OF GrantSubscriptionPeriod_law [OF assms(1)], of w1 "''stripe''" sid iid u n start] assms(2) by simp
qed (simp add: assms(2))

lemma HandleWebhook_law:
  assumes "ps_ledger (ad_payments a) = CreditsService" "I (db w)"
  shows "I (db (snd (HandleWebhook L a r w)))"
proof (cases "\<exists>body evt. verified L a r w body evt")
  case False
  then show ?thesis using HandleWebhook_unverified assms(2) by simp
next
  case True
  then obtain body evt where v: "verified L a r w body evt" by blast
  show ?thesis
    using assms preservesD [OF ApplySubscription_law] preservesD [OF Receive_law] handleInvoiceEvent_law
    by (simp add: HandleWebhook_verified [OF v] split: option.splits)
qed

lemma ServeHTTP_law:
  assumes "I (db w)"
  shows "I (db (snd (ServeHTTP rel ctx req w)))"
proof -
  have "I (db (snd (RecordUsageRetry s ctx u w1)))" if "db w1 = db w" for s u and w1 :: world
    using preservesD [OF RecordUsageRetry_law, of w1] that assms by simp
  moreover obtain x w' where run: "ServeHTTP rel ctx req w = (x, w')" by fastforce
  ultimately show ?thesis using ServeHTTP_any [OF run] run assms by auto
qed

lemma system_step_law:
  assumes "ps_ledger (ad_payments a) = CreditsService" "system_step L a d d'" "I d"
  shows "I d'"
  using assms(2,3)
proof (induction rule: system_step.induct)
  case (credits d d')
  then show ?case using step_law client_step_any by blast
next
  case (worker wk d ticks backoff dead)
  then show ?case using Run_law assms(1) by simp
qed (simp_all add: assms(1) preservesD [OF CreatePurchase_law] preservesD [OF Receive_law] preservesD [OF ProcessPending_law]
    preservesD [OF ApplySubscription_law] preservesD [OF GrantSubscriptionPeriod_law] preservesD [OF CreateCheckout_law]
    HandleWebhook_law preservesD [OF store_law(1)] preservesD [OF store_law(2)] ServeHTTP_law)

lemma system_steps_law:
  assumes "ps_ledger (ad_payments a) = CreditsService" "(system_step L a)\<^sup>*\<^sup>* d d'" "I d"
  shows "I d'"
  using assms(2,3) by (induction rule: rtranclp_induct) (auto intro: system_step_law [OF assms(1)])

end

text \<open>The history of the ledger and the reservations is such a law, and so are the keys of all tables.\<close>

lemma history_same:
  "history T R d \<Longrightarrow> credit_transactions d' = credit_transactions d \<Longrightarrow> credit_reservations d' = credit_reservations d \<Longrightarrow> history T R d'"
  by (simp add: history_def)

interpretation sys_hist: system_law "history T R" for T R
proof
  fix d d' n
  assume h: "history T R d"
  show "history T R d'" if "insert_purchase p d = Inr (n, d')" for p
    using that by (intro history_same [OF h]) (auto simp: insert_purchase_def split: if_splits)
  show "history T R d'" if "update_purchase f pid d = Inr (n, d')" for f pid
    using that by (intro history_same [OF h]) (auto simp: update_purchase_def split: if_splits)
  show "history T R d'" if "insert_event r d = Inr (n, d')" for r
    using that by (intro history_same [OF h]) (auto simp: insert_event_def split: if_splits)
  show "history T R d'" if "update_events q g d = Inr (n, d')" for q g
    using that by (intro history_same [OF h]) (auto simp: update_events_def)
  show "history T R d'" if "upsert_psub x d = Inr (n, d')" for x
    using that by (intro history_same [OF h]) (auto simp: upsert_psub_def Let_def split: if_splits)
  show "history T R d'" if "upsert_cred k d = Inr (n, d')" for k
    using that by (intro history_same [OF h]) (auto simp: upsert_cred_def Let_def)
  show "history T R d'" if "delete_cred u pv d = Inr (n, d')" for u pv
    using that by (intro history_same [OF h]) (auto simp: delete_cred_def)
qed

lemma schema_wf_same:
  "schema_wf d \<Longrightarrow> credit_accounts d' = credit_accounts d \<Longrightarrow> credit_transactions d' = credit_transactions d \<Longrightarrow>
   credit_reservations d' = credit_reservations d \<Longrightarrow> llm_usage d' = llm_usage d \<Longrightarrow> subscriptions d' = subscriptions d \<Longrightarrow>
   settlement_outbox d' = settlement_outbox d \<Longrightarrow> schema_wf d'"
  by (simp add: schema_wf_def ledger_wf_def usage_wf_def)

interpretation sys_wf: system_law schema_wf
proof
  fix d d' n
  assume h: "schema_wf d"
  show "schema_wf d'" if "insert_purchase p d = Inr (n, d')" for p
    using that by (intro schema_wf_same [OF h]) (auto simp: insert_purchase_def split: if_splits)
  show "schema_wf d'" if "update_purchase f pid d = Inr (n, d')" for f pid
    using that by (intro schema_wf_same [OF h]) (auto simp: update_purchase_def split: if_splits)
  show "schema_wf d'" if "insert_event r d = Inr (n, d')" for r
    using that by (intro schema_wf_same [OF h]) (auto simp: insert_event_def split: if_splits)
  show "schema_wf d'" if "update_events q g d = Inr (n, d')" for q g
    using that by (intro schema_wf_same [OF h]) (auto simp: update_events_def)
  show "schema_wf d'" if "upsert_psub x d = Inr (n, d')" for x
    using that by (intro schema_wf_same [OF h]) (auto simp: upsert_psub_def Let_def split: if_splits)
  show "schema_wf d'" if "upsert_cred k d = Inr (n, d')" for k
    using that by (intro schema_wf_same [OF h]) (auto simp: upsert_cred_def Let_def)
  show "schema_wf d'" if "delete_cred u pv d = Inr (n, d')" for u pv
    using that by (intro schema_wf_same [OF h]) (auto simp: delete_cred_def)
qed

text \<open>The keys and unique indexes of \<open>src/payments/schema.sql\<close> and of the credential table.\<close>

definition unique_payments :: "purchase_row list \<Rightarrow> bool" where
  "unique_payments ps \<longleftrightarrow>
     (\<forall>p \<in> set ps. \<forall>q \<in> set ps.
        p_provider p = p_provider q \<and> p_payment_id p = p_payment_id q \<and> p_payment_id p \<noteq> None \<longrightarrow> p_id p = p_id q)"

definition payment_wf :: "database \<Rightarrow> bool" where
  "payment_wf d \<longleftrightarrow>
     distinct (map p_id (payment_purchases d)) \<and> unique_payments (payment_purchases d) \<and>
     distinct (map (\<lambda>r. (e_provider r, e_event_id r)) (payment_events d)) \<and>
     distinct (map (\<lambda>q. (q_provider q, q_subscription_id q)) (payment_subscriptions d)) \<and>
     distinct (map (\<lambda>k. (k_user_id k, k_provider k)) (byok_credentials d))"

lemma payment_wf_same:
  "payment_wf d \<Longrightarrow> payment_purchases d' = payment_purchases d \<Longrightarrow> payment_events d' = payment_events d \<Longrightarrow>
   payment_subscriptions d' = payment_subscriptions d \<Longrightarrow> byok_credentials d' = byok_credentials d \<Longrightarrow> payment_wf d'"
  by (simp add: payment_wf_def)

lemma unique_payments_new:
  assumes "unique_payments ps" "p_payment_id p = None"
  shows "unique_payments (ps @ [p])"
proof -
  have "a \<in> set ps" if "a \<in> set (ps @ [p])" "p_payment_id a \<noteq> None" for a using that assms(2) by auto
  then show ?thesis using assms(1) unfolding unique_payments_def by metis
qed

lemma payment_wf_update:
  assumes wf: "payment_wf d" and f: "\<And>p. p_id (f p) = p_id p \<and> p_provider (f p) = p_provider p"
    and u: "update_purchase f pid d = Inr (n, d')"
  shows "payment_wf d'"
proof -
  let ?ps = "payment_purchases d" and ?qs = "update_where (\<lambda>p. p_id p = pid) f (payment_purchases d)"
  from u have d': "d' = d\<lparr>payment_purchases := ?qs\<rparr>" by (auto simp: update_purchase_def split: if_splits)
  from u have free: "\<And>p q. p \<in> set ?ps \<Longrightarrow> q \<in> set ?ps \<Longrightarrow> p_id p = pid \<Longrightarrow> p_id q \<noteq> pid \<Longrightarrow> p_provider q = p_provider p \<Longrightarrow>
      p_payment_id q \<noteq> None \<Longrightarrow> p_payment_id q \<noteq> p_payment_id (f p)"
    unfolding update_purchase_def list_ex_iff by (metis Inl_Inr_False)
  have "p_id p = p_id q" if p: "p \<in> set ?qs" and q: "q \<in> set ?qs"
    and same: "p_provider p = p_provider q" "p_payment_id p = p_payment_id q" "p_payment_id p \<noteq> None" for p q
  proof -
    from p q obtain x y where x: "x \<in> set ?ps" "p = (if p_id x = pid then f x else x)"
      and y: "y \<in> set ?ps" "q = (if p_id y = pid then f y else y)" by (auto simp: set_update_where)
    have ids: "p_id p = p_id x" "p_provider p = p_provider x" "p_id q = p_id y" "p_provider q = p_provider y"
      using x(2) y(2) f [of x] f [of y] by simp_all
    show ?thesis
    proof (rule ccontr)
      assume "p_id p \<noteq> p_id q"
      then consider "p_id x = pid" "p_id y \<noteq> pid" | "p_id y = pid" "p_id x \<noteq> pid" | "p_id x \<noteq> pid" "p_id y \<noteq> pid" "p_id x \<noteq> p_id y"
        using ids by metis
      then show False
      proof cases
        case 1
        then show False using free [OF x(1) y(1)] x(2) y(2) ids same by simp
      next
        case 2
        then show False using free [OF y(1) x(1)] x(2) y(2) ids same by simp
      next
        case 3
        then show False using wf x y same unfolding payment_wf_def unique_payments_def by metis
      qed
    qed
  qed
  then have "unique_payments ?qs" unfolding unique_payments_def by blast
  moreover have "map p_id ?qs = map p_id ?ps" using f by (intro map_update_where) simp
  ultimately show ?thesis using wf unfolding payment_wf_def d' by simp
qed

lemma payment_wf_psub:
  assumes wf: "payment_wf d" and u: "upsert_psub x d = Inr (n, d')"
  shows "payment_wf d'"
proof -
  let ?k = "\<lambda>q. (q_provider q, q_subscription_id q)"
  have "map ?k (update_where p (\<lambda>_. x) qs) = map ?k qs" if "\<And>q. p q \<Longrightarrow> ?k q = ?k x" for p qs
    using that by (induction qs) (auto simp: update_where_def)
  from this [of "\<lambda>y. (q_provider y = q_provider x \<and> q_subscription_id y = q_subscription_id x) \<and> q_last_event_created x > q_last_event_created y"]
  have "distinct (map ?k (payment_subscriptions d'))"
    using wf u by (fastforce simp: upsert_psub_def payment_wf_def list_ex_iff Let_def split: if_splits)
  then show ?thesis using wf u by (auto simp: upsert_psub_def payment_wf_def Let_def split: if_splits)
qed

interpretation sys_keys: system_law payment_wf
proof
  fix d d' n
  assume h: "payment_wf d"
  show "payment_wf d'" if "insert_ledger t d = Inr (n, d')" for t
    using that by (intro payment_wf_same [OF h]) (auto simp: insert_ledger_Inr)
  show "payment_wf d'" if "upsert_account u a ts d = Inr (n, d')" for u a ts
    using upsert_account_Inr [OF that] by (intro payment_wf_same [OF h]) simp_all
  show "payment_wf d'" if "bump_account u a ts d = Inr (n, d')" for u a ts
    using that by (intro payment_wf_same [OF h]) (auto simp: bump_account_def)
  show "payment_wf d'" if "debit_account u a ts d = Inr (n, d')" for u a ts
    using that by (intro payment_wf_same [OF h]) (auto simp: debit_account_def Let_def)
  show "payment_wf d'" if "insert_reservation r d = Inr (n, d')" for r
    using that by (intro payment_wf_same [OF h]) (auto simp: insert_reservation_Inr)
  show "payment_wf d'" if "close_reservation c rel st ts rid d = Inr (n, d')" for c rel st ts rid
    using that by (intro payment_wf_same [OF h]) (auto simp: close_reservation_def Let_def)
  show "payment_wf d'" if "expire_reservation rid ts d = Inr (n, d')" for rid ts
    using that by (intro payment_wf_same [OF h]) (auto simp: expire_reservation_def Let_def)
  show "payment_wf d'" if "insert_usage l d = Inr (n, d')" for l
    using that by (intro payment_wf_same [OF h]) (auto simp: insert_usage_Inr)
  show "payment_wf d'" if "upsert_subscription u plan st ts d = Inr (n, d')" for u plan st ts
    using that by (intro payment_wf_same [OF h]) (auto simp: upsert_subscription_def)
  show "payment_wf d'" if "insert_outbox ob d = Inr (n, d')" for ob
    using that by (intro payment_wf_same [OF h]) (auto simp: insert_outbox_def split: if_splits)
  show "payment_wf d'" if "update_outbox f q d = Inr (n, d')" for f q
    using that by (intro payment_wf_same [OF h]) (auto simp: update_outbox_def)
  show "payment_wf d'" if "p_payment_id p = None" "insert_purchase p d = Inr (n, d')" for p
    using h that unique_payments_new by (fastforce simp: insert_purchase_def payment_wf_def list_ex_iff split: if_splits)
  show "payment_wf d'" if f: "\<And>p. p_id (f p) = p_id p \<and> p_provider (f p) = p_provider p" and u: "update_purchase f pid d = Inr (n, d')"
    for f pid by (rule payment_wf_update [OF h f u])
  show "payment_wf d'" if "insert_event r d = Inr (n, d')" for r
    using h that by (fastforce simp: insert_event_def payment_wf_def list_ex_iff split: if_splits)
  show "payment_wf d'" if "\<And>r. same_fact r (g r)" "update_events q g d = Inr (n, d')" for q g
    using h that by (auto simp: update_events_def payment_wf_def map_update_where same_fact_def)
  show "payment_wf d'" if "upsert_psub x d = Inr (n, d')" for x by (rule payment_wf_psub [OF h that])
  show "payment_wf d'" if "upsert_cred k d = Inr (n, d')" for k
    using h that by (fastforce simp: upsert_cred_def payment_wf_def Let_def map_update_where is_cred_def list_ex_iff)
  show "payment_wf d'" if "delete_cred u pv d = Inr (n, d')" for u pv
    using h that by (auto simp: delete_cred_def payment_wf_def distinct_map_filter)
qed simp_all

section \<open>Every step is a run of the payment service\<close>

lemma Run_steps:
  assumes "wk_svc wk = s"
  shows "(log_step s)\<^sup>*\<^sup>* d (snd (snd (Run wk ticks backoff dead d)))"
proof (induction ticks arbitrary: backoff dead d)
  case (Cons t ts)
  let ?w = "(tk_world t)\<lparr>db := d\<rparr>"
  obtain x w where run: "ProcessPending s (wk_batchSize wk) ?w = (x, w)" by fastforce
  obtain es w' where dead: "checkDeadLetter wk w = (es, w')" by fastforce
  have w': "db w' = db w" using checkDeadLetter_db [OF dead] .
  have "log_step s d (db w)" using log_step.process [of s ?w "wk_batchSize wk"] run by simp
  then show ?case using Cons.IH converse_rtranclp_into_rtranclp [of "log_step s"] run dead w' assms
    by (cases x) (auto intro: r_into_rtranclp)
qed simp

lemma only_credentials:
  assumes "preserves (\<lambda>d'. \<exists>cs. d' = d\<lparr>byok_credentials := cs\<rparr>) m" "credits_inv d" "db w = d"
  shows "foreign d (db (snd (m w)))"
proof -
  have "\<exists>cs. d = d\<lparr>byok_credentials := cs\<rparr>" by (rule exI [of _ "byok_credentials d"]) simp
  then obtain cs where "db (snd (m w)) = d\<lparr>byok_credentials := cs\<rparr>" using preservesD [OF assms(1), of w] assms(3) by auto
  moreover have "credits_inv (d\<lparr>byok_credentials := cs\<rparr>) = credits_inv d"
    by (simp add: credits_inv_def ledger_inv_def ledger_wf_def resv_inv_def balance_of_def ledger_sum_def row_ok_def
        held_def ref_sum_def has_account_def cong: option.case_cong)
  ultimately show ?thesis using assms(2) by (simp add: foreign_def)
qed

lemma store_foreign:
  assumes "credits_inv (db w)"
  shows "foreign (db w) (db (snd (Put c u pv cred w)))" "foreign (db w) (db (snd (Delete c u pv w)))"
proof -
  let ?I = "\<lambda>d'. \<exists>cs. d' = db w\<lparr>byok_credentials := cs\<rparr>"
  have u: "preserves ?I (stmt (upsert_cred k))" "preserves ?I (stmt (delete_cred u pv))" for k
    by (rule preserves_stmt, auto simp: upsert_cred_def delete_cred_def Let_def)+
  have "preserves ?I (seal c cred aad)" for aad by (simp add: preserves_def seal_def Let_def)
  then have "preserves ?I (Put c u pv cred)" unfolding Put_def Let_def by (intro pres_intros u)
  then show "foreign (db w) (db (snd (Put c u pv cred w)))" by (rule only_credentials [OF _ assms refl])
  have "preserves ?I (Delete c u pv)" unfolding Delete_def by (intro pres_intros u)
  then show "foreign (db w) (db (snd (Delete c u pv w)))" by (rule only_credentials [OF _ assms refl])
qed

lemma ServeHTTP_foreign:
  assumes "credits_inv (db w)"
  shows "foreign (db w) (db (snd (ServeHTTP rel ctx req w)))"
proof -
  obtain x w' where run: "ServeHTTP rel ctx req w = (x, w')" by fastforce
  have "foreign (db w) (db (snd (RecordUsageRetry s ctx u w1)))" if "db w1 = db w" for s u and w1 :: world
    using client_step_foreign [OF client_step.record_usage_retry [of outside w1 s ctx u]] assms that by simp
  then show ?thesis using ServeHTTP_any [OF run] run foreign_refl [OF assms] by auto
qed

lemma CreateCheckout_db:
  "db (snd (CreateCheckout L a u sku w)) \<in> {db w, db (snd (CreatePurchase (ad_payments a) ''stripe'' u sku w))}"
  by (cases "CreatePurchase (ad_payments a) ''stripe'' u sku w")
    (auto simp: CreateCheckout_def StripePurchase_def Let_def io_defs split: sum.splits prod.splits)

lemma system_step_runs:
  assumes "ps_ledger (ad_payments a) = CreditsService" "system_step L a d d'" "credits_inv d"
  shows "(log_step (ad_payments a))\<^sup>*\<^sup>* d d'"
  using assms(2,3)
proof (induction rule: system_step.induct)
  case (credits d d')
  then show ?case by (intro r_into_rtranclp log_step.other client_step_foreign)
next
  case (worker wk d ticks backoff dead)
  then show ?case by (intro Run_steps)
next
  case (checkout w u sku)
  then show ?case
    using CreateCheckout_db [of L a u sku w] log_step.create [of "ad_payments a" w "''stripe''" u sku] by auto
next
  case (receive e w)
  then show ?case by (intro r_into_rtranclp log_step.receive)
next
  case (webhook w hook)
  then show ?case by (intro r_into_rtranclp HandleWebhook_log_step assms(1))
qed (auto intro!: r_into_rtranclp log_step.create log_step.process log_step.other
    ApplySubscription_foreign GrantSubscriptionPeriod_foreign assms(1) store_foreign ServeHTTP_foreign)

lemma payment_reachable_runs: "(payment_step s)\<^sup>*\<^sup>* d d' \<Longrightarrow> payment_reachable s d \<Longrightarrow> payment_reachable s d'"
  by (induction rule: rtranclp_induct) (auto intro: payment_reachable.step)

lemma system_reachable_payment:
  assumes "ps_ledger (ad_payments a) = CreditsService" "small_catalog (ad_payments a)" "system_reachable L a d"
  shows "payment_reachable (ad_payments a) d"
  using assms(3)
proof (induction rule: system_reachable.induct)
  case (step d d')
  have "credits_inv d" using payment_reachable_inv [OF assms(1,2) step.IH] by (simp add: pay_inv_def)
  then show ?case using payment_reachable_runs log_steps_payment [OF system_step_runs [OF assms(1) step.hyps(2)]] step.IH by blast
qed (rule payment_reachable.init)

section \<open>What a balance consists of\<close>

lemma sum_where_minus: "sum_where p (\<lambda>x. - f x) rs = - sum_where p f rs"
  by (induction rs) auto

lemma rows_of_purchase:
  "sum_where (\<lambda>t. purchase_ref t = Some pid) t_amount (credit_transactions d) = grants_for d pid - refunds_for d pid"
  unfolding purchase_ref_iff grants_for_def refunds_for_def sum_where_minus by (subst sum_where_disj) auto

lemma purchases_total:
  assumes "pay_inv d"
  shows "sum_where (\<lambda>t. t_user_id t = u \<and> t_reference_id t = None \<and> purchase_ref t \<noteq> None) t_amount (credit_transactions d) =
    sum_where (\<lambda>p. p_user_id p = u) (\<lambda>p. (if p_fulfilled_at p = None then 0 else p_credits p) - p_reversed_credits p) (payment_purchases d)"
    (is "?l = ?r")
proof -
  let ?ps = "filter (\<lambda>p. p_user_id p = u) (payment_purchases d)"
  have dist: "distinct (map p_id (payment_purchases d))" and own: "owners_ok d" using assms by (simp_all add: pay_inv_def)
  have "(t_user_id t = u \<and> t_reference_id t = None \<and> purchase_ref t \<noteq> None) \<longleftrightarrow> (\<exists>p \<in> set ?ps. purchase_ref t = Some (p_id p))"
    if t: "t \<in> set (credit_transactions d)" for t
  proof (cases "purchase_ref t")
    case (Some pid)
    then obtain p where p: "p \<in> set (payment_purchases d)" "p_id p = pid" "p_user_id p = t_user_id t" "t_reference_id t = None"
      using own t unfolding owners_ok_def by blast
    have only: "q = p" if "q \<in> set (payment_purchases d)" "p_id q = pid" for q using key_inj [OF dist that(1) p(1)] that(2) p(2) by simp
    show ?thesis
    proof
      assume "t_user_id t = u \<and> t_reference_id t = None \<and> purchase_ref t \<noteq> None"
      then show "\<exists>p \<in> set ?ps. purchase_ref t = Some (p_id p)" using Some p by (intro bexI [of _ p]) simp_all
    next
      assume "\<exists>p \<in> set ?ps. purchase_ref t = Some (p_id p)"
      then obtain q where "q \<in> set ?ps" "p_id q = pid" using Some by auto
      with only [of q] p Some show "t_user_id t = u \<and> t_reference_id t = None \<and> purchase_ref t \<noteq> None" by simp
    qed
  qed simp
  then have "?l = sum_where (\<lambda>t. \<exists>p \<in> set ?ps. purchase_ref t = Some (p_id p)) t_amount (credit_transactions d)"
    by (intro sum_where_cong)
  also have "\<dots> = (\<Sum>p \<leftarrow> ?ps. grants_for d (p_id p) - refunds_for d (p_id p))"
    using dist by (subst sum_by_key) (simp_all add: distinct_map_filter rows_of_purchase)
  also have "\<dots> = (\<Sum>p \<leftarrow> ?ps. (if p_fulfilled_at p = None then 0 else p_credits p) - p_reversed_credits p)"
    using assms by (intro arg_cong [where f = sum_list] map_cong) (auto simp: pay_inv_def purchase_ok_def)
  finally show ?thesis by (simp add: sum_where_def)
qed

lemma balance_parts:
  assumes "pay_inv d"
  shows "balance_of d u =
     sum_where (\<lambda>p. p_user_id p = u) (\<lambda>p. (if p_fulfilled_at p = None then 0 else p_credits p) - p_reversed_credits p)
       (payment_purchases d) +
     sum_where (\<lambda>t. t_user_id t = u \<and> t_reference_id t = None \<and> purchase_ref t = None) t_amount (credit_transactions d) -
     sum_where (\<lambda>r. r_UserID r = u) held (credit_reservations d)"
proof -
  have "funded d u =
      sum_where (\<lambda>t. t_user_id t = u \<and> t_reference_id t = None \<and> purchase_ref t = None) t_amount (credit_transactions d) +
      sum_where (\<lambda>t. t_user_id t = u \<and> t_reference_id t = None \<and> purchase_ref t \<noteq> None) t_amount (credit_transactions d)"
    unfolding funded_def using sum_where_split [of "\<lambda>t. t_user_id t = u \<and> t_reference_id t = None" t_amount "credit_transactions d"
        "\<lambda>t. purchase_ref t = None"] by (simp add: conj_assoc)
  moreover have "credits_inv d" using assms by (simp add: pay_inv_def)
  ultimately show ?thesis
    using balance_split [of d u] purchases_total [OF assms, of u] by (simp add: held_total_def)
qed

section \<open>Properties\<close>

text \<open>C1: every credit has an origin. In every database the whole system can produce (credits service, payment service, worker,
  webhooks, credential store and relay acting in any order, with any faults), a user's balance is: the credits of the user's
  fulfilled purchases less what was taken back of them, plus what other grants and refunds brought, minus the full
  amount of the open reservations, minus the captured cost of the settled ones. (Catalog prices whose product fits an
  \<open>int64\<close>; grants by the application carry neither the keys nor the reasons of the payment service.)\<close>

theorem balance_explained:
  assumes "ps_ledger (ad_payments a) = CreditsService" "small_catalog (ad_payments a)" "system_reachable L a d"
  shows "balance_of d u =
     sum_where (\<lambda>p. p_user_id p = u) (\<lambda>p. (if p_fulfilled_at p = None then 0 else p_credits p) - p_reversed_credits p)
       (payment_purchases d) +
     sum_where (\<lambda>t. t_user_id t = u \<and> t_reference_id t = None \<and> purchase_ref t = None) t_amount (credit_transactions d) -
     sum_where (\<lambda>r. r_UserID r = u) held (credit_reservations d)"
  by (rule balance_parts) (rule payment_reachable_inv [OF assms(1,2) system_reachable_payment [OF assms]])

text \<open>A purchase, its payment, a gift of the application and a reservation, over one database.\<close>

abbreviation later_world :: "database \<Rightarrow> world" where
  "later_world d \<equiv> (sample_world d)\<lparr>rnd := replicate 16 (CHR ''z'')\<rparr>"

definition gift_shop :: database where
  "gift_shop = db (snd (Grant ''u1'' 5 ''signup'' ''welcome'' ''signup:u1'' (later_world paid_shop)))"

definition mixed_shop :: database where
  "mixed_shop = db (snd (Reserve ''u1'' ''req-1'' 30 (later_world gift_shop)))"

lemma gift_shop_value [code]:
  "gift_shop = paid_shop
     \<lparr>credit_accounts := [\<lparr>a_user_id = ''u1'', a_balance = 105, a_updated_at = 1786752000\<rparr>],
      credit_transactions := credit_transactions paid_shop @
        [\<lparr>t_id = ''7a7a7a7a7a7a7a7a7a7a7a7a7a7a7a7a'', t_user_id = ''u1'', t_amount = 5, t_type = ''grant'', t_source = ''signup'',
          t_reference_id = None, t_idempotency_key = Some ''signup:u1'', t_metadata = Some [(''reason'', ''welcome'')],
          t_created_at = 1786752000\<rparr>]\<rparr>"
  by code_simp

lemma mixed_shop_value [code]:
  "mixed_shop = gift_shop
     \<lparr>credit_accounts := [\<lparr>a_user_id = ''u1'', a_balance = 75, a_updated_at = 1786752000\<rparr>],
      credit_reservations := [new_reservation ''7a7a7a7a7a7a7a7a7a7a7a7a7a7a7a7a'' ''u1'' ''req-1'' 30 1786752000],
      credit_transactions := credit_transactions gift_shop @
        [\<lparr>t_id = ''7a7a7a7a7a7a7a7a7a7a7a7a7a7a7a7a-x'', t_user_id = ''u1'', t_amount = -30, t_type = ''reservation'', t_source = ''llm_reserve'',
          t_reference_id = Some ''7a7a7a7a7a7a7a7a7a7a7a7a7a7a7a7a'', t_idempotency_key = Some ''resv:req-1'', t_metadata = None,
          t_created_at = 1786752000\<rparr>]\<rparr>"
  by code_simp

lemma paid_shop_system_reachable: "system_reachable sample_lib sample_adapter paid_shop"
proof -
  let ?R = "system_reachable sample_lib sample_adapter"
  have "?R created_shop"
    unfolding created_shop_def by (rule system_reachable.step [OF system_reachable.init])
      (use system_step.purchase [of sample_lib sample_adapter "sample_world empty_db"] in simp)
  then show ?thesis unfolding paid_shop_def
    by (rule system_reachable.step) (use system_step.receive [of _ sample_lib sample_adapter "sample_world created_shop"] in
        \<open>simp add: sample_event_def plain_def\<close>)
qed

lemma mixed_shop_reachable: "system_reachable sample_lib sample_adapter mixed_shop"
proof -
  have "system_reachable sample_lib sample_adapter gift_shop" unfolding gift_shop_def
    by (rule system_reachable.step [OF paid_shop_system_reachable])
      (use client_step.grant [of outside "''signup:u1''" "''welcome''" "later_world paid_shop"] in \<open>simp add: outside_def system_step.credits\<close>)
  then show ?thesis unfolding mixed_shop_def
    by (rule system_reachable.step)
      (use client_step.reserve [of 30 outside "later_world gift_shop"] in \<open>simp add: max_int64_def system_step.credits\<close>)
qed

theorem balance_explained_witness: "balance_of mixed_shop ''u1'' = 100 + 5 - 30"
proof -
  have "sum_where (\<lambda>p. p_user_id p = ''u1'') (\<lambda>p. (if p_fulfilled_at p = None then 0 else p_credits p) - p_reversed_credits p)
      (payment_purchases mixed_shop) = 100"
    "sum_where (\<lambda>t. t_user_id t = ''u1'' \<and> t_reference_id t = None \<and> purchase_ref t = None) t_amount (credit_transactions mixed_shop) = 5"
    "sum_where (\<lambda>r. r_UserID r = ''u1'') held (credit_reservations mixed_shop) = 30" by code_simp+
  then show ?thesis
    using balance_explained [OF _ _ mixed_shop_reachable, of "''u1''"] by (simp add: sample_payments_ok)
qed

lemma system_reachable_reversals:
  assumes "ps_ledger (ad_payments a) = CreditsService" "small_catalog (ad_payments a)" "system_reachable L a d"
  shows "rev_inv d"
  using assms(3)
proof (induction rule: system_reachable.induct)
  case (step d d')
  then have "credits_inv d" by (simp add: rev_inv_def pay_inv_def)
  then show ?case using log_steps_reversals [OF assms(1,2) system_step_runs [OF assms(1) step.hyps(2)]] step.IH by blast
qed (rule rev_inv_empty)

text \<open>C10: reversals are cumulative. In every database the whole system can produce, the credits taken back of a purchase, in its
  row and in the ledger, are the largest share that any of its applied refund and dispute events asks for: the share of
  the credits that corresponds to the event's returned money, rounded up (everything, for an event without an amount),
  and nothing if there is no such event. The order of the events, their repetition and the faults in between do not
  matter. (Catalog prices whose product fits an \<open>int64\<close>.)\<close>

theorem reversals_cumulative:
  assumes "ps_ledger (ad_payments a) = CreditsService" "small_catalog (ad_payments a)" "system_reachable L a d"
    and "p \<in> set (payment_purchases d)"
  shows "p_reversed_credits p = Max (insert 0 ((\<lambda>r. reversal_target (p_credits p) (p_amount_minor p) (e_reversed_minor r)) `
       {r \<in> set (payment_events d). e_purchase_id r = p_id p \<and> e_process_status r = ''applied'' \<and> e_status r \<noteq> ''paid''})) \<and>
     refunds_for d (p_id p) = p_reversed_credits p"
proof -
  have "rev_inv d" by (rule system_reachable_reversals [OF assms(1-3)])
  then have "p_reversed_credits p = owed_back (payment_events d) p" "refunds_for d (p_id p) = p_reversed_credits p"
    using assms(4) by (simp_all add: rev_inv_def reversals_ok_def pay_inv_def purchase_ok_def)
  then show ?thesis by (simp add: owed_back_def returned_minor_def is_reversal_def image_image)
qed

text \<open>Two refunds of the paid purchase, the larger one first: half of the money, then, delivered late, a quarter.\<close>

abbreviation refund_event :: "string \<Rightarrow> int \<Rightarrow> Event" where
  "refund_event eid minor \<equiv> (sample_event eid ''refunded'' minor)\<lparr>ev_PurchaseID := ''000102030405060708090a0b0c0d0e0f''\<rparr>"

definition half_shop :: database where
  "half_shop = db (snd (Receive sample_payments (refund_event ''e2'' 500) (later_world paid_shop)))"

definition refunded_shop :: database where
  "refunded_shop = db (snd (Receive sample_payments (refund_event ''e3'' 250) (later_world half_shop)))"

lemma half_shop_value [code]:
  "half_shop = paid_shop
     \<lparr>credit_accounts := [\<lparr>a_user_id = ''u1'', a_balance = 50, a_updated_at = 1786752000\<rparr>],
      credit_transactions := credit_transactions paid_shop @
        [\<lparr>t_id = ''7a7a7a7a7a7a7a7a7a7a7a7a7a7a7a7a'', t_user_id = ''u1'', t_amount = -50, t_type = ''refund'', t_source = ''stripe'',
          t_reference_id = None, t_idempotency_key = Some ''reversal:stripe:e2'',
          t_metadata = Some [(''reason'', ''reversal 000102030405060708090a0b0c0d0e0f'')], t_created_at = 1786752000\<rparr>],
      payment_purchases := map (reversed_row (refund_event ''e2'' 500) 50 1786752000) (payment_purchases paid_shop),
      payment_events := payment_events paid_shop @
        [applied_row 1786752000 (claim_row 1786752000 (new_event_row (refund_event ''e2'' 500) 1786752000))]\<rparr>"
  by code_simp

lemma refunded_shop_facts:
  "map p_reversed_credits (payment_purchases refunded_shop) = [50]"
  "map e_reversed_minor (filter (\<lambda>r. e_process_status r = ''applied'' \<and> e_status r = ''refunded'') (payment_events refunded_shop)) = [500, 250]"
  by code_simp+

lemma refunded_shop_reachable: "system_reachable sample_lib sample_adapter refunded_shop"
proof -
  have "plain (ev_Provider (refund_event e n))" for e n by (simp add: sample_event_def plain_def)
  note refund = system_step.receive [OF this, of sample_lib sample_adapter, unfolded sample_adapter_simps]
  have "system_reachable sample_lib sample_adapter half_shop" unfolding half_shop_def
    by (rule system_reachable.step [OF paid_shop_system_reachable]) (use refund [where w = "later_world paid_shop"] in simp)
  then show ?thesis unfolding refunded_shop_def
    by (rule system_reachable.step) (use refund [where w = "later_world half_shop"] in simp)
qed

theorem reversals_cumulative_witness:
  "\<exists>p. payment_purchases refunded_shop = [p] \<and> p_reversed_credits p = 50 \<and> refunds_for refunded_shop (p_id p) = 50 \<and>
     map e_reversed_minor (filter (\<lambda>r. e_process_status r = ''applied'' \<and> e_status r = ''refunded'') (payment_events refunded_shop)) = [500, 250]"
proof -
  obtain p where p: "payment_purchases refunded_shop = [p]" "p_reversed_credits p = 50"
    using refunded_shop_facts(1) by (auto simp: map_eq_Cons_conv)
  then have "refunds_for refunded_shop (p_id p) = 50"
    using reversals_cumulative [OF _ _ refunded_shop_reachable, of p] by (simp add: sample_payments_ok)
  then show ?thesis using p refunded_shop_facts(2) by simp
qed

text \<open>The keys of the tables. The statements of the model refuse what the schema's uniqueness constraints refuse; no sequence of
  them, from any component, gets around these checks (the keys of the migration tables are left out).\<close>

lemma tables_keep_keys:
  assumes "ps_ledger (ad_payments a) = CreditsService" "system_reachable L a d"
  shows "schema_wf d \<and> payment_wf d"
  using assms(2)
proof (induction rule: system_reachable.induct)
  case init
  show ?case using reachable_wf [OF reachable.init] by (simp add: payment_wf_def unique_payments_def)
next
  case (step d d')
  then show ?case using sys_wf.system_step_law [OF assms(1)] sys_keys.system_step_law [OF assms(1)] by blast
qed

text \<open>C12: no component rewrites history. Over any sequence of steps of the whole system the ledger only grows at its end, no
  reservation disappears or changes its identity, owner or amount, and one that is settled, released or expired
  never changes again.\<close>

theorem system_keeps_history:
  assumes "ps_ledger (ad_payments a) = CreditsService" "(system_step L a)\<^sup>*\<^sup>* d d'"
  shows "prefix (credit_transactions d) (credit_transactions d') \<and>
     (\<forall>r \<in> set (credit_reservations d). \<exists>r' \<in> set (credit_reservations d').
        r_ID r' = r_ID r \<and> r_UserID r' = r_UserID r \<and> r_RequestID r' = r_RequestID r \<and> r_Amount r' = r_Amount r \<and>
        (r_Status r \<noteq> reservationStatusReserved \<longrightarrow> r' = r))"
  using sys_hist.system_steps_law [OF assms history_self] unfolding history_def same_reservation_def by blast

theorem system_keeps_history_witness:
  "prefix (credit_transactions sample_db) (credit_transactions (db (snd (ProcessPending sample_payments 10 (sample_world sample_db)))))"
proof -
  have "(system_step sample_lib sample_adapter)\<^sup>*\<^sup>* sample_db (db (snd (ProcessPending sample_payments 10 (sample_world sample_db))))"
    using system_step.process [of sample_lib sample_adapter "sample_world sample_db" 10] by (simp add: r_into_rtranclp)
  from system_keeps_history [OF _ this] show ?thesis by (simp add: sample_payments_ok)
qed

end
