(* ===== verification/Concurrent_Workers.thy ===== *)
theory Concurrent_Workers
  imports Payment_Runs
begin

text \<open>
  Several workers at once. \<open>processOne\<close> of \<open>src/payments/payments.go\<close> is not one transaction: it claims the event, reads the
  purchase, books and writes in a transaction, and marks a failure, each on its own. Here every such piece is one step
  (\<open>worker_step\<close>), a worker is a phase between two pieces, and the pieces of any number of workers, of deliveries and of
  purchases interleave freely, with crashes, expired leases and a world of its own (faults, clock, random bytes) for each.

  The whole operations are runs of these steps (\<open>payment_step_splits\<close>). What interleaving can break is the amount that refunds
  take back (\<open>stale_purchase_over_refunds\<close>); what it cannot break is shown here: the ledger stays sound, and every row a
  purchase caused is the buyer's, has the amount of the purchase and a key that is used once.
\<close>

section \<open>The pieces of an operation\<close>

datatype phase = Claimed Event int | Loaded Event Purchase int | Closing Event "error + applied"

type_synonym shop = "database \<times> (nat \<Rightarrow> phase option)"

inductive worker_step :: "PaymentsService \<Rightarrow> shop \<Rightarrow> shop \<Rightarrow> bool" for s where
  claim: "W i = None \<Longrightarrow> stmt (update_events (\<lambda>r. is_event e r \<and> waiting r) (claim_row (pnow w))) w = (Inr n, w') \<Longrightarrow> n \<noteq> 0 \<Longrightarrow>
    worker_step s (db w, W) (db w', W(i \<mapsto> Claimed e (pnow w)))"
| load: "W i = Some (Claimed e ts) \<Longrightarrow> PurchaseOf (ev_PurchaseID e) w = (Inr p, w') \<Longrightarrow> \<not> identity_conflict e p \<Longrightarrow>
    worker_step s (db w, W) (db w', W(i \<mapsto> Loaded e p ts))"
| reject: "W i = Some (Claimed e ts) \<Longrightarrow> (fail e err :: world \<Rightarrow> (error + unit) \<times> world) w = (x, w') \<Longrightarrow>
    worker_step s (db w, W) (db w', W(i := None))"
| book: "W i = Some (Loaded e p ts) \<Longrightarrow> transaction (process_tx e p ts) w = (r, w') \<Longrightarrow>
    worker_step s (db w, W) (db w', W(i \<mapsto> Closing e r))"
| close: "W i = Some (Closing e r) \<Longrightarrow> finish_event e r w = (x, w') \<Longrightarrow> worker_step s (db w, W) (db w', W(i := None))"
| crash: "worker_step s (d, W) (d, W(i := None))"
| lease: "stmt (update_events (lease_expired ts) expire_lease) (w :: world) = (x, w') \<Longrightarrow> worker_step s (db w, W) (db w', W)"
| log: "stmt (insert_event (new_event_row e ts)) (w :: world) = (x, w') \<Longrightarrow> worker_step s (db w, W) (db w', W)"
| sell: "worker_step s (db w, W) (db (snd (CreatePurchase s provider userID sku w)), W)"
| other: "foreign d d' \<Longrightarrow> worker_step s (d, W) (d', W)"

section \<open>What survives any interleaving\<close>

text \<open>A row of the ledger that a purchase caused.\<close>

definition caused_by :: "ledger_row \<Rightarrow> purchase_row \<Rightarrow> bool" where
  "caused_by t p \<longleftrightarrow>
     t_reference_id t = None \<and> t_user_id t = p_user_id p \<and>
     (if t_type t = ''grant''
      then t_amount t = p_credits p \<and> (\<exists>x. t_idempotency_key t = Some (payment_key (p_provider p) x))
      else t_amount t < 0 \<and> - t_amount t \<le> p_credits p \<and> (\<exists>x. t_idempotency_key t = Some (reversal_key (p_provider p) x)))"

definition bounded_purchase :: "purchase_row \<Rightarrow> bool" where
  "bounded_purchase p \<longleftrightarrow>
     small_price (p_credits p) (p_amount_minor p) \<and> 0 \<le> p_reversed_credits p \<and> p_reversed_credits p \<le> p_credits p"

definition shop_ok :: "database \<Rightarrow> bool" where
  "shop_ok d \<longleftrightarrow>
     credits_inv d \<and> distinct (map p_id (payment_purchases d)) \<and> (\<forall>p \<in> set (payment_purchases d). bounded_purchase p) \<and>
     (\<forall>t \<in> set (credit_transactions d). \<forall>pid. purchase_ref t = Some pid \<longrightarrow>
        (\<exists>p \<in> set (payment_purchases d). p_id p = pid \<and> caused_by t p))"

text \<open>What never changes of a purchase, and what a worker that has read one may rely on.\<close>

definition same_purchase :: "purchase_row \<Rightarrow> purchase_row \<Rightarrow> bool" where
  "same_purchase p p' \<longleftrightarrow>
     p_id p' = p_id p \<and> p_user_id p' = p_user_id p \<and> p_provider p' = p_provider p \<and> p_credits p' = p_credits p \<and>
     p_amount_minor p' = p_amount_minor p"

definition keeps_purchases :: "database \<Rightarrow> database \<Rightarrow> bool" where
  "keeps_purchases d d' \<longleftrightarrow> (\<forall>p \<in> set (payment_purchases d). \<exists>p' \<in> set (payment_purchases d'). same_purchase p p')"

definition read_ok :: "database \<Rightarrow> Event \<Rightarrow> Purchase \<Rightarrow> bool" where
  "read_ok d e q \<longleftrightarrow>
     ev_Provider e = pu_Provider q \<and> 0 \<le> pu_ReversedCredits q \<and> pu_ReversedCredits q \<le> pu_Credits q \<and>
     small_price (pu_Credits q) (pu_AmountMinor q) \<and>
     (\<exists>p \<in> set (payment_purchases d). p_id p = pu_ID q \<and> p_user_id p = pu_UserID q \<and> p_provider p = pu_Provider q \<and>
        p_credits p = pu_Credits q \<and> p_amount_minor p = pu_AmountMinor q)"

definition phases_ok :: "database \<Rightarrow> (nat \<Rightarrow> phase option) \<Rightarrow> bool" where
  "phases_ok d W \<longleftrightarrow> (\<forall>i e q ts. W i = Some (Loaded e q ts) \<longrightarrow> read_ok d e q)"

lemma keeps_refl: "keeps_purchases d d"
  by (auto simp: keeps_purchases_def same_purchase_def)

lemma read_ok_keeps: "read_ok d e q \<Longrightarrow> keeps_purchases d d' \<Longrightarrow> read_ok d' e q"
  unfolding read_ok_def keeps_purchases_def same_purchase_def by fastforce

lemma caused_by_same: "caused_by t p \<Longrightarrow> same_purchase p p' \<Longrightarrow> caused_by t p'"
  unfolding caused_by_def same_purchase_def by simp

lemma phases_ok_step:
  assumes "shop_ok d' \<and> keeps_purchases d d'" "phases_ok d W"
    "\<And>i e q ts. W' i = Some (Loaded e q ts) \<Longrightarrow> W i = Some (Loaded e q ts) \<or> read_ok d' e q"
  shows "shop_ok d' \<and> phases_ok d' W'"
  using assms read_ok_keeps unfolding phases_ok_def by blast

lemma shop_ok_grow:
  assumes ok: "shop_ok d" and inv: "credits_inv d'" and keeps: "keeps_purchases d d'"
    and ids: "distinct (map p_id (payment_purchases d'))" and ps: "\<And>p. p \<in> set (payment_purchases d') \<Longrightarrow> bounded_purchase p"
    and ts: "credit_transactions d' = credit_transactions d @ rows"
    and rows: "\<And>t pid. t \<in> set rows \<Longrightarrow> purchase_ref t = Some pid \<Longrightarrow>
      \<exists>p \<in> set (payment_purchases d). p_id p = pid \<and> caused_by t p"
  shows "shop_ok d'"
  unfolding shop_ok_def
proof (intro conjI ballI allI impI)
  fix t pid assume t: "t \<in> set (credit_transactions d')" "purchase_ref t = Some pid"
  then obtain p where p: "p \<in> set (payment_purchases d)" "p_id p = pid" "caused_by t p"
    using ok rows [of t pid] ts unfolding shop_ok_def by (metis Un_iff set_append)
  then obtain p' where "p' \<in> set (payment_purchases d')" "same_purchase p p'" using keeps unfolding keeps_purchases_def by blast
  then show "\<exists>p \<in> set (payment_purchases d'). p_id p = pid \<and> caused_by t p"
    using p caused_by_same by (intro bexI [of _ p']) (auto simp: same_purchase_def)
qed (use inv ids ps in auto)

text \<open>Steps that only touch the event log.\<close>

lemma shop_ok_events [simp]: "shop_ok (d\<lparr>payment_events := es\<rparr>) = shop_ok d"
  by (simp add: shop_ok_def)

lemma keeps_events [simp]: "keeps_purchases d (d\<lparr>payment_events := es\<rparr>)" "keeps_purchases (d\<lparr>payment_events := es\<rparr>) d' = keeps_purchases d d'"
  by (auto simp: keeps_purchases_def same_purchase_def)

lemma event_stmt:
  assumes "stmt f w = (x, w')" "\<And>n d'. f (db w) = Inr (n, d') \<Longrightarrow> \<exists>es. d' = db w\<lparr>payment_events := es\<rparr>"
  shows "\<exists>es. db w' = db w\<lparr>payment_events := es\<rparr>"
proof -
  have "\<exists>es. db w = db w\<lparr>payment_events := es\<rparr>" by (rule exI [of _ "payment_events (db w)"]) simp
  then show ?thesis using assms by (auto simp: stmt_def Let_def split: option.splits sum.splits)
qed

lemma log_only:
  "stmt (update_events q g) w = (x, w') \<Longrightarrow> \<exists>es. db w' = db w\<lparr>payment_events := es\<rparr>"
  "stmt (insert_event r) w = (x, w') \<Longrightarrow> \<exists>es. db w' = db w\<lparr>payment_events := es\<rparr>"
  by (rule event_stmt, assumption, auto simp: update_events_def insert_event_def intro: exI [of _ "payment_events (db w)"] split: if_splits)+

lemma fail_only:
  assumes "fail e err w = (x, w')"
  shows "\<exists>es. db w' = db w\<lparr>payment_events := es\<rparr>"
proof -
  obtain y where "stmt (update_events (is_event e) (fail_row err)) w = (y, w')"
    using assms by (auto simp: fail_def io_defs split: prod.splits)
  then show ?thesis by (rule log_only)
qed

lemma finish_only:
  assumes "finish_event e r w = (x, w')"
  shows "\<exists>es. db w' = db w\<lparr>payment_events := es\<rparr>"
proof (cases "r = Inr Applied")
  case True
  then have "db w' = db w" using assms by (simp add: finish_event_def return_io_def)
  then show ?thesis by (intro exI [of _ "payment_events (db w)"]) simp
next
  case False
  have same: "db w = db w\<lparr>payment_events := payment_events (db w)\<rparr>" by simp
  from finish_event_any [OF assms False] show ?thesis using same by metis
qed

text \<open>The booking, with a purchase read at any earlier time.\<close>

lemma stale_reversal:
  assumes "read_ok d e q"
  shows "reversal_amount q e \<le> pu_Credits q" "0 < reversal_amount q e \<Longrightarrow> wrap64 (- reversal_amount q e) = - reversal_amount q e"
    "0 \<le> newReversed q (reversal_amount q e)" "newReversed q (reversal_amount q e) \<le> pu_Credits q"
proof -
  have sp: "small_price (pu_Credits q) (pu_AmountMinor q)" and rv: "0 \<le> pu_ReversedCredits q" "pu_ReversedCredits q \<le> pu_Credits q"
    using assms by (simp_all add: read_ok_def)
  let ?t = "reversal_target (pu_Credits q) (pu_AmountMinor q) (ev_ReversedMinor e)"
  have t: "0 < ?t" "?t \<le> pu_Credits q" "pu_Credits q \<le> max_int64" using reversal_target_bounds small_priceD [OF sp] by auto
  have a: "reversal_amount q e = ?t - pu_ReversedCredits q" by (rule reversal_amount_eq [OF sp rv])
  then show "reversal_amount q e \<le> pu_Credits q" using t rv by simp
  show "wrap64 (- reversal_amount q e) = - reversal_amount q e" if "0 < reversal_amount q e"
    using that a t rv by (intro wrap64_id) (auto simp: in64_def max_int64_def)
  have n: "newReversed q (reversal_amount q e) = max (pu_ReversedCredits q) ?t"
  proof -
    have "pu_ReversedCredits q + max (reversal_amount q e) 0 = max (pu_ReversedCredits q) ?t" using a by simp
    moreover have "in64 (max (pu_ReversedCredits q) ?t)" using t rv by (auto simp: in64_def max_int64_def)
    ultimately show ?thesis by (simp add: newReversed_def wrap64_id)
  qed
  then show "0 \<le> newReversed q (reversal_amount q e)" "newReversed q (reversal_amount q e) \<le> pu_Credits q" using rv t by simp_all
qed

lemma booked_rows:
  assumes ok: "credits_inv d" and rd: "read_ok d e q" and b: "booked e q d d1"
  obtains (grown) rows where "credit_transactions d1 = credit_transactions d @ rows" "credits_inv d1"
    "\<And>t pid. t \<in> set rows \<Longrightarrow> purchase_ref t = Some pid \<Longrightarrow> \<exists>p \<in> set (payment_purchases d). p_id p = pid \<and> caused_by t p"
proof -
  from rd obtain p where p: "p \<in> set (payment_purchases d)" "p_id p = pu_ID q" "p_user_id p = pu_UserID q" "p_provider p = ev_Provider e"
    "p_credits p = pu_Credits q" unfolding read_ok_def by auto
  have post: ?thesis
    if k: "keyed_post (pu_UserID q) n y rsn k d d1" and y: "y = ''grant'' \<and> rsn = ''purchase '' @ pu_ID q \<and> n = pu_Credits q \<and>
        k = payment_key (ev_Provider e) (ev_PaymentID e) \<or> y = ''refund'' \<and> rsn = ''reversal '' @ pu_ID q \<and>
        n < 0 \<and> - n \<le> pu_Credits q \<and> k = reversal_key (ev_Provider e) (ev_EventID e)" for n y rsn k
    using k unfolding keyed_post_def
  proof (elim disjE conjE exE)
    fix t ts assume t: "fresh_row t d" "d1 = posted t ts d" "t_user_id t = pu_UserID q" "t_amount t = n" "t_type t = y"
      "t_reference_id t = None" "t_idempotency_key t = Some k" "t_metadata t = Some [(''reason'', rsn)]"
    have "p_id p = pid \<and> caused_by t p" if "purchase_ref t = Some pid" for pid
      using that y t(3-8) p by (auto simp: purchase_ref_iff caused_by_def)
    then show ?thesis using grown [of "[t]"] p(1) t(2) credits_inv_posted [OF ok t(1,6)] by (auto simp: posted_def)
  qed (use grown [of "[]"] ok in simp)
  show ?thesis
  proof (cases "ev_Status e = ''paid''")
    case True
    then show ?thesis using b post by (simp add: booked_def)
  next
    case False
    then show ?thesis using b post [OF _ disjI2] stale_reversal(1,2) [OF rd] grown [of "[]"] ok by (auto simp: booked_def split: if_splits)
  qed
qed

lemma book_ok:
  assumes ok: "shop_ok (db w)" and rd: "read_ok (db w) e q" and run: "transaction (process_tx e q ts) w = (r, w')"
  shows "shop_ok (db w') \<and> keeps_purchases (db w) (db w')"
  using run
proof (cases rule: process_transaction)
  case (applied w1)
  let ?w = "w\<lparr>faults := tl (faults w)\<rparr>" and ?ps = "payment_purchases (db w)"
  obtain e' w2 where b: "book_event GrantTx RefundTx e q ?w = (Inr e', w2)" and wr: "write_event e' q ts w2 = (Inr (), w1)"
    using process_tx_Commit [OF applied(2)] by blast
  from book_event_Inr [OF b] have bk: "booked e q (db w) (db w2)"
    and e': "e' = (if ev_Status e = ''paid'' then e else e\<lparr>ev_ReversedCredits := reversal_amount q e\<rparr>)" by auto
  define f where "f = (if ev_Status e' = ''paid'' then paid_row e' ts else reversed_row e' (newReversed q (ev_ReversedCredits e')) ts)"
  have ps2: "payment_purchases (db w2) = ?ps" using booked_other [OF bk] by simp
  then obtain es where d': "db w' = (db w2)\<lparr>payment_purchases := update_where (\<lambda>x. p_id x = pu_ID q) f ?ps, payment_events := es\<rparr>"
    using conjunct1 [OF write_event_Inr [OF wr]] applied(3) by (simp add: f_def)
  have same: "same_purchase x (f x)" for x by (simp add: f_def same_purchase_def paid_row_def reversed_row_def)
  have keeps: "keeps_purchases (db w) (db w')" unfolding keeps_purchases_def
  proof
    fix x assume "x \<in> set ?ps"
    then show "\<exists>x' \<in> set (payment_purchases (db w')). same_purchase x x'"
      using same by (intro bexI [of _ "if p_id x = pu_ID q then f x else x"]) (auto simp: d' set_update_where same_purchase_def)
  qed
  from rd obtain p where p: "p \<in> set ?ps" "p_id p = pu_ID q" "p_credits p = pu_Credits q" unfolding read_ok_def by blast
  have "bounded_purchase (f x)" if "x \<in> set ?ps" "p_id x = pu_ID q" for x
  proof -
    have "x = p" using key_inj [of p_id ?ps x p] ok that p by (simp add: shop_ok_def)
    moreover have "bounded_purchase p" using ok p(1) by (simp add: shop_ok_def)
    ultimately show ?thesis using stale_reversal(3,4) [OF rd] p(3)
      by (auto simp: f_def e' bounded_purchase_def paid_row_def reversed_row_def)
  qed
  then have bounded: "bounded_purchase x" if "x \<in> set (payment_purchases (db w'))" for x
    using that ok by (auto simp: d' set_update_where shop_ok_def split: if_splits)
  have ids: "map p_id (payment_purchases (db w')) = map p_id ?ps"
    using same by (simp add: d') (intro map_update_where, simp add: same_purchase_def)
  from ok have "credits_inv (db w)" by (simp add: shop_ok_def)
  from booked_rows [OF this rd bk] obtain rows where rows: "credit_transactions (db w2) = credit_transactions (db w) @ rows"
    "credits_inv (db w2)" "\<And>t pid. t \<in> set rows \<Longrightarrow> purchase_ref t = Some pid \<Longrightarrow> \<exists>p \<in> set ?ps. p_id p = pid \<and> caused_by t p"
    by metis
  have "shop_ok (db w')"
  proof (rule shop_ok_grow [OF ok _ keeps _ bounded])
    show "credits_inv (db w')" using rows(2) by (simp add: d')
    show "distinct (map p_id (payment_purchases (db w')))" using ok by (simp add: ids shop_ok_def)
    show "credit_transactions (db w') = credit_transactions (db w) @ rows" by (simp add: d' rows(1))
  qed (use rows(3) in auto)
  with keeps show ?thesis by simp
qed (use ok keeps_refl in simp)

lemma sell_ok:
  assumes "small_catalog s" "shop_ok (db w)"
  shows "shop_ok (db (snd (CreatePurchase s provider u sku w))) \<and> keeps_purchases (db w) (db (snd (CreatePurchase s provider u sku w)))"
proof (cases "CatalogItemOf s sku")
  case None
  then show ?thesis using assms(2) keeps_refl by (simp add: CreatePurchase_def throw_io_def)
next
  case (Some item)
  then have small: "small_price (ci_Credits item) (ci_AmountMinor item)"
    using assms(1) by (auto simp: small_catalog_def CatalogItemOf_def list_all_iff dest!: map_of_SomeD)
  let ?I = "\<lambda>d. shop_ok d \<and> keeps_purchases (db w) d"
  have ins: "?I d'" if I: "?I d" and p: "insert_purchase p d = Inr (n, d')" "bounded_purchase p" for p d n d'
  proof -
    from p(1) have d': "d' = d\<lparr>payment_purchases := payment_purchases d @ [p]\<rparr>" "p_id p \<notin> p_id ` set (payment_purchases d)"
      by (auto simp: insert_purchase_def list_ex_iff split: if_splits)
    have k: "keeps_purchases d d'" "keeps_purchases (db w) d'"
      using I unfolding keeps_purchases_def d' by (auto simp: same_purchase_def)
    have "shop_ok d'" using I p(2) d' by (intro shop_ok_grow [of d d' "[]", OF _ _ k(1)]) (auto simp: shop_ok_def)
    with k show ?thesis by simp
  qed
  have new: "preserves ?I NewRequestID" by (simp add: preserves_def NewRequestID_def newID_def)
  have sold: "preserves ?I (stmt (insert_purchase p))" if "bounded_purchase p" for p by (rule preserves_stmt) (rule ins [OF _ _ that])
  have "preserves ?I (CreatePurchase s provider u sku)"
    unfolding CreatePurchase_def Some option.case
    by (intro pres_intros new sold) (use small in \<open>auto simp: bounded_purchase_def dest: small_priceD\<close>)
  from preservesD [OF this, of w] assms(2) keeps_refl show ?thesis by blast
qed

lemma foreign_ok:
  assumes "shop_ok d" "foreign d d'"
  shows "shop_ok d' \<and> keeps_purchases d d'"
proof -
  from assms(2) obtain ts where ts: "credit_transactions d' = credit_transactions d @ ts" "list_all foreign_row ts"
    and f: "credits_inv d'" "payment_purchases d' = payment_purchases d" unfolding foreign_def by blast
  have k: "keeps_purchases d d'" using keeps_refl f(2) unfolding keeps_purchases_def by simp
  have "purchase_ref t \<noteq> Some pid" if "t \<in> set ts" for t pid
    using that ts(2) by (auto simp: list_all_iff foreign_row_def purchase_ref_iff)
  then have "shop_ok d'"
    using assms(1) f by (intro shop_ok_grow [OF assms(1) f(1) k _ _ ts(1)]) (auto simp: shop_ok_def)
  with k show ?thesis by simp
qed

lemma load_ok:
  assumes "shop_ok (db w)" "PurchaseOf (ev_PurchaseID e) w = (Inr q, w')" "\<not> identity_conflict e q"
  shows "db w' = db w \<and> read_ok (db w) e q"
proof -
  from PurchaseOf_any [OF assms(2)] obtain p where d: "db w' = db w" and p: "p \<in> set (payment_purchases (db w))" "q = purchase_of_row p"
    by auto
  have "bounded_purchase p" using assms(1) p(1) by (simp add: shop_ok_def)
  then show ?thesis using d p assms(3)
    by (auto simp: read_ok_def bounded_purchase_def purchase_of_row_def identity_conflict_def intro!: bexI [of _ p])
qed

lemma log_step:
  assumes "\<exists>es. d' = d\<lparr>payment_events := es\<rparr>" "shop_ok d"
  shows "shop_ok d' \<and> keeps_purchases d d'"
  using assms by auto

lemma worker_step_ok:
  assumes "worker_step s x y" "small_catalog s" "shop_ok (fst x)" "phases_ok (fst x) (snd x)"
  shows "shop_ok (fst y) \<and> phases_ok (fst y) (snd y)"
  using assms(1)
proof cases
  case (claim W i e w n w')
  have "shop_ok (db w') \<and> phases_ok (db w') (W(i \<mapsto> Claimed e (pnow w)))"
    using assms(3,4) claim
    by (intro phases_ok_step [OF log_step [OF log_only(1) [OF claim(4)]], of W]) (auto split: if_splits)
  then show ?thesis using claim by simp
next
  case (load W i e ts w p w')
  have l: "db w' = db w" "read_ok (db w) e p" using load_ok [OF _ load(4,5)] assms(3) load by auto
  have "shop_ok (db w) \<and> phases_ok (db w) (W(i \<mapsto> Loaded e p ts))"
    using assms(3,4) load l keeps_refl by (intro phases_ok_step [of "db w" "db w" W]) (auto split: if_splits)
  then show ?thesis using load l by simp
next
  case (reject W i e ts err w r w')
  have "shop_ok (db w') \<and> phases_ok (db w') (W(i := None))"
    using assms(3,4) reject
    by (intro phases_ok_step [OF log_step [OF fail_only [OF reject(4)]], of W]) (auto split: if_splits)
  then show ?thesis using reject by simp
next
  case (book W i e p ts w r w')
  then have rd: "read_ok (db w) e p" using assms(4) by (auto simp: phases_ok_def)
  have "shop_ok (db w') \<and> phases_ok (db w') (W(i \<mapsto> Closing e r))"
    using assms(3,4) book by (intro phases_ok_step [OF book_ok [OF _ rd book(4)], of W]) (auto split: if_splits)
  then show ?thesis using book by simp
next
  case (close W i e r w z w')
  have "shop_ok (db w') \<and> phases_ok (db w') (W(i := None))"
    using assms(3,4) close
    by (intro phases_ok_step [OF log_step [OF finish_only [OF close(4)]], of W]) (auto split: if_splits)
  then show ?thesis using close by simp
next
  case (crash d W i)
  have "shop_ok d \<and> phases_ok d (W(i := None))"
    using assms(3,4) crash keeps_refl by (intro phases_ok_step [of d d W]) (auto split: if_splits)
  then show ?thesis using crash by simp
next
  case (lease ts w r w' W)
  then show ?thesis using phases_ok_step [OF log_step [OF log_only(1) [OF lease(3)]], of W W] assms(3,4) by simp
next
  case (log e ts w r w' W)
  then show ?thesis using phases_ok_step [OF log_step [OF log_only(2) [OF log(3)]], of W W] assms(3,4) by simp
next
  case (sell w W provider u sku)
  then show ?thesis using phases_ok_step [OF sell_ok [OF assms(2)], of w W W] assms(3,4) by simp
next
  case (other d d' W)
  then show ?thesis using phases_ok_step [OF foreign_ok [OF _ other(3)], of W W] assms(3,4) by simp
qed

abbreviation idle :: "nat \<Rightarrow> phase option" where
  "idle \<equiv> \<lambda>_. None"

lemma workers_ok:
  assumes "small_catalog s" "(worker_step s)\<^sup>*\<^sup>* (empty_db, idle) (d, W)"
  shows "shop_ok d"
proof -
  have "shop_ok (fst y) \<and> phases_ok (fst y) (snd y)" if "(worker_step s)\<^sup>*\<^sup>* (empty_db, idle) y" for y
    using that
  proof (induction rule: rtranclp_induct)
    case base
    show ?case by (simp add: shop_ok_def phases_ok_def credits_inv_empty)
  qed (use worker_step_ok [OF _ assms(1)] in blast)
  from this [OF assms(2)] show ?thesis by simp
qed

section \<open>The operations are runs of their pieces\<close>

lemma processOne_splits:
  assumes cs: "ps_ledger s = CreditsService" and free: "None \<in> range W" and run: "processOne s e w = (x, w')"
  shows "(worker_step s)\<^sup>*\<^sup>* (db w, W) (db w', W)"
proof -
  note unfold = processOne_def bind_io_def read_io_def try_io_def return_io_def
  let ?claim = "update_events (\<lambda>r. is_event e r \<and> waiting r) (claim_row (pnow w))"
  from free obtain i where W: "W i = None" by (metis rangeE)
  then have none: "W(i := None) = W" by auto
  obtain n w1 where c: "stmt ?claim w = (n, w1)" by fastforce
  show ?thesis
  proof (cases "n = Inr 0 \<or> (\<exists>err. n = Inl err)")
    case True
    then have "w' = w1" using run c by (auto simp: unfold)
    moreover have "db w1 = db w" using True c by (auto simp: stmt_Inr update_events_def update_where_id dest: stmt_Inl)
    ultimately show ?thesis by simp
  next
    case False
    then obtain k where k: "n = Inr k" "k \<noteq> 0" by (cases n) auto
    have 1: "worker_step s (db w, W) (db w1, W(i \<mapsto> Claimed e (pnow w)))" using c k by (intro worker_step.claim [where W = W and i = i, OF W]) simp_all
    obtain l w2 where l: "PurchaseOf (ev_PurchaseID e) w1 = (l, w2)" by fastforce
    have d2: "db w2 = db w1" using PurchaseOf_any [OF l] by simp
    show ?thesis
    proof (cases "\<exists>p. l = Inr p \<and> \<not> identity_conflict e p")
      case True
      then obtain p where p: "l = Inr p" "\<not> identity_conflict e p" by blast
      obtain r w3 where tx: "transaction (process_tx e p (pnow w)) w2 = (r, w3)" by fastforce
      have fin: "finish_event e r w3 = (x, w')" using run c k l p tx cs by (simp add: unfold)
      have "worker_step s (db w1, W(i \<mapsto> Claimed e (pnow w))) (db w2, W(i \<mapsto> Loaded e p (pnow w)))"
        using worker_step.load [of "W(i \<mapsto> Claimed e (pnow w))" i e "pnow w" w1 p w2 s] l p by simp
      moreover have "worker_step s (db w2, W(i \<mapsto> Loaded e p (pnow w))) (db w3, W(i \<mapsto> Closing e r))"
        using worker_step.book [of "W(i \<mapsto> Loaded e p (pnow w))" i e p "pnow w" w2 r w3 s] tx by simp
      moreover have "worker_step s (db w3, W(i \<mapsto> Closing e r)) (db w', W)"
        using worker_step.close [of "W(i \<mapsto> Closing e r)" i e r w3 x w' s] fin none by simp
      ultimately show ?thesis using 1 by (meson converse_rtranclp_into_rtranclp r_into_rtranclp)
    next
      case False
      then obtain err where f: "fail e err w2 = (x, w')"
        using run c k l by (cases l) (auto simp: unfold split: if_splits)
      have "worker_step s (db w1, W(i \<mapsto> Claimed e (pnow w))) (db w', W)"
        using worker_step.reject [of "W(i \<mapsto> Claimed e (pnow w))" i e "pnow w" err w2 x w' s] f none d2 by simp
      then show ?thesis using 1 by (meson converse_rtranclp_into_rtranclp r_into_rtranclp)
    qed
  qed
qed

lemma process_events_splits:
  assumes "ps_ledger s = CreditsService" "None \<in> range W"
  shows "(worker_step s)\<^sup>*\<^sup>* (db w, W) (db (snd (process_events s es w)), W)"
proof (induction es arbitrary: w)
  case (Cons e es)
  obtain x w1 where run: "processOne s e w = (x, w1)" by fastforce
  then show ?case using processOne_splits [OF assms run] Cons.IH [of w1]
    by (cases x) (auto simp: bind_io_def intro: rtranclp_trans)
qed (simp add: return_io_def)

lemma ProcessPending_splits:
  assumes "ps_ledger s = CreditsService" "None \<in> range W"
  shows "(worker_step s)\<^sup>*\<^sup>* (db w, W) (db (snd (ProcessPending s limit w)), W)"
proof -
  let ?q = "query (\<lambda>d. Inr (pending_events (if limit \<le> 0 then 100 else limit) d))"
  obtain n w1 where c: "stmt (update_events (lease_expired (pnow w)) expire_lease) w = (n, w1)" by fastforce
  obtain l w2 where q: "?q w1 = (l, w2)" by fastforce
  have d2: "db w2 = db w1" using query_any [OF q] by simp
  have 1: "worker_step s (db w, W) (db w1, W)" by (rule worker_step.lease [OF c])
  have 2: "(worker_step s)\<^sup>*\<^sup>* (db w1, W) (db (snd (process_events s es w2)), W)" for es
    using process_events_splits [OF assms, of w2 es] d2 by simp
  show ?thesis using 1 2 c q d2
    by (cases n; cases l) (auto simp: ProcessPending_def bind_io_def read_io_def intro: converse_rtranclp_into_rtranclp)
qed

lemma Receive_splits:
  assumes "ps_ledger s = CreditsService" "None \<in> range W"
  shows "(worker_step s)\<^sup>*\<^sup>* (db w, W) (db (snd (Receive s e w)), W)"
proof -
  obtain n w1 where c: "stmt (insert_event (new_event_row e (pnow w))) w = (n, w1)" by fastforce
  let ?q = "query (\<lambda>d. row_or_none (find (is_event e) (payment_events d)))"
  obtain l w2 where q: "?q w1 = (l, w2)" by fastforce
  have d2: "db w2 = db w1" using query_any [OF q] by simp
  have 1: "worker_step s (db w, W) (db w1, W)" by (rule worker_step.log [OF c])
  have "db (snd (Receive s e w)) \<in> {db w, db w1, db w2, db (snd (ProcessPending s 100 w1)), db (snd (ProcessPending s 100 w2))}"
    using c q by (cases n; cases l) (simp_all add: Receive_def io_defs)
  moreover have "(worker_step s)\<^sup>*\<^sup>* (db w1, W) (db (snd (ProcessPending s 100 w1)), W)"
    "(worker_step s)\<^sup>*\<^sup>* (db w1, W) (db (snd (ProcessPending s 100 w2)), W)"
    using ProcessPending_splits [OF assms, of w1 100] ProcessPending_splits [OF assms, of w2 100] d2 by simp_all
  ultimately show ?thesis using 1 d2 by (auto intro: converse_rtranclp_into_rtranclp)
qed

lemma payment_step_splits:
  assumes "ps_ledger s = CreditsService" "payment_step s d d'" "None \<in> range W"
  shows "(worker_step s)\<^sup>*\<^sup>* (d, W) (d', W)"
  using assms(2)
proof cases
  case (process_one e w)
  then show ?thesis using processOne_splits [OF assms(1,3), of e w] by (cases "processOne s e w") simp
qed (use assms(1,3) Receive_splits ProcessPending_splits worker_step.sell worker_step.other in \<open>auto intro: r_into_rtranclp\<close>)

lemma payment_reachable_splits:
  assumes "ps_ledger s = CreditsService" "payment_reachable s d"
  shows "(worker_step s)\<^sup>*\<^sup>* (empty_db, idle) (d, idle)"
  using assms(2)
proof (induction rule: payment_reachable.induct)
  case (step d d')
  have "None \<in> range idle" by simp
  from rtranclp_trans [OF step.IH payment_step_splits [OF assms(1) step.hyps(2) this]] show ?case .
qed simp

section \<open>Properties\<close>

lemma key_used_once:
  assumes "ledger_wf d" "t \<in> set (credit_transactions d)" "t' \<in> set (credit_transactions d)"
    "t_idempotency_key t = Some k" "t_idempotency_key t' = Some k"
  shows "t' = t"
proof -
  have "distinct (List.map_filter t_idempotency_key (credit_transactions d))" using assms(1) by (simp add: ledger_wf_def)
  then have "distinct (map t_idempotency_key (filter (\<lambda>t. t_idempotency_key t \<noteq> None) (credit_transactions d)))"
    by (simp add: List.map_filter_def distinct_map comp_def inj_on_def)
  from key_inj [OF this, of t' t] show ?thesis using assms by simp
qed

text \<open>C7: workers may interleave. However the pieces of any number of workers, deliveries and purchases interleave, with crashes,
  expired leases and faults, the ledger invariant holds, and every ledger row that a purchase caused belongs to the
  buyer, is the grant of exactly the bought credits or a refund of at most these, and carries a key of the
  purchase's provider that no other row carries: no payment is credited twice and no event taken back twice.\<close>

theorem workers_interleave_safely:
  assumes "small_catalog s" "(worker_step s)\<^sup>*\<^sup>* (empty_db, \<lambda>_. None) (d, W)"
    "t \<in> set (credit_transactions d)" "purchase_ref t = Some pid"
  shows "credits_inv d \<and> (\<exists>p \<in> set (payment_purchases d). p_id p = pid \<and> caused_by t p) \<and>
     (\<forall>t' \<in> set (credit_transactions d). t_idempotency_key t' = t_idempotency_key t \<longrightarrow> t' = t)"
proof -
  have ok: "shop_ok d" by (rule workers_ok [OF assms(1,2)])
  then have inv: "credits_inv d" by (simp add: shop_ok_def)
  from ok assms(3,4) obtain p where p: "p \<in> set (payment_purchases d)" "p_id p = pid" "caused_by t p"
    unfolding shop_ok_def by blast
  then obtain k where "t_idempotency_key t = Some k" by (auto simp: caused_by_def split: if_splits)
  then show ?thesis using inv p key_used_once [OF credits_inv_wf [OF inv] assms(3)] by auto
qed

theorem workers_interleave_safely_witness:
  "credits_inv paid_shop \<and>
   (\<exists>p \<in> set (payment_purchases paid_shop). p_id p = ''000102030405060708090a0b0c0d0e0f'' \<and> caused_by (hd (credit_transactions paid_shop)) p)"
proof -
  have run: "(worker_step sample_payments)\<^sup>*\<^sup>* (empty_db, \<lambda>_. None) (paid_shop, \<lambda>_. None)"
    by (rule payment_reachable_splits [OF sample_payments_ok(1) paid_shop_reachable])
  have row: "hd (credit_transactions paid_shop) \<in> set (credit_transactions paid_shop)"
    "purchase_ref (hd (credit_transactions paid_shop)) = Some ''000102030405060708090a0b0c0d0e0f''"
    by (simp_all add: paid_shop_value purchase_ref_def)
  from workers_interleave_safely [OF sample_payments_ok(2) run row] show ?thesis by simp
qed

text \<open>
  The check of the payment's identity is made on the purchase as it was read, too: two payments for one purchase that
  are both read before either is written credit it twice. (One after the other, the second is refused.)
\<close>

definition two_payments :: database where
  "two_payments = sample_shop\<lparr>payment_events := map (claim_row 1786752000) [new_event_row (sample_event ''e1'' ''paid'' 0) 1786752000,
     new_event_row ((sample_event ''e2'' ''paid'' 0)\<lparr>ev_PaymentID := ''pi2''\<rparr>) 1786752000]\<rparr>"

lemma two_payments_credit_twice:
  "case transaction (process_tx (sample_event ''e1'' ''paid'' 0) (purchase_of_row sample_purchase) 1786752000) (sample_world two_payments) of
     (x, w1) \<Rightarrow>
   (case transaction (process_tx ((sample_event ''e2'' ''paid'' 0)\<lparr>ev_PaymentID := ''pi2''\<rparr>) (purchase_of_row sample_purchase) 1786752000)
     w1 of (y, w2) \<Rightarrow> x = Inr Applied \<and> y = Inr Applied \<and> grants_for (db w2) ''pu1'' = 200)"
  by code_simp

end
