(* ===== verification/Migrations.thy ===== *)
theory Migrations
  imports Payments
begin

text \<open>
  The schema of the database and how it is brought up to date: \<open>schemaV1SQL\<close> and \<open>schemaSQL\<close> of \<open>src/credits/schema.go\<close>,
  \<open>EnsureSchema\<close> and \<open>applyMigration\<close> of \<open>src/credits/migrations.go\<close>, the function \<open>New\<close> of \<open>src/credits/credits.go\<close>, and
  the function \<open>New\<close> of \<open>src/payments/payments.go\<close> with \<open>src/payments/schema.sql\<close>.

  A DDL statement is a value of \<open>ddl\<close>; running it changes the catalogue \<open>table_columns\<close>, \<open>table_indexes\<close> of the database the way
  SQLite does, and a new column is filled with its default in every row. Types and constraints of columns are part of the
  tables' statements in the other theories. A script is sent as one call but runs statement by statement: outside a transaction a
  fault in the middle leaves the statements before it in effect.
\<close>

section \<open>Data definition\<close>

datatype ddl =
    Pragma string
  | CreateTable string "string list"
  | CreateIndex string string "string list"
  | AddColumn string string

definition columns_of :: "database \<Rightarrow> string \<Rightarrow> string list option" where
  "columns_of d t = map_of (table_columns d) t"

text \<open>The default a new column gets in the rows that are already there.\<close>

definition fill_column :: "string \<Rightarrow> string \<Rightarrow> database \<Rightarrow> database" where
  "fill_column t c d =
     (if t = ''byok_credentials'' \<and> c = ''version'' then d\<lparr>byok_credentials := map (k_version_update (\<lambda>_. 1)) (byok_credentials d)\<rparr>
      else if t = ''byok_credentials'' \<and> c = ''previous_key'' then d\<lparr>byok_credentials := map (k_previous_key_update (\<lambda>_. None)) (byok_credentials d)\<rparr>
      else if t = ''payment_subscriptions'' then
        d\<lparr>payment_subscriptions := map
          (if c = ''trial_start'' then q_trial_start_update (\<lambda>_. 0)
           else if c = ''trial_end'' then q_trial_end_update (\<lambda>_. 0)
           else if c = ''cancel_at'' then q_cancel_at_update (\<lambda>_. 0)
           else if c = ''cancel_at_period_end'' then q_cancel_at_period_end_update (\<lambda>_. 0)
           else if c = ''canceled_at'' then q_canceled_at_update (\<lambda>_. 0)
           else id) (payment_subscriptions d)\<rparr>
      else d)"

fun exec_ddl :: "ddl \<Rightarrow> database \<Rightarrow> error + (unit \<times> database)" where
  "exec_ddl (Pragma _) d = Inr ((), d)"
| "exec_ddl (CreateTable t cs) d =
     Inr ((), case columns_of d t of None \<Rightarrow> d\<lparr>table_columns := table_columns d @ [(t, cs)]\<rparr> | Some _ \<Rightarrow> d)"
| "exec_ddl (CreateIndex i t cs) d =
     (if i \<in> set (table_indexes d) then Inr ((), d)
      else case columns_of d t of
        None \<Rightarrow> Inl (ErrDb (''no such table: main.'' @ t))
      | Some have \<Rightarrow>
          if list_all (\<lambda>c. c \<in> set have) cs then Inr ((), d\<lparr>table_indexes := table_indexes d @ [i]\<rparr>)
          else Inl (ErrDb (''table '' @ t @ '' has no such column'')))"
| "exec_ddl (AddColumn t c) d =
     (case columns_of d t of
        None \<Rightarrow> Inl (ErrDb (''no such table: '' @ t))
      | Some have \<Rightarrow>
          if c \<in> set have then Inl (ErrDb (''duplicate column name: '' @ c))
          else Inr ((), fill_column t c (d\<lparr>table_columns := map (\<lambda>(n, cs). (n, if n = t then cs @ [c] else cs)) (table_columns d)\<rparr>)))"

fun exec_script :: "ddl list \<Rightarrow> world \<Rightarrow> (error + unit) \<times> world" where
  "exec_script [] = return_io ()"
| "exec_script (x # xs) = bind_io (stmt (exec_ddl x)) (\<lambda>_. exec_script xs)"

definition schemaV1SQL :: "ddl list" where
  "schemaV1SQL =
     [Pragma ''foreign_keys = ON'',
      CreateTable ''credit_accounts'' [''user_id'', ''balance'', ''updated_at''],
      CreateTable ''credit_transactions'' [''id'', ''user_id'', ''amount'', ''type'', ''source'', ''reference_id'', ''idempotency_key'', ''metadata'', ''created_at''],
      CreateIndex ''idx_credit_tx_user'' ''credit_transactions'' [''user_id'', ''created_at''],
      CreateTable ''credit_reservations'' [''id'', ''user_id'', ''request_id'', ''amount'', ''captured_amount'', ''released_amount'', ''status'', ''created_at'', ''updated_at''],
      CreateTable ''llm_usage'' [''id'', ''request_id'', ''user_id'', ''provider'', ''model'', ''billing_mode'', ''input_tokens'', ''output_tokens'', ''cached_input_tokens'',
        ''reasoning_tokens'', ''estimated_cost_microunits'', ''actual_cost_microunits'', ''credits_charged'', ''pricing_version'', ''created_at''],
      CreateIndex ''idx_llm_usage_user'' ''llm_usage'' [''user_id'', ''created_at''],
      CreateIndex ''idx_llm_usage_model'' ''llm_usage'' [''model''],
      CreateTable ''byok_credentials'' [''user_id'', ''provider'', ''encrypted_key'', ''created_at'', ''updated_at''],
      CreateTable ''subscriptions'' [''user_id'', ''plan'', ''status'', ''created_at'', ''updated_at'']]"

abbreviation outbox_columns :: "string list" where
  "outbox_columns \<equiv> [''request_id'', ''user_id'', ''reservation_id'', ''provider'', ''model'', ''status'', ''attempt_count'', ''last_error'', ''created_at'', ''updated_at'']"

definition schemaSQL :: "ddl list" where
  "schemaSQL =
     [Pragma ''foreign_keys = ON'',
      CreateTable ''credit_accounts'' [''user_id'', ''balance'', ''updated_at''],
      CreateTable ''credit_transactions'' [''id'', ''user_id'', ''amount'', ''type'', ''source'', ''reference_id'', ''idempotency_key'', ''metadata'', ''created_at''],
      CreateIndex ''idx_credit_tx_user'' ''credit_transactions'' [''user_id'', ''created_at''],
      CreateTable ''credit_reservations'' [''id'', ''user_id'', ''request_id'', ''amount'', ''captured_amount'', ''released_amount'', ''status'', ''created_at'', ''updated_at''],
      CreateIndex ''idx_credit_reservations_stale'' ''credit_reservations'' [''status'', ''created_at''],
      CreateTable ''llm_usage'' [''id'', ''request_id'', ''user_id'', ''provider'', ''model'', ''billing_mode'', ''input_tokens'', ''output_tokens'', ''cached_input_tokens'',
        ''reasoning_tokens'', ''estimated_cost_microunits'', ''actual_cost_microunits'', ''credits_charged'', ''pricing_version'', ''created_at''],
      CreateIndex ''idx_llm_usage_user'' ''llm_usage'' [''user_id'', ''created_at''],
      CreateIndex ''idx_llm_usage_model'' ''llm_usage'' [''model''],
      CreateTable ''byok_credentials'' [''user_id'', ''provider'', ''encrypted_key'', ''version'', ''previous_key'', ''created_at'', ''updated_at''],
      CreateTable ''subscriptions'' [''user_id'', ''plan'', ''status'', ''created_at'', ''updated_at''],
      CreateTable ''settlement_outbox'' outbox_columns,
      CreateIndex ''idx_settlement_outbox_pending'' ''settlement_outbox'' [''status'', ''created_at'']]"

section \<open>Migrations\<close>

record migration =
  mg_version :: int
  mg_sql :: "ddl list"

definition migration3 :: "ddl list" where
  "migration3 =
     [AddColumn ''byok_credentials'' ''version'', AddColumn ''byok_credentials'' ''previous_key'',
      CreateTable ''settlement_outbox'' outbox_columns,
      CreateIndex ''idx_settlement_outbox_pending'' ''settlement_outbox'' [''status'', ''created_at'']]"

definition migrations :: "migration list" where
  "migrations =
     [\<lparr>mg_version = 1, mg_sql = schemaV1SQL\<rparr>,
      \<lparr>mg_version = 2, mg_sql = [CreateIndex ''idx_credit_reservations_stale'' ''credit_reservations'' [''status'', ''created_at'']]\<rparr>,
      \<lparr>mg_version = 3, mg_sql = migration3\<rparr>]"

definition schemaVersion :: int where "schemaVersion = 3"

text \<open>The loop of \<open>contains\<close>.\<close>

definition contains :: "string \<Rightarrow> string \<Rightarrow> bool" where
  "contains s sub \<longleftrightarrow>
     length s \<ge> length sub \<and> list_ex (\<lambda>i. take (length sub) (drop i s) = sub) [0 ..< length s - length sub + 1]"

definition isAlreadyExists :: "error \<Rightarrow> bool" where
  "isAlreadyExists err \<longleftrightarrow> contains (error_text err) ''already exists'' \<or> contains (error_text err) ''duplicate column''"

definition isMigrationAlreadyApplied :: "error \<Rightarrow> bool" where
  "isMigrationAlreadyApplied err \<longleftrightarrow> err = ErrNoRows"

text \<open>\<open>fmt.Errorf("...: %w", err)\<close>; \<open>sql.ErrNoRows\<close> is the one error whose identity is looked at afterwards.\<close>

definition wrap_err :: "string \<Rightarrow> error \<Rightarrow> error" where
  "wrap_err msg err = (if err = ErrNoRows then ErrNoRows else ErrMsg (msg @ error_text err))"

definition wrapping :: "string \<Rightarrow> (world \<Rightarrow> (error + 'a) \<times> world) \<Rightarrow> world \<Rightarrow> (error + 'a) \<times> world" where
  "wrapping msg m =
     bind_io (try_io m) (\<lambda>r. case r of Inl err \<Rightarrow> throw_io (wrap_err msg err) | Inr x \<Rightarrow> return_io x)"

definition insert_version :: "int \<Rightarrow> int \<Rightarrow> database \<Rightarrow> error + (unit \<times> database)" where
  "insert_version v ts d =
     (if list_ex (\<lambda>(x, _). x = v) (credits_schema_migrations d) then Inl (SqlUnique ''credits_schema_migrations.version'')
      else Inr ((), d\<lparr>credits_schema_migrations := credits_schema_migrations d @ [(v, ts)]\<rparr>))"

text \<open>The statements of migration 3, one by one, where the errors of \<open>isAlreadyExists\<close> are passed over.\<close>

fun exec_each :: "ddl list \<Rightarrow> world \<Rightarrow> (error + unit) \<times> world" where
  "exec_each [] = return_io ()"
| "exec_each (x # xs) =
     bind_io (try_io (stmt (exec_ddl x))) (\<lambda>r.
     case r of
       Inl err \<Rightarrow> if isAlreadyExists err then exec_each xs else throw_io err
     | Inr _ \<Rightarrow> exec_each xs)"

definition applyMigration :: "migration \<Rightarrow> world \<Rightarrow> (error + unit) \<times> world" where
  "applyMigration m =
     transaction (
       bind_io (wrapping (''credits: migration '' @ sprint_int (mg_version m) @ '': '')
         (if mg_version m = 3 then exec_each migration3 else exec_script (mg_sql m))) (\<lambda>_.
       bind_io (read_io now) (\<lambda>ts.
       bind_io (wrapping (''credits: migration '' @ sprint_int (mg_version m) @ '' record: '') (stmt (insert_version (mg_version m) ts))) (\<lambda>_.
       return_io (Commit ())))))"

fun apply_migrations :: "int \<Rightarrow> migration list \<Rightarrow> world \<Rightarrow> (error + unit) \<times> world" where
  "apply_migrations current [] = return_io ()"
| "apply_migrations current (m # ms) =
     (if mg_version m \<le> current then apply_migrations current ms
      else bind_io (try_io (applyMigration m)) (\<lambda>r.
        case r of
          Inl err \<Rightarrow> if isMigrationAlreadyApplied err then apply_migrations current ms else throw_io err
        | Inr _ \<Rightarrow> apply_migrations current ms))"

text \<open>\<open>SELECT COALESCE(MAX(version), 0) FROM credits_schema_migrations\<close>.\<close>

definition current_version :: "database \<Rightarrow> int" where
  "current_version d = (if credits_schema_migrations d = [] then 0 else Max (set (map fst (credits_schema_migrations d))))"

definition EnsureSchema :: "world \<Rightarrow> (error + unit) \<times> world" where
  "EnsureSchema =
     bind_io (stmt (exec_ddl (CreateTable ''credits_schema_migrations'' [''version'', ''applied_at'']))) (\<lambda>_.
     bind_io (query (\<lambda>d. Inr (current_version d))) (\<lambda>current.
     if current > schemaVersion
     then throw_io (ErrMsg (''credits: database schema '' @ sprint_int current @ '' is newer than supported '' @ sprint_int schemaVersion))
     else bind_io (apply_migrations current migrations) (\<lambda>_.
       wrapping ''credits: ensure schema: '' (exec_script schemaSQL))))"

section \<open>The constructors\<close>

record Config =
  cf_DefaultBillingMode :: string
  cf_MonthlyCredits :: int
  cf_PlanMonthlyCredits :: "string \<rightharpoonup> int"
  cf_ReservationTimeout :: int
  cf_PricingReader :: "(error + pricingFile) option"
  cf_PricingVersion :: string

text \<open>\<open>credits.New\<close>: the configuration with its defaults, the prices, and the schema.\<close>

definition config_defaults :: "Config \<Rightarrow> Config" where
  "config_defaults cfg =
     cfg\<lparr>cf_DefaultBillingMode := (if cf_DefaultBillingMode cfg = [] then ''explicit'' else cf_DefaultBillingMode cfg),
         cf_ReservationTimeout := (if cf_ReservationTimeout cfg \<le> 0 then 5 * 60 * 1000000000 else cf_ReservationTimeout cfg),
         cf_PricingVersion := (if cf_PricingVersion cfg = [] then ''builtin-2026-08'' else cf_PricingVersion cfg)\<rparr>"

text \<open>
  \<open>OpenSQLite\<close>: what it hands to \<open>sql.Open\<close>, which is a parameter, as the driver is the caller's. \<open>_txlock=immediate\<close> is what
  the transactions of the model rest on.
\<close>

definition sqlite_dsn :: "string \<Rightarrow> string" where
  "sqlite_dsn path =
     ''file:'' @ path @ ''?_txlock=immediate'' @
     ''&_pragma=busy_timeout(10000)&_pragma=journal_mode(WAL)'' @
     ''&_pragma=journal_size_limit(200000000)&_pragma=synchronous(NORMAL)'' @
     ''&_pragma=foreign_keys(ON)&_pragma=temp_store(MEMORY)&_pragma=cache_size(-32000)''"

definition OpenSQLite :: "(string \<Rightarrow> string \<Rightarrow> error + 'h) \<Rightarrow> string \<Rightarrow> string \<Rightarrow> error + 'h" where
  "OpenSQLite sql_Open driverName path = sql_Open driverName (sqlite_dsn path)"

definition NewService :: "Config \<Rightarrow> world \<Rightarrow> (error + Service) \<times> world" where
  "NewService cfg0 =
     (let cfg = config_defaults cfg0
      in case newPricer (cf_PricingReader cfg) (cf_PricingVersion cfg) of
           Inl err \<Rightarrow> throw_io err
         | Inr p \<Rightarrow>
             bind_io EnsureSchema (\<lambda>_.
             return_io \<lparr>MonthlyCredits = cf_MonthlyCredits cfg, PlanMonthlyCredits = cf_PlanMonthlyCredits cfg,
               ReservationTimeout = cf_ReservationTimeout cfg, pricer = p\<rparr>))"

text \<open>\<open>src/payments/schema.sql\<close>.\<close>

definition payments_schema :: "ddl list" where
  "payments_schema =
     [CreateTable ''payments_schema_migrations'' [''version'', ''applied_at''],
      CreateTable ''payment_purchases'' [''id'', ''provider'', ''user_id'', ''sku'', ''credits'', ''currency'', ''amount_minor'', ''payment_id'', ''status'',
        ''created_at'', ''updated_at'', ''fulfilled_at'', ''reversed_at'', ''reversed_credits''],
      CreateTable ''payment_events'' [''provider'', ''event_id'', ''purchase_id'', ''payment_id'', ''status'', ''payload_hash'', ''process_status'',
        ''attempt_count'', ''last_error'', ''received_at'', ''processed_at'', ''lease_until'', ''reversed_minor''],
      CreateIndex ''idx_payment_purchases_user'' ''payment_purchases'' [''user_id'', ''created_at''],
      CreateIndex ''idx_payment_events_pending'' ''payment_events'' [''process_status'', ''received_at''],
      CreateTable ''payment_subscriptions'' [''provider'', ''subscription_id'', ''user_id'', ''plan'', ''status'', ''period_start'', ''period_end'',
        ''last_event_created'', ''updated_at'', ''trial_start'', ''trial_end'', ''cancel_at'', ''cancel_at_period_end'', ''canceled_at'']]"

text \<open>The loop over the \<open>ALTER\<close> statements, whose errors are dropped.\<close>

fun exec_quietly :: "ddl list \<Rightarrow> world \<Rightarrow> (error + unit) \<times> world" where
  "exec_quietly [] = return_io ()"
| "exec_quietly (x # xs) = bind_io (try_io (stmt (exec_ddl x))) (\<lambda>_. exec_quietly xs)"

definition backfill :: "ddl list" where
  "backfill = map (AddColumn ''payment_subscriptions'') [''trial_start'', ''trial_end'', ''cancel_at'', ''cancel_at_period_end'', ''canceled_at'']"

definition insert_payments_version :: "int \<Rightarrow> database \<Rightarrow> error + (unit \<times> database)" where
  "insert_payments_version ts d =
     (if list_ex (\<lambda>(x, _). x = 1) (payments_schema_migrations d) then Inr ((), d)
      else Inr ((), d\<lparr>payments_schema_migrations := payments_schema_migrations d @ [(1, ts)]\<rparr>))"

text \<open>\<open>payments.New\<close>; \<open>connected\<close> says that the database handle is not nil.\<close>

definition NewPayments :: "bool \<Rightarrow> LedgerImpl option \<Rightarrow> (string \<times> CatalogItem) list \<Rightarrow> world \<Rightarrow> (error + PaymentsService) \<times> world" where
  "NewPayments connected ledger catalog =
     (case ledger of
        None \<Rightarrow> throw_io (ErrMsg ''payments: db and ledger are required'')
      | Some l \<Rightarrow>
          if \<not> connected then throw_io (ErrMsg ''payments: db and ledger are required'')
          else if list_ex invalid_item catalog then throw_io (ErrMsg ''payments: invalid catalog item'')
          else bind_io (exec_script payments_schema) (\<lambda>_.
            bind_io (exec_quietly backfill) (\<lambda>_.
            bind_io (read_io pnow) (\<lambda>ts.
            bind_io (try_io (stmt (insert_payments_version ts))) (\<lambda>_.
            return_io \<lparr>ps_ledger = l, ps_catalog = catalog\<rparr>)))))"

lemma contains_iff: "contains s sub \<longleftrightarrow> sublist sub s"
proof
  assume "contains s sub"
  then obtain i where "take (length sub) (drop i s) = sub" unfolding contains_def list_ex_iff by blast
  then have "s = take i s @ sub @ drop (length sub) (drop i s)" by (metis append_take_drop_id)
  then show "sublist sub s" unfolding sublist_def by blast
next
  assume "sublist sub s"
  then obtain a b where s: "s = a @ sub @ b" by (auto simp: sublist_def)
  then show "contains s sub" by (auto simp: contains_def list_ex_iff intro!: bexI [of _ "length a"])
qed

end
