(* ===== verification/Schema_Upgrade.thy ===== *)
theory Schema_Upgrade
  imports Migrations
begin

text \<open>
  The migrations bring every database of an earlier version up to date, keep its data, and survive being interrupted.

  \<open>script_db\<close> and \<open>each_db\<close> are what a script does to the tables when no statement is cut short; \<open>upgradable\<close> is what a database of any
  version up to the current one satisfies, and it holds at every point at which \<open>EnsureSchema\<close> can stop.
\<close>

section \<open>Scripts as functions on the tables\<close>

fun script_db :: "ddl list \<Rightarrow> database \<Rightarrow> database option" where
  "script_db [] d = Some d"
| "script_db (x # xs) d = (case exec_ddl x d of Inl _ \<Rightarrow> None | Inr (_, d') \<Rightarrow> script_db xs d')"

fun each_db :: "ddl list \<Rightarrow> database \<Rightarrow> database option" where
  "each_db [] d = Some d"
| "each_db (x # xs) d =
     (case exec_ddl x d of Inl e \<Rightarrow> if isAlreadyExists e then each_db xs d else None | Inr (_, d') \<Rightarrow> each_db xs d')"

lemma exec_script_any:
  "exec_script ds w = (r, w') \<Longrightarrow> \<exists>k. script_db (take k ds) (db w) = Some (db w') \<and> (r = Inr () \<longrightarrow> k = length ds)"
proof (induction ds arbitrary: w)
  case Nil
  then show ?case by (simp add: return_io_def)
next
  case (Cons x ds)
  obtain y w1 where one: "stmt (exec_ddl x) w = (y, w1)" by fastforce
  show ?case
  proof (cases y)
    case (Inl e)
    then have "r = Inl e" "w' = w1" using Cons.prems one by (auto simp: bind_io_def)
    then show ?thesis using stmt_Inl [of "exec_ddl x" w e w1] one Inl by (intro exI [of _ 0]) simp
  next
    case (Inr u)
    then have "exec_script ds w1 = (r, w')" using Cons.prems one by (simp add: bind_io_def)
    from Cons.IH [OF this] obtain k where k: "script_db (take k ds) (db w1) = Some (db w')" "r = Inr () \<longrightarrow> k = length ds" by blast
    have "exec_ddl x (db w) = Inr (u, db w1)" using one Inr by (auto simp: stmt_Inr)
    then show ?thesis using k by (intro exI [of _ "Suc k"]) simp
  qed
qed

lemma exec_script_ok:
  "faults w = [] \<Longrightarrow> script_db ds (db w) = Some d \<Longrightarrow> exec_script ds w = (Inr (), w\<lparr>db := d\<rparr>)"
  by (induction ds arbitrary: w) (auto simp: io_ok split: sum.splits)

text \<open>Faults whose text is not that of an existing column or table.\<close>

definition clean :: "string option list \<Rightarrow> bool" where
  "clean fs \<longleftrightarrow> (\<forall>msg. Some msg \<in> set fs \<longrightarrow> \<not> isAlreadyExists (ErrDb msg))"

lemma clean_stmt: "clean (faults w) \<Longrightarrow> stmt f w = (r, w') \<Longrightarrow> clean (faults w')"
  by (cases "faults w") (auto simp: clean_def stmt_def Let_def split: option.splits sum.splits prod.splits)

lemma stmt_fault:
  assumes "stmt f w = (Inl e, w')"
  shows "f (db w) = Inl e \<or> (\<exists>msg. Some msg \<in> set (faults w) \<and> e = ErrDb msg)"
  using assms by (cases "faults w") (auto simp: stmt_def Let_def split: option.splits sum.splits prod.splits)

lemma exec_each_Inr:
  "clean (faults w) \<Longrightarrow> exec_each ds w = (Inr x, w') \<Longrightarrow> each_db ds (db w) = Some (db w') \<and> clean (faults w')"
proof (induction ds arbitrary: w)
  case Nil
  then show ?case by (simp add: return_io_def)
next
  case (Cons y ds)
  obtain r w1 where one: "stmt (exec_ddl y) w = (r, w1)" by fastforce
  have c: "clean (faults w1)" using clean_stmt [OF Cons.prems(1) one] .
  show ?case
  proof (cases r)
    case (Inl e)
    then have e: "isAlreadyExists e" "exec_each ds w1 = (Inr x, w')"
      using Cons.prems(2) one by (auto simp: io_defs split: if_splits)
    then have "exec_ddl y (db w) = Inl e" using stmt_fault [of "exec_ddl y" w e w1] one Inl Cons.prems(1) by (auto simp: clean_def)
    moreover have "db w1 = db w" using stmt_Inl [of "exec_ddl y" w e w1] one Inl by simp
    ultimately show ?thesis using Cons.IH [OF c e(2)] e(1) by simp
  next
    case (Inr u)
    then have "exec_each ds w1 = (Inr x, w')" "exec_ddl y (db w) = Inr (u, db w1)"
      using Cons.prems(2) one by (auto simp: io_defs stmt_Inr)
    then show ?thesis using Cons.IH [OF c] by simp
  qed
qed

lemma exec_each_ok:
  "faults w = [] \<Longrightarrow> each_db ds (db w) = Some d \<Longrightarrow> exec_each ds w = (Inr (), w\<lparr>db := d\<rparr>)"
proof (induction ds arbitrary: w)
  case (Cons y ds)
  show ?case
  proof (cases "exec_ddl y (db w)")
    case (Inl e)
    then show ?thesis using Cons by (auto simp: io_defs stmt_def split: if_splits)
  next
    case (Inr ud)
    then show ?thesis using Cons by (cases ud) (simp add: io_ok)
  qed
qed (simp add: return_io_def)

section \<open>What a script of \<open>CREATE ... IF NOT EXISTS\<close> does\<close>

definition tables :: "ddl list \<Rightarrow> (string \<times> string list) list" where
  "tables ds = List.map_filter (\<lambda>x. case x of CreateTable t cs \<Rightarrow> Some (t, cs) | _ \<Rightarrow> None) ds"

definition indexes :: "ddl list \<Rightarrow> string list" where
  "indexes ds = List.map_filter (\<lambda>x. case x of CreateIndex i t cs \<Rightarrow> Some i | _ \<Rightarrow> None) ds"

lemma tables_simps [simp]:
  "tables [] = []" "tables (Pragma s # ds) = tables ds" "tables (CreateTable t cs # ds) = (t, cs) # tables ds"
  "tables (CreateIndex i t cs # ds) = tables ds" "tables (AddColumn t c # ds) = tables ds"
  by (simp_all add: tables_def List.map_filter_simps)

lemma indexes_simps [simp]:
  "indexes [] = []" "indexes (Pragma s # ds) = indexes ds" "indexes (CreateTable t cs # ds) = indexes ds"
  "indexes (CreateIndex i t cs # ds) = i # indexes ds" "indexes (AddColumn t c # ds) = indexes ds"
  by (simp_all add: indexes_def List.map_filter_simps)

definition has_table :: "database \<Rightarrow> string \<times> string list \<Rightarrow> bool" where
  "has_table d = (\<lambda>(t, cs). case columns_of d t of None \<Rightarrow> False | Some have \<Rightarrow> set cs \<subseteq> set have)"

text \<open>No table stands in the way: a table of the script is absent or has the columns it needs.\<close>

definition compatible :: "(string \<times> string list) list \<Rightarrow> database \<Rightarrow> bool" where
  "compatible ts d \<longleftrightarrow> (\<forall>(t, cs) \<in> set ts. columns_of d t = None \<or> has_table d (t, cs))"

definition same_but_catalogue :: "database \<Rightarrow> database \<Rightarrow> bool" where
  "same_but_catalogue d d' \<longleftrightarrow>
     d'\<lparr>table_columns := [], table_indexes := []\<rparr> = d\<lparr>table_columns := [], table_indexes := []\<rparr>"

definition creating :: "ddl list \<Rightarrow> bool" where
  "creating ds \<longleftrightarrow> list_all (\<lambda>x. case x of AddColumn _ _ \<Rightarrow> False | _ \<Rightarrow> True) ds"

text \<open>The scripts: only creations, distinct tables, and every index on columns of a table created before it.\<close>

fun wf_script :: "(string \<times> string list) list \<Rightarrow> ddl list \<Rightarrow> bool" where
  "wf_script S [] = True"
| "wf_script S (Pragma _ # ds) = wf_script S ds"
| "wf_script S (CreateTable t cs # ds) = wf_script ((t, cs) # S) ds"
| "wf_script S (CreateIndex i t cs # ds) = (list_ex (\<lambda>(n, cols). n = t \<and> list_all (\<lambda>c. c \<in> set cols) cs) S \<and> wf_script S ds)"
| "wf_script S (AddColumn _ _ # ds) = False"

lemma columns_of_append [simp]:
  "columns_of (d\<lparr>table_columns := table_columns d @ [(t, cs)]\<rparr>) n =
     (case columns_of d n of None \<Rightarrow> if n = t then Some cs else None | Some h \<Rightarrow> Some h)"
  by (auto simp: columns_of_def map_of_append map_add_def split: option.splits)

lemma columns_of_index [simp]: "columns_of (d\<lparr>table_indexes := is\<rparr>) = columns_of d"
  by (simp add: columns_of_def fun_eq_iff)

lemma same_but_catalogue_simps [simp]:
  "same_but_catalogue d d" "same_but_catalogue d (d\<lparr>table_columns := cs\<rparr>)" "same_but_catalogue d (d\<lparr>table_indexes := is\<rparr>)"
  by (simp_all add: same_but_catalogue_def)

lemma same_but_catalogue_trans: "same_but_catalogue d d1 \<Longrightarrow> same_but_catalogue d1 d2 \<Longrightarrow> same_but_catalogue d d2"
  by (simp add: same_but_catalogue_def)

definition extended :: "(string \<times> string list) list \<Rightarrow> string list \<Rightarrow> database \<Rightarrow> database \<Rightarrow> bool" where
  "extended ts is d d' \<longleftrightarrow>
     same_but_catalogue d d' \<and> set (table_indexes d') = set (table_indexes d) \<union> set is \<and>
     columns_of d' = map_of ts ++ columns_of d"

lemma extended_trans: "extended ts is d d1 \<Longrightarrow> extended us js d1 d2 \<Longrightarrow> extended (ts @ us) (is @ js) d d2"
  unfolding extended_def by (auto dest: same_but_catalogue_trans)

lemma exec_ddl_extended:
  assumes "exec_ddl x d = Inr (u, d')" "creating [x]"
  shows "extended (tables [x]) (indexes [x]) d d'"
proof (cases x)
  case (CreateTable t cs)
  have "columns_of d t = Some h \<Longrightarrow> columns_of d = [t \<mapsto> cs] ++ columns_of d" for h
    by (auto simp: fun_eq_iff map_add_def split: option.splits)
  moreover have "columns_of (d\<lparr>table_columns := table_columns d @ [(t, cs)]\<rparr>) = [t \<mapsto> cs] ++ columns_of d"
    by (auto simp: fun_eq_iff map_add_def split: option.splits)
  ultimately show ?thesis using assms CreateTable by (auto simp: extended_def split: option.splits)
qed (use assms in \<open>auto simp: extended_def creating_def split: option.splits if_splits\<close>)

lemma script_extended:
  assumes "creating ds" "script_db ds d = Some d'"
  shows "extended (tables ds) (indexes ds) d d'"
  using assms
proof (induction ds arbitrary: d)
  case Nil
  then show ?case by (simp add: extended_def)
next
  case (Cons x ds)
  then obtain u d1 where one: "exec_ddl x d = Inr (u, d1)" "script_db ds d1 = Some d'" by (auto split: sum.splits prod.splits)
  have split: "tables (x # ds) = tables [x] @ tables ds" "indexes (x # ds) = indexes [x] @ indexes ds" by (cases x; simp)+
  have "creating [x]" "creating ds" using Cons.prems(1) by (simp_all add: creating_def)
  then show ?case unfolding split using extended_trans exec_ddl_extended [OF one(1)] Cons.IH one(2) by blast
qed

lemma columns_record [simp]: "columns_of (d\<lparr>credits_schema_migrations := vs\<rparr>) = columns_of d"
  by (simp add: columns_of_def fun_eq_iff)

lemma has_table_columns: "columns_of d' = columns_of d \<Longrightarrow> has_table d' = has_table d"
  by (simp add: has_table_def fun_eq_iff)

lemma has_table_extended: "extended ts is d d' \<Longrightarrow> has_table d x \<Longrightarrow> has_table d' x"
  by (auto simp: extended_def has_table_def map_add_def split: prod.splits option.splits)

lemma created_tables:
  assumes "extended ts is d d'" "distinct (map fst ts)" "compatible ts d" "x \<in> set ts"
  shows "has_table d' x"
proof (cases x)
  case (Pair t cs)
  then have "map_of ts t = Some cs" using assms(2,4) by simp
  moreover have "columns_of d t = None \<or> has_table d x" using assms(3,4) Pair unfolding compatible_def by blast
  ultimately show ?thesis using assms(1) Pair has_table_extended [OF assms(1)]
    by (cases "columns_of d t") (auto simp: extended_def has_table_def map_add_def)
qed

lemma compatible_extended:
  assumes "extended ts is d d'" "compatible us d"
    and "\<And>t cs cs'. (t, cs) \<in> set us \<Longrightarrow> map_of ts t = Some cs' \<Longrightarrow> set cs \<subseteq> set cs'"
  shows "compatible us d'"
  unfolding compatible_def
proof (clarify)
  fix t cs assume u: "(t, cs) \<in> set us" "\<not> has_table d' (t, cs)"
  show "columns_of d' t = None"
  proof (cases "columns_of d t")
    case None
    then have "columns_of d' t = map_of ts t" using assms(1) by (simp add: extended_def map_add_def)
    then show ?thesis using assms(3) [OF u(1)] u(2) by (cases "map_of ts t") (auto simp: has_table_def)
  next
    case (Some h)
    then have "has_table d (t, cs)" using assms(2) u(1) by (auto simp: compatible_def)
    then show ?thesis using has_table_extended [OF assms(1)] u(2) by blast
  qed
qed

text \<open>A well-formed script on a compatible database runs through.\<close>

lemma script_ok:
  assumes "wf_script S ds" "\<forall>x \<in> set S. has_table d x" "compatible (tables ds) d" "distinct (map fst (tables ds))"
  shows "\<exists>d'. script_db ds d = Some d'"
  using assms
proof (induction S ds arbitrary: d rule: wf_script.induct)
  case (3 S t cs ds)
  let ?d = "snd (projr (exec_ddl (CreateTable t cs) d))"
  have e: "exec_ddl (CreateTable t cs) d = Inr ((), ?d)" by simp
  have x: "extended [(t, cs)] [] d ?d" using exec_ddl_extended [OF e] by (simp add: creating_def)
  have "has_table ?d (t, cs)" using created_tables [OF x] 3(4) by (simp add: compatible_def)
  moreover have "\<forall>x \<in> set S. has_table ?d x" using has_table_extended [OF x] 3(3) by blast
  moreover have "compatible (tables ds) ?d"
    using 3(4,5) by (intro compatible_extended [OF x]) (auto simp: compatible_def image_iff split: if_splits)
  ultimately show ?case using 3 e by simp
next
  case (4 S i t cs ds)
  then obtain cols where "has_table d (t, cols)" "set cs \<subseteq> set cols" by (fastforce simp: list_ex_iff list_all_iff)
  then obtain h where h: "columns_of d t = Some h" "set cs \<subseteq> set h" by (auto simp: has_table_def split: option.splits)
  let ?d = "if i \<in> set (table_indexes d) then d else d\<lparr>table_indexes := table_indexes d @ [i]\<rparr>"
  have e: "exec_ddl (CreateIndex i t cs) d = Inr ((), ?d)" using h by (auto simp: list_all_iff)
  have c: "columns_of ?d = columns_of d" by simp
  then have "compatible (tables ds) ?d" "\<forall>x \<in> set S. has_table ?d x"
    using 4(3,4) by (simp_all add: compatible_def has_table_columns [OF c])
  then show ?case using 4 e by simp
qed simp_all

section \<open>The scripts of this repository\<close>

lemma script_facts:
  "wf_script [] schemaV1SQL" "wf_script [] schemaSQL" "creating schemaV1SQL" "creating schemaSQL"
  "distinct (map fst (tables schemaV1SQL))" "distinct (map fst (tables schemaSQL))"
  by (code_simp, code_simp, code_simp, code_simp, code_simp, code_simp)

lemma outbox_not_v1: "map_of (tables schemaV1SQL) ''settlement_outbox'' = None"
  by code_simp

lemma byok_columns:
  "has_table d (''byok_credentials'', [''user_id'', ''provider'', ''encrypted_key'', ''version'', ''previous_key'', ''created_at'', ''updated_at'']) \<longleftrightarrow>
   has_table d (''byok_credentials'', [''user_id'', ''provider'', ''encrypted_key'', ''created_at'', ''updated_at'']) \<and>
   has_table d (''byok_credentials'', [''version'']) \<and> has_table d (''byok_credentials'', [''previous_key''])"
  by (auto simp: has_table_def split: option.splits)

lemma full_schema_iff:
  "(\<forall>x \<in> set (tables schemaSQL). has_table d x) \<longleftrightarrow>
   (\<forall>x \<in> set (tables schemaV1SQL). has_table d x) \<and> has_table d (''byok_credentials'', [''version'']) \<and>
   has_table d (''byok_credentials'', [''previous_key'']) \<and> has_table d (''settlement_outbox'', outbox_columns)"
  unfolding schemaSQL_def schemaV1SQL_def tables_simps list.set ball_simps byok_columns by blast

section \<open>One migration\<close>

definition upgradable :: "database \<Rightarrow> bool" where
  "upgradable d \<longleftrightarrow>
     compatible (tables schemaV1SQL) d \<and> compatible [(''settlement_outbox'', outbox_columns)] d \<and>
     (1 \<le> current_version d \<longrightarrow> (\<forall>x \<in> set (tables schemaV1SQL). has_table d x)) \<and>
     (3 \<le> current_version d \<longrightarrow> (\<forall>x \<in> set (tables schemaSQL). has_table d x)) \<and>
     0 \<le> current_version d \<and> current_version d \<le> schemaVersion"

text \<open>The data: every row of every table, but for the two columns that migration 3 adds.\<close>

definition data_of :: "database \<Rightarrow> database" where
  "data_of d = d\<lparr>table_columns := [], table_indexes := [], credits_schema_migrations := [],
     byok_credentials := map (\<lambda>k. k\<lparr>k_version := 0, k_previous_key := None\<rparr>) (byok_credentials d)\<rparr>"

lemma same_but_catalogueD:
  assumes "same_but_catalogue d d'"
  shows "current_version d' = current_version d" "data_of d' = data_of d" "credits_schema_migrations d' = credits_schema_migrations d"
proof -
  let ?e = "\<lambda>d. d\<lparr>table_columns := [], table_indexes := []\<rparr>"
  have e: "?e d' = ?e d" using assms by (simp add: same_but_catalogue_def)
  have "credits_schema_migrations (?e d') = credits_schema_migrations (?e d)" "byok_credentials (?e d') = byok_credentials (?e d)" by (simp_all add: e)
  then show "credits_schema_migrations d' = credits_schema_migrations d" "current_version d' = current_version d" by (simp_all add: current_version_def)
  have "data_of x = data_of (?e x)" for x by (simp add: data_of_def)
  then show "data_of d' = data_of d" using e by metis
qed

definition record_version :: "int \<Rightarrow> int \<Rightarrow> database \<Rightarrow> database" where
  "record_version v ts d = d\<lparr>credits_schema_migrations := credits_schema_migrations d @ [(v, ts)]\<rparr>"

lemma record_version_simps [simp]:
  "columns_of (record_version v ts d) = columns_of d" "data_of (record_version v ts d) = data_of d"
  "has_table (record_version v ts d) = has_table d" "compatible us (record_version v ts d) = compatible us d"
proof -
  show c: "columns_of (record_version v ts d) = columns_of d" by (simp add: record_version_def)
  show "data_of (record_version v ts d) = data_of d" by (simp add: record_version_def data_of_def)
  show "has_table (record_version v ts d) = has_table d" by (rule has_table_columns [OF c])
  then show "compatible us (record_version v ts d) = compatible us d" by (simp only: compatible_def c)
qed

lemma current_record: "current_version d < v \<Longrightarrow> current_version (record_version v ts d) = v"
  unfolding current_version_def record_version_def
  by (cases "credits_schema_migrations d") (auto simp: insert_commute intro!: Max_eqI)

lemma insert_version_fresh:
  assumes "current_version d < v"
  shows "insert_version v ts d = Inr ((), record_version v ts d)"
proof -
  have "x \<le> current_version d" if "(x, y) \<in> set (credits_schema_migrations d)" for x y
    using that unfolding current_version_def by (auto intro!: Max_ge simp: image_iff) (metis fst_conv)
  then show ?thesis using assms by (force simp: insert_version_def record_version_def list_ex_iff)
qed

text \<open>\<open>ALTER TABLE ... ADD COLUMN\<close> where a column that is already there is passed over.\<close>

definition add_col :: "string \<Rightarrow> string \<Rightarrow> database \<Rightarrow> database" where
  "add_col t c d = (case exec_ddl (AddColumn t c) d of Inl _ \<Rightarrow> d | Inr (_, d') \<Rightarrow> d')"

lemma fill_column_catalogue [simp]:
  "columns_of (fill_column t c d) = columns_of d" "credits_schema_migrations (fill_column t c d) = credits_schema_migrations d"
  by (simp_all add: fill_column_def columns_of_def fun_eq_iff)

lemma columns_add_col:
  "columns_of (add_col t c d) n =
     (if n = t then map_option (\<lambda>h. if c \<in> set h then h else h @ [c]) (columns_of d n) else columns_of d n)"
proof -
  have "map_of (map (\<lambda>(n, cs). (n, if n = t then cs @ [c] else cs)) xs) n =
      (if n = t then map_option (\<lambda>h. h @ [c]) (map_of xs n) else map_of xs n)" for xs :: "(string \<times> string list) list"
    by (induction xs) auto
  then have "columns_of (d\<lparr>table_columns := map (\<lambda>(n, cs). (n, if n = t then cs @ [c] else cs)) (table_columns d)\<rparr>) n =
      (if n = t then map_option (\<lambda>h. h @ [c]) (columns_of d n) else columns_of d n)" by (simp add: columns_of_def)
  then show ?thesis by (auto simp: add_col_def split: option.splits)
qed

lemma add_col_tables:
  "has_table d x \<Longrightarrow> has_table (add_col t c d) x" "columns_of d t \<noteq> None \<Longrightarrow> has_table (add_col t c d) (t, [c])"
  "columns_of (add_col t c d) n = None \<longleftrightarrow> columns_of d n = None"
  by (auto simp: has_table_def columns_add_col split: prod.splits option.splits)

lemma add_col_data: "data_of (add_col ''byok_credentials'' c d) = data_of d"
  "credits_schema_migrations (add_col t c d) = credits_schema_migrations d"
  by (auto simp: add_col_def fill_column_def data_of_def split: option.splits)

text \<open>No statement drops a table.\<close>

definition keeps_tables :: "database \<Rightarrow> database \<Rightarrow> bool" where
  "keeps_tables d d' \<longleftrightarrow> (\<forall>t. columns_of d t \<noteq> None \<longrightarrow> columns_of d' t \<noteq> None)"

lemma keeps_tables_simps [simp]: "keeps_tables d d" "keeps_tables d (record_version v ts d)"
  by (simp_all add: keeps_tables_def)

lemma exec_ddl_keeps: "exec_ddl x d = Inr (u, d') \<Longrightarrow> keeps_tables d d'"
proof (cases x)
  case (AddColumn t c)
  assume "exec_ddl x d = Inr (u, d')"
  then have "d' = add_col t c d" using AddColumn by (simp add: add_col_def)
  then show ?thesis using add_col_tables(3) by (simp add: keeps_tables_def del: not_None_eq)
qed (auto simp: keeps_tables_def split: option.splits if_splits)

lemma keeps_tables_trans: "keeps_tables d d1 \<Longrightarrow> keeps_tables d1 d2 \<Longrightarrow> keeps_tables d d2"
  unfolding keeps_tables_def by blast

lemma script_keeps: "script_db ds d = Some d' \<Longrightarrow> keeps_tables d d'"
  by (induction ds arbitrary: d) (auto split: sum.splits dest!: exec_ddl_keeps intro: keeps_tables_trans)

lemma each_keeps: "each_db ds d = Some d' \<Longrightarrow> keeps_tables d d'"
  by (induction ds arbitrary: d) (auto split: sum.splits if_splits dest!: exec_ddl_keeps intro: keeps_tables_trans)

lemma each_add_col:
  assumes "columns_of d t \<noteq> None"
  shows "each_db (AddColumn t c # ds) d = each_db ds (add_col t c d)"
proof -
  have "isAlreadyExists (ErrDb (''duplicate column name: '' @ c))"
    unfolding isAlreadyExists_def contains_iff error_text.simps
    by (rule disjI2) (simp add: sublist_def, rule exI [of _ "[]"], simp)
  then show ?thesis using assms by (auto simp: add_col_def)
qed

definition migrated :: "migration \<Rightarrow> database \<Rightarrow> database option" where
  "migrated m d = (if mg_version m = 3 then each_db migration3 d else script_db (mg_sql m) d)"

lemma v1_byok: "(''byok_credentials'', [''user_id'', ''provider'', ''encrypted_key'', ''created_at'', ''updated_at'']) \<in> set (tables schemaV1SQL)"
  and v1_reservations: "(''credit_reservations'', [''id'', ''user_id'', ''request_id'', ''amount'', ''captured_amount'', ''released_amount'', ''status'',
    ''created_at'', ''updated_at'']) \<in> set (tables schemaV1SQL)"
  by (simp_all add: schemaV1SQL_def)

text \<open>Migration 1 creates the first schema.\<close>

lemma migrate1:
  assumes "upgradable d" "current_version d = 0"
  obtains d' where "script_db schemaV1SQL d = Some d'" "data_of d' = data_of d" "credits_schema_migrations d' = credits_schema_migrations d"
    "\<forall>ts. upgradable (record_version 1 ts d')" "\<forall>ts. current_version (record_version 1 ts d') = 1"
proof -
  have c: "compatible (tables schemaV1SQL) d" "compatible [(''settlement_outbox'', outbox_columns)] d" using assms(1) by (simp_all only: upgradable_def)
  obtain d' where d': "script_db schemaV1SQL d = Some d'" using script_ok [OF script_facts(1) _ c(1) script_facts(5)] by auto
  have x: "extended (tables schemaV1SQL) (indexes schemaV1SQL) d d'" by (rule script_extended [OF script_facts(3) d'])
  have all: "\<forall>x \<in> set (tables schemaV1SQL). has_table d' x" using created_tables [OF x script_facts(5) c(1)] by blast
  have same: "current_version d' = 0" "data_of d' = data_of d" "credits_schema_migrations d' = credits_schema_migrations d"
    using x assms(2) same_but_catalogueD by (auto simp: extended_def)
  have "compatible [(''settlement_outbox'', outbox_columns)] d'"
    by (rule compatible_extended [OF x c(2)]) (use outbox_not_v1 in auto)
  moreover have "compatible (tables schemaV1SQL) d'" using all by (auto simp: compatible_def)
  moreover have cv: "current_version (record_version 1 ts d') = 1" for ts using same(1) by (simp add: current_record)
  ultimately have "upgradable (record_version 1 ts d')" for ts using all by (simp add: upgradable_def schemaVersion_def)
  then show thesis using that d' same cv by blast
qed

text \<open>Migration 2 adds an index.\<close>

lemma migrate2:
  assumes "upgradable d" "current_version d = 1"
  obtains d' where "script_db [CreateIndex ''idx_credit_reservations_stale'' ''credit_reservations'' [''status'', ''created_at'']] d = Some d'"
    "data_of d' = data_of d" "credits_schema_migrations d' = credits_schema_migrations d"
    "\<forall>ts. upgradable (record_version 2 ts d')" "\<forall>ts. current_version (record_version 2 ts d') = 2"
proof -
  let ?ds = "[CreateIndex ''idx_credit_reservations_stale'' ''credit_reservations'' [''status'', ''created_at'']]"
  have all: "\<forall>x \<in> set (tables schemaV1SQL). has_table d x" using assms unfolding upgradable_def by simp
  have "wf_script (tables schemaV1SQL) ?ds" by code_simp
  from script_ok [OF this all] obtain d' where d': "script_db ?ds d = Some d'" by (auto simp: compatible_def)
  have x: "extended (tables ?ds) (indexes ?ds) d d'" by (rule script_extended [OF _ d']) (simp add: creating_def)
  then have col: "columns_of d' = columns_of d" by (simp add: extended_def)
  have same: "current_version d' = 1" "data_of d' = data_of d" "credits_schema_migrations d' = credits_schema_migrations d"
    using x assms(2) same_but_catalogueD by (auto simp: extended_def)
  have cv: "current_version (record_version 2 ts d') = 2" for ts using same(1) by (simp add: current_record)
  moreover have "compatible us d' = compatible us d" for us by (simp only: compatible_def col has_table_columns [OF col])
  ultimately have "upgradable (record_version 2 ts d')" for ts using assms(1) all
    by (simp add: upgradable_def schemaVersion_def has_table_columns [OF col])
  then show thesis using that d' same cv by blast
qed

lemma compatible_add_col: "compatible us d \<Longrightarrow> compatible us (add_col t c d)"
  unfolding compatible_def using add_col_tables(1,3) by blast

text \<open>Migration 3 adds two columns, a table and an index.\<close>

lemma migrate3:
  assumes "upgradable d" "current_version d = 2"
  obtains d' where "each_db migration3 d = Some d'" "data_of d' = data_of d" "credits_schema_migrations d' = credits_schema_migrations d"
    "\<forall>ts. upgradable (record_version 3 ts d')" "\<forall>ts. current_version (record_version 3 ts d') = 3"
proof -
  let ?b = "''byok_credentials''" and ?o = "(''settlement_outbox'', outbox_columns)"
  let ?ds = "[CreateTable ''settlement_outbox'' outbox_columns, CreateIndex ''idx_settlement_outbox_pending'' ''settlement_outbox'' [''status'', ''created_at'']]"
  let ?d1 = "add_col ?b ''version'' d" let ?d2 = "add_col ?b ''previous_key'' ?d1"
  have all: "\<forall>x \<in> set (tables schemaV1SQL). has_table d x" and co: "compatible (tables schemaV1SQL) d" "compatible [?o] d"
    using assms unfolding upgradable_def by simp_all
  have b: "columns_of d ?b \<noteq> None" using bspec [OF all v1_byok] by (auto simp: has_table_def split: option.splits)
  then have b1: "columns_of ?d1 ?b \<noteq> None" by (simp only: add_col_tables(3) not_False_eq_True)
  have all2: "\<forall>x \<in> set (tables schemaV1SQL). has_table ?d2 x" "has_table ?d2 (?b, [''version''])" "has_table ?d2 (?b, [''previous_key''])"
    using all add_col_tables(1,2) b b1 by blast+
  have co2: "compatible (tables schemaV1SQL) ?d2" "compatible [?o] ?d2" using co compatible_add_col by blast+
  have each: "each_db migration3 d = each_db ?ds ?d2" unfolding migration3_def by (simp only: each_add_col [OF b] each_add_col [OF b1])
  have "wf_script [] ?ds" by code_simp
  from script_ok [OF this] obtain d' where d': "script_db ?ds ?d2 = Some d'" using co2(2) by auto
  have x: "extended [?o] (indexes ?ds) ?d2 d'" using script_extended [OF _ d'] by (simp add: creating_def)
  have ox: "has_table d' ?o" by (rule created_tables [OF x _ co2(2)]) simp_all
  have "each_db ?ds ?d2 = Some d'" using d' by (simp only: each_db.simps script_db.simps exec_ddl.simps split: sum.splits prod.splits) (auto split: sum.splits)
  moreover have all': "\<forall>x \<in> set (tables schemaSQL). has_table d' x"
    unfolding full_schema_iff using all2 has_table_extended [OF x] ox by blast
  moreover have same: "current_version d' = 2" "data_of d' = data_of d" "credits_schema_migrations d' = credits_schema_migrations d"
    using x assms(2) same_but_catalogueD [of ?d2 d'] by (auto simp: extended_def add_col_data current_version_def)
  moreover have cv: "current_version (record_version 3 ts d') = 3" for ts using same(1) by (simp add: current_record)
  moreover have "upgradable (record_version 3 ts d')" for ts
    using all' cv unfolding upgradable_def full_schema_iff by (auto simp: compatible_def schemaVersion_def)
  ultimately show thesis using that each by simp
qed

section \<open>The runs\<close>

text \<open>Faults are used up and never appear; the errors of a migration are never \<open>sql.ErrNoRows\<close>.\<close>

definition keeps_clean :: "(world \<Rightarrow> (error + 'a) \<times> world) \<Rightarrow> bool" where
  "keeps_clean m \<longleftrightarrow> (\<forall>w. clean (faults w) \<longrightarrow> clean (faults (snd (m w))))"

definition no_ErrNoRows :: "(world \<Rightarrow> (error + 'a) \<times> world) \<Rightarrow> bool" where
  "no_ErrNoRows m \<longleftrightarrow> (\<forall>w. fst (m w) \<noteq> Inl ErrNoRows)"

named_theorems run_intros "what migrations do to faults and errors"

lemma keeps_clean_stmt [run_intros]: "keeps_clean (stmt f)"
  unfolding keeps_clean_def using clean_stmt [OF _ prod.collapse [symmetric]] by blast

lemma keeps_clean_query [run_intros]: "keeps_clean (query q)"
  unfolding query_def by (rule keeps_clean_stmt)

lemma keeps_clean_basic [run_intros]: "keeps_clean (return_io x)" "keeps_clean (throw_io e)" "keeps_clean (read_io g)"
  by (simp_all add: keeps_clean_def io_defs)

lemma keeps_clean_bind [run_intros]:
  assumes "keeps_clean m" "\<And>x. keeps_clean (f x)"
  shows "keeps_clean (bind_io m f)"
  unfolding keeps_clean_def
proof (intro allI impI)
  fix w :: world assume c: "clean (faults w)"
  obtain r w1 where m: "m w = (r, w1)" by fastforce
  then have "clean (faults w1)" using assms(1) c unfolding keeps_clean_def by (metis snd_conv)
  then show "clean (faults (snd (bind_io m f w)))" using m assms(2) by (cases r) (auto simp: bind_io_def keeps_clean_def)
qed

lemma keeps_clean_more [run_intros]:
  "keeps_clean m \<Longrightarrow> keeps_clean (try_io m)" "keeps_clean m \<Longrightarrow> keeps_clean m' \<Longrightarrow> keeps_clean (if b then m else m')"
  "(\<And>a. keeps_clean (g a)) \<Longrightarrow> (\<And>a. keeps_clean (h a)) \<Longrightarrow> keeps_clean (case s of Inl a \<Rightarrow> g a | Inr a \<Rightarrow> h a)"
  by (auto simp: keeps_clean_def try_io_def split: prod.splits sum.splits)

lemma keeps_clean_transaction [run_intros]:
  assumes "keeps_clean m"
  shows "keeps_clean (transaction m)"
  unfolding keeps_clean_def
proof (intro allI impI)
  fix w :: world assume "clean (faults w)"
  moreover have "clean (faults w2)" if "m w1 = (r, w2)" "clean (faults w1)" for r w1 w2
    using assms that unfolding keeps_clean_def by (metis snd_conv)
  ultimately show "clean (faults (snd (transaction m w)))"
    by (auto simp: transaction_def split: prod.splits sum.splits txout.splits) (blast intro: clean_stmt)+
qed

lemma no_ErrNoRows_basic [run_intros]:
  "no_ErrNoRows (return_io x)" "no_ErrNoRows (read_io g)" "e \<noteq> ErrNoRows \<Longrightarrow> no_ErrNoRows (throw_io e)" "no_ErrNoRows (try_io m)"
  by (auto simp: no_ErrNoRows_def io_defs split: prod.splits)

lemma no_ErrNoRows_stmt:
  assumes "\<And>d. f d \<noteq> Inl ErrNoRows"
  shows "no_ErrNoRows (stmt f)"
  unfolding no_ErrNoRows_def
proof
  fix w :: world
  show "fst (stmt f w) \<noteq> Inl ErrNoRows" using stmt_fault [of f w ErrNoRows] assms [of "db w"] by (cases "stmt f w") auto
qed

lemma no_ErrNoRows_ddl [run_intros]: "no_ErrNoRows (stmt (exec_ddl x))" "no_ErrNoRows (stmt (insert_version v ts))"
proof -
  show "no_ErrNoRows (stmt (exec_ddl x))" by (rule no_ErrNoRows_stmt) (cases x; auto split: option.splits)
  show "no_ErrNoRows (stmt (insert_version v ts))" by (rule no_ErrNoRows_stmt) (simp add: insert_version_def)
qed

lemma no_ErrNoRows_bind [run_intros]: "no_ErrNoRows m \<Longrightarrow> (\<And>x. no_ErrNoRows (f x)) \<Longrightarrow> no_ErrNoRows (bind_io m f)"
  by (auto simp: no_ErrNoRows_def bind_io_def split: prod.splits sum.splits) (metis fst_conv)

lemma no_ErrNoRows_if [run_intros]: "no_ErrNoRows m \<Longrightarrow> no_ErrNoRows m' \<Longrightarrow> no_ErrNoRows (if b then m else m')"
  by simp

lemma no_ErrNoRows_wrapping [run_intros]: "no_ErrNoRows m \<Longrightarrow> no_ErrNoRows (wrapping msg m)"
  by (auto simp: no_ErrNoRows_def wrapping_def io_defs wrap_err_def split: prod.splits sum.splits) (metis fst_conv)

lemma no_ErrNoRows_transaction [run_intros]:
  assumes "no_ErrNoRows m"
  shows "no_ErrNoRows (transaction m)"
proof -
  have "no_ErrNoRows (stmt (\<lambda>d. Inr ((), d)))" by (rule no_ErrNoRows_stmt) simp
  then have "stmt (\<lambda>d. Inr ((), d)) w \<noteq> (Inl ErrNoRows, w')" "m w \<noteq> (Inl ErrNoRows, w')" for w w'
    using assms unfolding no_ErrNoRows_def by (metis fst_conv)+
  then show ?thesis by (auto simp: no_ErrNoRows_def transaction_def split: prod.splits sum.splits txout.splits)
qed

lemma script_runs [run_intros]:
  "keeps_clean (exec_script ds)" "no_ErrNoRows (exec_script ds)" "keeps_clean (exec_each ds)"
  by (induction ds) (auto intro!: run_intros)

lemma no_ErrNoRows_each [run_intros]: "no_ErrNoRows (exec_each ds)"
proof (induction ds)
  case (Cons x ds)
  let ?k = "\<lambda>r :: error + unit. case r of Inl err \<Rightarrow> if isAlreadyExists err then exec_each ds else throw_io err | Inr _ \<Rightarrow> exec_each ds"
  show ?case unfolding no_ErrNoRows_def
  proof
    fix w :: world
    obtain r w1 where one: "stmt (exec_ddl x) w = (r, w1)" by fastforce
    then have "r \<noteq> Inl ErrNoRows" using no_ErrNoRows_ddl(1) [of x] unfolding no_ErrNoRows_def by (metis fst_conv)
    then have k: "no_ErrNoRows (?k r)" using Cons by (cases r) (simp_all add: no_ErrNoRows_basic(3))
    have e: "exec_each (x # ds) w = ?k r w1" using one by (simp add: io_defs)
    show "fst (exec_each (x # ds) w) \<noteq> Inl ErrNoRows" unfolding e using k [unfolded no_ErrNoRows_def] by (rule spec)
  qed
qed (simp add: run_intros)

lemma keeps_clean_wrapping [run_intros]: "keeps_clean m \<Longrightarrow> keeps_clean (wrapping msg m)"
  unfolding wrapping_def by (intro run_intros)

lemma applyMigration_runs [run_intros]: "keeps_clean (applyMigration m)" "no_ErrNoRows (applyMigration m)"
  unfolding applyMigration_def by (intro run_intros)+

definition at_step :: "migration \<Rightarrow> database \<Rightarrow> bool" where
  "at_step m d \<longleftrightarrow> m \<in> set migrations \<and> upgradable d \<and> mg_version m = current_version d + 1"

lemma migrate:
  assumes "at_step m d"
  obtains d' where "migrated m d = Some d'" "data_of d' = data_of d" "credits_schema_migrations d' = credits_schema_migrations d"
    "\<And>ts. upgradable (record_version (mg_version m) ts d')" "\<And>ts. current_version (record_version (mg_version m) ts d') = mg_version m"
proof -
  have u: "upgradable d" using assms by (simp add: at_step_def)
  from assms consider "m = \<lparr>mg_version = 1, mg_sql = schemaV1SQL\<rparr>" "current_version d = 0"
    | "m = \<lparr>mg_version = 2, mg_sql = [CreateIndex ''idx_credit_reservations_stale'' ''credit_reservations'' [''status'', ''created_at'']]\<rparr>" "current_version d = 1"
    | "m = \<lparr>mg_version = 3, mg_sql = migration3\<rparr>" "current_version d = 2"
    unfolding at_step_def migrations_def by auto
  then show thesis
  proof cases
    case 1
    obtain d' where "script_db schemaV1SQL d = Some d'" "data_of d' = data_of d" "credits_schema_migrations d' = credits_schema_migrations d"
      "\<forall>ts. upgradable (record_version 1 ts d')" "\<forall>ts. current_version (record_version 1 ts d') = 1" using migrate1 [OF u 1(2)] by blast
    then show thesis by (intro that [of d']) (simp_all add: 1(1) migrated_def)
  next
    case 2
    obtain d' where "script_db [CreateIndex ''idx_credit_reservations_stale'' ''credit_reservations'' [''status'', ''created_at'']] d = Some d'"
      "data_of d' = data_of d" "credits_schema_migrations d' = credits_schema_migrations d"
      "\<forall>ts. upgradable (record_version 2 ts d')" "\<forall>ts. current_version (record_version 2 ts d') = 2" using migrate2 [OF u 2(2)] by blast
    then show thesis by (intro that [of d']) (simp_all add: 2(1) migrated_def del: script_db.simps)
  next
    case 3
    obtain d' where "each_db migration3 d = Some d'" "data_of d' = data_of d" "credits_schema_migrations d' = credits_schema_migrations d"
      "\<forall>ts. upgradable (record_version 3 ts d')" "\<forall>ts. current_version (record_version 3 ts d') = 3" using migrate3 [OF u 3(2)] by blast
    then show thesis by (intro that [of d']) (simp_all add: 3(1) migrated_def)
  qed
qed

lemma applyMigration_any:
  assumes "at_step m (db w)" "clean (faults w)" "applyMigration m w = (r, w')"
  shows "upgradable (db w') \<and> data_of (db w') = data_of (db w) \<and> keeps_tables (db w) (db w') \<and>
     (case r of Inl e \<Rightarrow> db w' = db w \<and> e \<noteq> ErrNoRows | Inr _ \<Rightarrow> current_version (db w') = mg_version m)"
proof (cases r)
  case (Inl e)
  then have "db w' = db w" using assms(3) transaction_Inl unfolding applyMigration_def by blast
  moreover have "e \<noteq> ErrNoRows" using applyMigration_runs(2) assms(3) Inl unfolding no_ErrNoRows_def by (metis fst_conv)
  ultimately show ?thesis using assms(1) Inl by (simp add: at_step_def)
next
  case (Inr x)
  obtain d' where d': "migrated m (db w) = Some d'" "data_of d' = data_of (db w)" "credits_schema_migrations d' = credits_schema_migrations (db w)"
    "\<forall>ts. upgradable (record_version (mg_version m) ts d')" "\<forall>ts. current_version (record_version (mg_version m) ts d') = mg_version m"
    using migrate [OF assms(1)] by blast
  let ?go = "if mg_version m = 3 then exec_each migration3 else exec_script (mg_sql m)"
  let ?w0 = "w\<lparr>faults := tl (faults w)\<rparr>"
  have c0: "clean (faults ?w0)" using assms(2) by (cases "faults w") (auto simp: clean_def)
  have wr: "m1 w1 = (Inr y, w2)" if "wrapping msg m1 w1 = (Inr y, w2)" for msg and m1 :: "world \<Rightarrow> (error + unit) \<times> world" and w1 y w2
    using that by (auto simp: wrapping_def io_defs split: prod.splits sum.splits)
  obtain w1 w2 where run: "?go ?w0 = (Inr (), w1)" "stmt (insert_version (mg_version m) (now w1)) w1 = (Inr (), w2)" "db w' = db w2"
    using assms(3) [unfolded Inr applyMigration_def]
    by (cases rule: transaction_Inr) (auto simp: bind_io_Inr return_io_Inr read_io_Inr dest!: wr)
  have "migrated m (db w) = Some (db w1)"
    using run(1) exec_each_Inr [OF c0] exec_script_any [of "mg_sql m" ?w0 "Inr ()" w1] by (auto simp: migrated_def split: if_splits)
  then have "db w1 = d'" using d'(1) by simp
  moreover have "current_version d' < mg_version m" using assms(1) d'(3) by (simp add: at_step_def current_version_def)
  ultimately have "db w' = record_version (mg_version m) (now w1) d'"
    using run(2,3) by (auto simp: stmt_Inr insert_version_fresh)
  moreover have "keeps_tables (db w) d'" using d'(1) script_keeps each_keeps by (auto simp: migrated_def split: if_splits)
  ultimately show ?thesis using d' Inr by (simp add: keeps_tables_def)
qed

lemma applyMigration_ok:
  assumes "at_step m (db w)" "faults w = []"
  shows "\<exists>d. applyMigration m w = (Inr (), w\<lparr>db := d\<rparr>)"
proof -
  obtain d' where d': "migrated m (db w) = Some d'" "credits_schema_migrations d' = credits_schema_migrations (db w)"
    using migrate [OF assms(1)] by blast
  let ?go = "if mg_version m = 3 then exec_each migration3 else exec_script (mg_sql m)"
  have go: "?go w = (Inr (), w\<lparr>db := d'\<rparr>)"
    using d'(1) assms(2) exec_each_ok exec_script_ok by (simp add: migrated_def split: if_splits)
  have "current_version d' < mg_version m" using assms(1) d'(2) by (simp add: at_step_def current_version_def)
  then have ins: "insert_version (mg_version m) ts d' = Inr ((), record_version (mg_version m) ts d')" for ts by (rule insert_version_fresh)
  show ?thesis unfolding applyMigration_def
    by (rule exI [of _ "record_version (mg_version m) (now w) d'"]) (simp only: wrapping_def io_ok assms(2) go ins prod.case sum.case, simp add: io_ok assms(2) ins)
qed

end
