(* ===== verification/Startup.thy ===== *)
theory Startup
  imports Schema_Upgrade
begin

text \<open>
  Starting the services on a database of any earlier version: \<open>EnsureSchema\<close> completes the schema and keeps the data, an interrupted
  start is repaired by the next one, and a start on an up-to-date database changes nothing; \<open>payments.New\<close> likewise.
\<close>

section \<open>The loop over the migrations\<close>

lemma apply_migrations_any:
  assumes "set ms \<subseteq> set migrations" "map mg_version ms = [current_version (db w) + 1 .. schemaVersion]" "current \<le> current_version (db w)"
    and "upgradable (db w)" "clean (faults w)" "apply_migrations current ms w = (r, w')"
  shows "upgradable (db w') \<and> data_of (db w') = data_of (db w) \<and> keeps_tables (db w) (db w') \<and> clean (faults w') \<and> (r = Inr () \<longrightarrow> current_version (db w') = schemaVersion)"
  using assms
proof (induction ms arbitrary: w)
  case Nil
  then have "schemaVersion \<le> current_version (db w)" by (metis list.simps(8) upto_Nil2 less_add_one zless_imp_add1_zle linorder_not_le)
  then show ?case using Nil by (auto simp: return_io_def upgradable_def)
next
  case (Cons m ms)
  let ?v = "current_version (db w)"
  have le: "?v + 1 \<le> schemaVersion" using Cons.prems(2) by (metis list.simps(9) list.distinct(1) upto_Nil linorder_not_le)
  then have v: "mg_version m = ?v + 1" "map mg_version ms = [2 + ?v .. schemaVersion]" using Cons.prems(2) by (simp_all add: upto_rec1 add.commute)
  then have at: "at_step m (db w)" using Cons.prems(1,4) by (simp add: at_step_def)
  obtain x w1 where one: "applyMigration m w = (x, w1)" by fastforce
  note any = applyMigration_any [OF at Cons.prems(5) one]
  have cl: "clean (faults w1)" using applyMigration_runs(1) Cons.prems(5) one unfolding keeps_clean_def by (metis snd_conv)
  have run: "apply_migrations current (m # ms) w = (case x of Inl err \<Rightarrow> (if isMigrationAlreadyApplied err then apply_migrations current ms else throw_io err) | Inr _ \<Rightarrow> apply_migrations current ms) w1"
    using v(1) Cons.prems(3) one by (simp add: io_defs)
  show ?case
  proof (cases x)
    case (Inl e)
    then have "r = Inl e" "w' = w1" using any run Cons.prems(6) by (auto simp: isMigrationAlreadyApplied_def throw_io_def)
    then show ?thesis using any cl by simp
  next
    case (Inr u)
    then have "apply_migrations current ms w1 = (r, w')" "current_version (db w1) = ?v + 1" using any run Cons.prems(6) v(1) by simp_all
    then have "upgradable (db w') \<and> data_of (db w') = data_of (db w1) \<and> keeps_tables (db w1) (db w') \<and> clean (faults w') \<and> (r = Inr () \<longrightarrow> current_version (db w') = schemaVersion)"
      using Cons.prems(1,3) v(2) any cl by (intro Cons.IH) simp_all
    then show ?thesis using any by (simp add: keeps_tables_def)
  qed
qed

lemma apply_migrations_ok:
  assumes "set ms \<subseteq> set migrations" "map mg_version ms = [current_version (db w) + 1 .. schemaVersion]" "current \<le> current_version (db w)"
    and "upgradable (db w)" "faults w = []"
  shows "\<exists>d. apply_migrations current ms w = (Inr (), w\<lparr>db := d\<rparr>)"
  using assms
proof (induction ms arbitrary: w)
  case Nil
  then show ?case by (intro exI [of _ "db w"]) (simp add: return_io_def)
next
  case (Cons m ms)
  let ?v = "current_version (db w)"
  have le: "?v + 1 \<le> schemaVersion" using Cons.prems(2) by (metis list.simps(9) list.distinct(1) upto_Nil linorder_not_le)
  then have v: "mg_version m = ?v + 1" "map mg_version ms = [2 + ?v .. schemaVersion]" using Cons.prems(2) by (simp_all add: upto_rec1 add.commute)
  then have at: "at_step m (db w)" using Cons.prems(1,4) by (simp add: at_step_def)
  obtain d where one: "applyMigration m w = (Inr (), w\<lparr>db := d\<rparr>)" using applyMigration_ok [OF at Cons.prems(5)] by blast
  have "upgradable d" "current_version d = ?v + 1"
    using applyMigration_any [OF at _ one] Cons.prems(5) v(1) by (simp_all add: clean_def)
  then have "\<exists>d'. apply_migrations current ms (w\<lparr>db := d\<rparr>) = (Inr (), w\<lparr>db := d, db := d'\<rparr>)"
    using Cons.prems(1,3,5) v(2) by (intro Cons.IH) simp_all
  then show ?case using v(1) Cons.prems(3) one by (auto simp: io_defs)
qed

text \<open>The migrations that are skipped.\<close>

lemma apply_skip:
  assumes "0 \<le> c" "c \<le> schemaVersion"
  obtains ms where "apply_migrations c migrations = apply_migrations c ms" "set ms \<subseteq> set migrations" "map mg_version ms = [c + 1 .. schemaVersion]"
proof -
  have upto: "[1 .. 3] = [1, 2, 3 :: int]" by code_simp
  have c: "c = 0 \<or> c = 1 \<or> c = 2 \<or> c = 3" using assms by (auto simp: schemaVersion_def)
  have "apply_migrations c migrations = apply_migrations c (drop (nat c) migrations) \<and> map mg_version (drop (nat c) migrations) = [c + 1 .. schemaVersion]"
    using c by (elim disjE) (simp_all add: migrations_def schemaVersion_def upto)
  then show thesis by (intro that [of "drop (nat c) migrations"]) (simp_all add: set_drop_subset)
qed

section \<open>The start of the credits service\<close>

abbreviation meta_table :: "string \<times> string list" where
  "meta_table \<equiv> (''credits_schema_migrations'', [''version'', ''applied_at''])"

text \<open>An up-to-date database: all tables with all their columns, all indexes, the version recorded.\<close>

definition up_to_date :: "database \<Rightarrow> bool" where
  "up_to_date d \<longleftrightarrow>
     current_version d = schemaVersion \<and> (\<forall>x \<in> set (tables schemaSQL). has_table d x) \<and>
     set (indexes schemaSQL) \<subseteq> set (table_indexes d) \<and> columns_of d (fst meta_table) \<noteq> None"

lemma full_compatible:
  assumes "\<forall>x \<in> set (tables schemaSQL). has_table d x"
  shows "compatible (tables schemaV1SQL) d" "compatible [(''settlement_outbox'', outbox_columns)] d" "compatible (tables schemaSQL) d"
  using assms assms [unfolded full_schema_iff] by (auto simp: compatible_def)

lemma up_to_date_upgradable: "up_to_date d \<Longrightarrow> upgradable d"
  using full_compatible full_schema_iff [of d] by (auto simp: up_to_date_def upgradable_def schemaVersion_def)

definition credits_tables :: "(string \<times> string list) list" where
  "credits_tables = tables schemaV1SQL @ tables schemaSQL @ [(''settlement_outbox'', outbox_columns)]"

lemma credits_tables_parts:
  "set (tables schemaV1SQL) \<subseteq> set credits_tables" "set (tables schemaSQL) \<subseteq> set credits_tables"
  "set [(''settlement_outbox'', outbox_columns)] \<subseteq> set credits_tables"
  unfolding credits_tables_def by auto

lemma upgradable_cong:
  assumes "upgradable d" "current_version d' = current_version d"
    and cols: "\<And>x. x \<in> set credits_tables \<Longrightarrow> columns_of d' (fst x) = columns_of d (fst x)"
  shows "upgradable d'"
proof -
  have h: "has_table d' x = has_table d x" if "x \<in> set credits_tables" for x
    using cols [OF that] by (cases x) (simp add: has_table_def)
  have c: "compatible us d' = compatible us d" if us: "set us \<subseteq> set credits_tables" for us
    unfolding compatible_def
  proof (rule ball_cong [OF refl])
    fix x assume "x \<in> set us"
    then have x: "x \<in> set credits_tables" using us by blast
    show "(case x of (t, cs) \<Rightarrow> columns_of d' t = None \<or> has_table d' (t, cs)) = (case x of (t, cs) \<Rightarrow> columns_of d t = None \<or> has_table d (t, cs))"
      using h [OF x] cols [OF x] by (simp add: case_prod_beta)
  qed
  show ?thesis using assms(1,2) h credits_tables_parts
    unfolding upgradable_def c [OF credits_tables_parts(1)] c [OF credits_tables_parts(3)] by (simp add: Ball_def subset_iff)
qed

lemma meta_step:
  assumes "upgradable d" "exec_ddl (CreateTable ''credits_schema_migrations'' [''version'', ''applied_at'']) d = Inr (u, d')"
  shows "upgradable d' \<and> data_of d' = data_of d \<and> current_version d' = current_version d \<and> columns_of d' (fst meta_table) \<noteq> None"
proof -
  have x: "extended [meta_table] [] d d'" using exec_ddl_extended [OF assms(2)] by (simp add: creating_def)
  have "list_all (\<lambda>y. map_of [meta_table] (fst y) = None) credits_tables" by code_simp
  then have "columns_of d' (fst y) = columns_of d (fst y)" if "y \<in> set credits_tables" for y
    using that x unfolding extended_def list_all_iff by (auto simp: map_add_def split: option.splits)
  then have "upgradable d'" using upgradable_cong [OF assms(1)] x same_but_catalogueD(1) unfolding extended_def by blast
  moreover have "columns_of d' (fst meta_table) \<noteq> None" using x by (auto simp: extended_def map_add_def split: option.splits)
  ultimately show ?thesis using x same_but_catalogueD by (auto simp: extended_def)
qed

lemma take_script:
  assumes "creating ds" "script_db (take k ds) d = Some d'"
  shows "extended (tables (take k ds)) (indexes (take k ds)) d d'"
  using assms by (intro script_extended) (auto simp: creating_def list_all_iff dest: in_set_takeD)

lemma tables_take: "set (tables (take k ds)) \<subseteq> set (tables ds)"
proof -
  have "tables (xs @ ys) = tables xs @ tables ys" for xs ys unfolding tables_def by (simp add: List.map_filter_def)
  from this [of "take k ds" "drop k ds"] show ?thesis by (metis append_take_drop_id set_append Un_upper1)
qed

lemma final_script:
  assumes "upgradable d" "current_version d = schemaVersion" "script_db (take k schemaSQL) d = Some d'"
  shows "upgradable d' \<and> data_of d' = data_of d \<and> current_version d' = schemaVersion \<and> columns_of d' = columns_of d \<and>
    (\<forall>x \<in> set (tables schemaSQL). has_table d' x) \<and> (k \<ge> length schemaSQL \<longrightarrow> set (indexes schemaSQL) \<subseteq> set (table_indexes d'))"
proof -
  have all: "\<forall>x \<in> set (tables schemaSQL). has_table d x" using assms(1,2) by (simp add: upgradable_def schemaVersion_def)
  have x: "extended (tables (take k schemaSQL)) (indexes (take k schemaSQL)) d d'" by (rule take_script [OF script_facts(4) assms(3)])
  have "columns_of d' t = columns_of d t" for t
  proof (cases "map_of (tables (take k schemaSQL)) t")
    case (Some cs)
    then have "has_table d (t, cs)" using all tables_take [of k schemaSQL] by (meson map_of_SomeD subsetD)
    then show ?thesis using x by (auto simp: extended_def has_table_def map_add_def split: option.splits)
  qed (use x in \<open>auto simp: extended_def map_add_def split: option.splits\<close>)
  then have col: "columns_of d' = columns_of d" by blast
  have cv: "current_version d' = current_version d" "data_of d' = data_of d" using x same_but_catalogueD by (auto simp: extended_def)
  have "upgradable d' = upgradable d" by (simp only: upgradable_def compatible_def has_table_columns [OF col] col cv)
  then show ?thesis using assms(1,2) x cv col all by (auto simp: has_table_columns [OF col] extended_def)
qed

text \<open>Wherever \<open>EnsureSchema\<close> stops, the database is upgradable and its data is intact; if it succeeds, the database is up to date.\<close>

lemma EnsureSchema_any:
  assumes "upgradable (db w)" "clean (faults w)" "EnsureSchema w = (r, w')"
  shows "upgradable (db w') \<and> data_of (db w') = data_of (db w) \<and> (r = Inr () \<longrightarrow> up_to_date (db w'))"
proof -
  let ?mk = "stmt (exec_ddl (CreateTable ''credits_schema_migrations'' [''version'', ''applied_at'']))"
  obtain x1 w1 where mk: "?mk w = (x1, w1)" by fastforce
  have c1: "clean (faults w1)" using clean_stmt [OF assms(2) mk] .
  show ?thesis
  proof (cases x1)
    case (Inl e)
    then show ?thesis using assms mk stmt_Inl [OF mk [unfolded Inl]] by (auto simp: EnsureSchema_def bind_io_def)
  next
    case (Inr u)
    then have "exec_ddl (CreateTable ''credits_schema_migrations'' [''version'', ''applied_at'']) (db w) = Inr (u, db w1)" using mk by (auto simp: stmt_Inr)
    note meta = meta_step [OF assms(1) this]
    obtain x2 w2 where q: "query (\<lambda>d. Inr (current_version d)) w1 = (x2, w2)" by fastforce
    have w2: "db w2 = db w1" "clean (faults w2)" using query_any [OF q] clean_stmt [OF c1] q unfolding query_def by blast+
    show ?thesis
    proof (cases x2)
      case (Inl e)
      then show ?thesis using assms(3) mk Inr q meta w2(1) by (auto simp: EnsureSchema_def bind_io_def)
    next
      case c: (Inr c)
      then have "c = current_version (db w1)" using q by (auto simp: query_Inr)
      then have cv: "c = current_version (db w2)" "0 \<le> c" "c \<le> schemaVersion" using meta w2(1) by (simp_all add: upgradable_def)
      obtain ms where ms: "apply_migrations c migrations = apply_migrations c ms" "set ms \<subseteq> set migrations" "map mg_version ms = [c + 1 .. schemaVersion]"
        using apply_skip [OF cv(2,3)] by blast
      obtain x3 w3 where ap: "apply_migrations c ms w2 = (x3, w3)" by fastforce
      have up: "upgradable (db w3) \<and> data_of (db w3) = data_of (db w2) \<and> keeps_tables (db w2) (db w3) \<and> clean (faults w3) \<and> (x3 = Inr () \<longrightarrow> current_version (db w3) = schemaVersion)"
        by (rule apply_migrations_any [OF ms(2) _ _ _ w2(2) ap]) (use ms(3) cv(1) meta w2(1) in simp_all)
      have run: "EnsureSchema w = (case x3 of Inl e \<Rightarrow> (Inl e, w3) | Inr _ \<Rightarrow> wrapping ''credits: ensure schema: '' (exec_script schemaSQL) w3)"
        using mk Inr q c ap cv(3) by (simp add: EnsureSchema_def bind_io_def ms(1) split: sum.splits)
      show ?thesis
      proof (cases x3)
        case (Inl e)
        then show ?thesis using run assms(3) up w2(1) meta by auto
      next
        case ok: (Inr y)
        obtain x4 w4 where sc: "exec_script schemaSQL w3 = (x4, w4)" by fastforce
        then have r: "w' = w4" "r = Inr () \<longrightarrow> x4 = Inr ()"
          using run ok assms(3) by (auto simp: wrapping_def io_defs split: sum.splits)
        obtain k where k: "script_db (take k schemaSQL) (db w3) = Some (db w4)" "x4 = Inr () \<longrightarrow> k = length schemaSQL"
          using exec_script_any [OF sc] by blast
        have "current_version (db w3) = schemaVersion" using up ok by simp
        note fin = final_script [OF _ this k(1)]
        have "columns_of (db w3) (fst meta_table) \<noteq> None" using up meta w2(1) unfolding keeps_tables_def by metis
        then show ?thesis using fin up r k(2) w2(1) meta by (auto simp: up_to_date_def)
      qed
    qed
  qed
qed

lemma script_idle:
  "creating ds \<Longrightarrow> \<forall>x \<in> set (tables ds). columns_of d (fst x) \<noteq> None \<Longrightarrow> set (indexes ds) \<subseteq> set (table_indexes d) \<Longrightarrow> script_db ds d = Some d"
proof (induction ds)
  case (Cons x ds)
  then show ?case by (cases x) (auto simp: creating_def)
qed simp

lemma EnsureSchema_ok:
  assumes "upgradable (db w)" "faults w = []"
  obtains d where "EnsureSchema w = (Inr (), w\<lparr>db := d\<rparr>)" "up_to_date d" "data_of d = data_of (db w)"
proof -
  let ?x = "CreateTable ''credits_schema_migrations'' [''version'', ''applied_at'']"
  obtain d1 where mk: "exec_ddl ?x (db w) = Inr ((), d1)" by simp
  let ?w1 = "w\<lparr>db := d1\<rparr>"
  note meta = meta_step [OF assms(1) mk]
  define c where "c = current_version d1"
  have c: "0 \<le> c" "c \<le> schemaVersion" using meta by (simp_all add: upgradable_def c_def)
  obtain ms where ms: "apply_migrations c migrations = apply_migrations c ms" "set ms \<subseteq> set migrations" "map mg_version ms = [c + 1 .. schemaVersion]"
    using apply_skip [OF c] by blast
  have "\<exists>d. apply_migrations c ms ?w1 = (Inr (), ?w1\<lparr>db := d\<rparr>)"
    by (rule apply_migrations_ok [OF ms(2)]) (use ms(3) meta assms(2) in \<open>simp_all add: c_def\<close>)
  then obtain d2 where ap: "apply_migrations c ms ?w1 = (Inr (), ?w1\<lparr>db := d2\<rparr>)" by blast
  have "upgradable d2 \<and> current_version d2 = schemaVersion"
    using apply_migrations_any [OF ms(2) _ _ _ _ ap] ms(3) meta assms(2) by (simp add: c_def clean_def)
  then have "compatible (tables schemaSQL) d2" using full_compatible(3) by (simp add: upgradable_def schemaVersion_def)
  then obtain d3 where "script_db schemaSQL d2 = Some d3" using script_ok [OF script_facts(2) _ _ script_facts(6)] by auto
  then have sc: "exec_script schemaSQL (?w1\<lparr>db := d2\<rparr>) = (Inr (), w\<lparr>db := d3\<rparr>)" using exec_script_ok [of "?w1\<lparr>db := d2\<rparr>"] assms(2) by simp
  have st: "stmt (exec_ddl ?x) w = (Inr (), ?w1)" using stmt_ok [OF assms(2), of "exec_ddl ?x"] mk by simp
  have q: "query (\<lambda>d. Inr (current_version d)) ?w1 = (Inr c, ?w1)" using query_ok [of ?w1 "\<lambda>d. Inr (current_version d)"] assms(2) by (simp add: c_def)
  have run: "EnsureSchema w = (Inr (), w\<lparr>db := d3\<rparr>)"
    unfolding EnsureSchema_def bind_io_def st q prod.case sum.case using c(2) ap sc by (simp add: ms(1) wrapping_def io_defs)
  then show thesis using that EnsureSchema_any [OF assms(1) _ run] assms(2) by (simp add: clean_def)
qed

lemma EnsureSchema_idle:
  assumes "up_to_date (db w)" "faults w = []"
  shows "EnsureSchema w = (Inr (), w)"
proof -
  have u: "columns_of (db w) ''credits_schema_migrations'' \<noteq> None" "current_version (db w) = schemaVersion"
    "\<forall>x \<in> set (tables schemaSQL). columns_of (db w) (fst x) \<noteq> None" "set (indexes schemaSQL) \<subseteq> set (table_indexes (db w))"
    using assms(1) by (auto simp: up_to_date_def has_table_def split: option.splits)
  have "script_db schemaSQL (db w) = Some (db w)" by (rule script_idle [OF script_facts(4) u(3,4)])
  then have sc: "exec_script schemaSQL w = (Inr (), w)" using exec_script_ok [OF assms(2)] by simp
  have st: "stmt (exec_ddl (CreateTable ''credits_schema_migrations'' [''version'', ''applied_at''])) w = (Inr (), w)"
    using u(1) assms(2) by (auto simp: stmt_def)
  have q: "query (\<lambda>d. Inr (current_version d)) w = (Inr schemaVersion, w)" using assms(2) u(2) by (simp add: query_ok)
  have "apply_migrations schemaVersion migrations w = (Inr (), w)" by (simp add: migrations_def schemaVersion_def return_io_def)
  then show ?thesis unfolding EnsureSchema_def bind_io_def st q prod.case sum.case using sc by (simp add: wrapping_def io_defs)
qed

section \<open>Properties of the start\<close>

lemma upgradable_empty: "upgradable empty_db"
  by (simp add: upgradable_def compatible_def columns_of_def current_version_def empty_db_def schemaVersion_def)

text \<open>C20: starting on a database of any earlier version brings it up to date. Without faults \<open>EnsureSchema\<close> succeeds on an empty
  database and on every database of version 0 to 3 (also one in which columns of migration 3 are already there); afterwards every table, column and
  index of the current schema exists and version 3 is recorded; no row of any table is lost or changed, except that stored keys of an older
  version get the two new columns; and starting again changes nothing at all.\<close>

theorem EnsureSchema_upgrades:
  assumes "upgradable (db w)" "faults w = []"
  shows "\<exists>d. EnsureSchema w = (Inr (), w\<lparr>db := d\<rparr>) \<and> up_to_date d \<and> data_of d = data_of (db w) \<and>
     EnsureSchema (w\<lparr>db := d\<rparr>) = (Inr (), w\<lparr>db := d\<rparr>)"
proof -
  obtain d where d: "EnsureSchema w = (Inr (), w\<lparr>db := d\<rparr>)" "up_to_date d" "data_of d = data_of (db w)" using EnsureSchema_ok [OF assms] .
  then show ?thesis using EnsureSchema_idle [of "w\<lparr>db := d\<rparr>"] assms(2) by auto
qed

text \<open>A database that migration 1 left behind, with a stored key.\<close>

definition first_release :: database where
  "first_release = empty_db\<lparr>table_columns := tables schemaV1SQL @ [meta_table], table_indexes := indexes schemaV1SQL,
     credits_schema_migrations := [(1, 1786000000)],
     byok_credentials := [\<lparr>k_user_id = ''u1'', k_provider = ''openai'', k_encrypted_key = ''x'', k_version = 0, k_previous_key = None,
       k_created_at = 1786000000, k_updated_at = 1786000000\<rparr>]\<rparr>"

lemma first_release_upgradable: "upgradable first_release"
proof -
  have "list_all (has_table first_release) (tables schemaV1SQL)" by code_simp
  moreover have "columns_of first_release ''settlement_outbox'' = None" by code_simp
  moreover have "current_version first_release = 1" by code_simp
  ultimately show ?thesis by (auto simp: upgradable_def compatible_def list_all_iff schemaVersion_def)
qed

theorem EnsureSchema_upgrades_witness:
  "\<exists>d. EnsureSchema (sample_world first_release) = (Inr (), (sample_world first_release)\<lparr>db := d\<rparr>) \<and> up_to_date d \<and>
     data_of d = data_of first_release"
  using EnsureSchema_upgrades [of "sample_world first_release"] first_release_upgradable by auto

text \<open>C21: an interrupted start does no harm. However many starts are cut short, wherever a fault hits them (within a migration, between
  two, or while the final script runs), no data changes, and the next start that is not cut short completes the schema. (The texts of the
  faults are not those by which the code recognises an existing column.)\<close>

theorem EnsureSchema_survives_crashes:
  assumes "upgradable d" "\<forall>w \<in> set ws. clean (faults w)" "faults w = []"
  shows "let d' = replay EnsureSchema ws d
         in data_of d' = data_of d \<and> (\<exists>d2. EnsureSchema (w\<lparr>db := d'\<rparr>) = (Inr (), w\<lparr>db := d2\<rparr>) \<and> up_to_date d2 \<and> data_of d2 = data_of d)"
proof -
  have "upgradable (replay EnsureSchema ws d) \<and> data_of (replay EnsureSchema ws d) = data_of d" using assms(1,2)
  proof (induction ws arbitrary: d)
    case (Cons v ws)
    obtain r v' where run: "EnsureSchema (v\<lparr>db := d\<rparr>) = (r, v')" by fastforce
    have "upgradable (db v') \<and> data_of (db v') = data_of d" using EnsureSchema_any [OF _ _ run] Cons.prems by simp
    then show ?case using Cons.IH [of "db v'"] Cons.prems run by simp
  qed simp
  then show ?thesis using EnsureSchema_ok [of "w\<lparr>db := replay EnsureSchema ws d\<rparr>"] assms(3) by (auto simp: Let_def)
qed

theorem EnsureSchema_survives_crashes_witness:
  "\<exists>d2. EnsureSchema ((sample_world empty_db)\<lparr>db := replay EnsureSchema [(sample_world empty_db)\<lparr>faults := [None, None, None, None, Some ''disk I/O error'']\<rparr>] empty_db\<rparr>) =
     (Inr (), (sample_world empty_db)\<lparr>db := d2\<rparr>) \<and> up_to_date d2"
proof -
  have "\<not> isAlreadyExists (ErrDb ''disk I/O error'')" by code_simp
  then have "clean [None, None, None, None, Some ''disk I/O error'']" by (simp add: clean_def)
  then show ?thesis
    using EnsureSchema_survives_crashes [OF upgradable_empty, of "[(sample_world empty_db)\<lparr>faults := [None, None, None, None, Some ''disk I/O error'']\<rparr>]"
        "sample_world empty_db"] by (auto simp: Let_def simp del: replay_simps)
qed

text \<open>A database of a newer release is refused and its data left alone.\<close>

lemma EnsureSchema_refuses_newer:
  assumes "schemaVersion < current_version (db w)" "faults w = []"
  shows "\<exists>e. fst (EnsureSchema w) = Inl e \<and> data_of (db (snd (EnsureSchema w))) = data_of (db w)"
  using assms by (auto simp: EnsureSchema_def io_ok current_version_def data_of_def split: option.splits)

section \<open>The start of the payment service\<close>

text \<open>The columns of \<open>payment_subscriptions\<close> before the backfill.\<close>

definition first_subscriptions :: "string \<times> string list" where
  "first_subscriptions = (''payment_subscriptions'', [''provider'', ''subscription_id'', ''user_id'', ''plan'', ''status'', ''period_start'', ''period_end'',
     ''last_event_created'', ''updated_at''])"

abbreviation new_columns :: "string list" where
  "new_columns \<equiv> [''trial_start'', ''trial_end'', ''cancel_at'', ''cancel_at_period_end'', ''canceled_at'']"

lemma exec_quietly_ok:
  "faults w = [] \<Longrightarrow> exec_quietly (map (AddColumn t) cs) w = (Inr (), w\<lparr>db := fold (add_col t) cs (db w)\<rparr>)"
proof (induction cs arbitrary: w)
  case (Cons c cs)
  have "stmt (exec_ddl (AddColumn t c)) w = (case exec_ddl (AddColumn t c) (db w) of Inl e \<Rightarrow> Inl e | Inr _ \<Rightarrow> Inr (), w\<lparr>db := add_col t c (db w)\<rparr>)"
    using Cons.prems unfolding add_col_def stmt_def Let_def by (cases "exec_ddl (AddColumn t c) (db w)") auto
  then have "exec_quietly (map (AddColumn t) (c # cs)) w = exec_quietly (map (AddColumn t) cs) (w\<lparr>db := add_col t c (db w)\<rparr>)"
    by (simp add: bind_io_def try_io_def split: sum.splits)
  then show ?case using Cons.IH [of "w\<lparr>db := add_col t c (db w)\<rparr>"] Cons.prems by simp
qed (simp add: return_io_def)

lemma fold_add_col_tables:
  assumes "columns_of d t \<noteq> None"
  shows "columns_of (fold (add_col t) cs d) t \<noteq> None \<and> (\<forall>x. has_table d x \<longrightarrow> has_table (fold (add_col t) cs d) x) \<and>
     (\<forall>c \<in> set cs. has_table (fold (add_col t) cs d) (t, [c]))"
  using assms
proof (induction cs arbitrary: d)
  case (Cons c cs)
  have n: "columns_of (add_col t c d) t \<noteq> None" using Cons.prems by (simp only: add_col_tables(3) not_False_eq_True)
  show ?case using Cons.IH [OF n] add_col_tables(1,2) Cons.prems by auto
qed simp

lemma fold_add_col_id: "has_table d (t, cs) \<Longrightarrow> fold (add_col t) cs d = d"
proof (induction cs)
  case (Cons c cs)
  then have "add_col t c d = d" by (auto simp: add_col_def has_table_def split: option.splits)
  moreover have "has_table d (t, cs)" using Cons.prems by (auto simp: has_table_def split: option.splits)
  ultimately show ?case using Cons.IH by simp
qed simp

lemma script_append: "script_db (xs @ ys) d = (case script_db xs d of None \<Rightarrow> None | Some d1 \<Rightarrow> script_db ys d1)"
  by (induction xs arbitrary: d) (auto split: sum.splits)

lemma payments_script_facts:
  "wf_script [] (butlast payments_schema)" "creating payments_schema" "creating (butlast payments_schema)"
  "distinct (map fst (tables (butlast payments_schema)))"
  "payments_schema = butlast payments_schema @ [CreateTable ''payment_subscriptions'' (snd first_subscriptions @ new_columns)]"
  by (code_simp, code_simp, code_simp, code_simp, simp add: payments_schema_def first_subscriptions_def)

definition payments_ready :: "database \<Rightarrow> bool" where
  "payments_ready d \<longleftrightarrow> compatible (tables (butlast payments_schema)) d \<and> compatible [first_subscriptions] d"

text \<open>The data of the payment service: everything but the columns the backfill adds.\<close>

definition payment_data :: "database \<Rightarrow> database" where
  "payment_data d = d\<lparr>table_columns := [], table_indexes := [], payments_schema_migrations := [],
     payment_subscriptions := map (\<lambda>q. q\<lparr>q_trial_start := 0, q_trial_end := 0, q_cancel_at := 0, q_cancel_at_period_end := 0, q_canceled_at := 0\<rparr>)
       (payment_subscriptions d)\<rparr>"

lemma has_table_append: "has_table d (t, xs @ ys) \<longleftrightarrow> has_table d (t, xs) \<and> has_table d (t, ys)"
  by (auto simp: has_table_def split: option.splits)

lemma has_table_each: "columns_of d t \<noteq> None \<Longrightarrow> \<forall>c \<in> set cs. has_table d (t, [c]) \<Longrightarrow> has_table d (t, cs)"
  by (induction cs) (auto simp: has_table_def split: option.splits)

lemma tables_snoc: "tables (xs @ [CreateTable t cs]) = tables xs @ [(t, cs)]"
  by (simp add: tables_def List.map_filter_def)

lemma payments_script_ok:
  assumes "payments_ready d"
  obtains d1 where "script_db payments_schema d = Some d1" "extended (tables payments_schema) (indexes payments_schema) d d1"
    "\<forall>x \<in> set (tables (butlast payments_schema)). has_table d1 x" "has_table d1 first_subscriptions"
proof -
  let ?last = "CreateTable ''payment_subscriptions'' (snd first_subscriptions @ new_columns)"
  have c: "compatible (tables (butlast payments_schema)) d" "compatible [first_subscriptions] d" using assms by (simp_all add: payments_ready_def)
  obtain d0 where d0: "script_db (butlast payments_schema) d = Some d0"
    using script_ok [OF payments_script_facts(1) _ c(1) payments_script_facts(4)] by auto
  obtain d1 where "exec_ddl ?last d0 = Inr ((), d1)" by simp
  then have d1: "script_db payments_schema d = Some d1" by (subst payments_script_facts(5)) (simp add: script_append d0 del: exec_ddl.simps)
  have x: "extended (tables payments_schema) (indexes payments_schema) d d1" by (rule script_extended [OF payments_script_facts(2) d1])
  have "\<forall>y \<in> set (tables (butlast payments_schema)). has_table d0 y"
    using created_tables [OF script_extended [OF payments_script_facts(3) d0] payments_script_facts(4) c(1)] by blast
  then have front: "\<forall>y \<in> set (tables (butlast payments_schema)). has_table d1 y"
    using exec_ddl_extended [OF \<open>exec_ddl ?last d0 = Inr ((), d1)\<close>] has_table_extended by (fastforce simp: creating_def)
  have "map_of (tables payments_schema) ''payment_subscriptions'' = Some (snd first_subscriptions @ new_columns)" by code_simp
  moreover have fs: "first_subscriptions = (''payment_subscriptions'', snd first_subscriptions)" by (simp add: first_subscriptions_def)
  ultimately have "has_table d1 first_subscriptions"
    using x c(2) has_table_extended [OF x, of first_subscriptions] unfolding compatible_def
    by (subst fs) (auto simp: extended_def has_table_def map_add_def first_subscriptions_def split: option.splits)
  then show thesis using that d1 x front by blast
qed

lemma add_col_payment_data: "c \<in> set new_columns \<Longrightarrow> payment_data (add_col ''payment_subscriptions'' c d) = payment_data d"
  by (auto simp: add_col_def fill_column_def payment_data_def split: option.splits)

lemma fold_add_col_payment_data:
  "set cs \<subseteq> set new_columns \<Longrightarrow> payment_data (fold (add_col ''payment_subscriptions'') cs d) = payment_data d"
  by (induction cs arbitrary: d) (simp_all only: fold_simps id_apply list.set insert_subset add_col_payment_data)

lemma add_col_indexes: "table_indexes (add_col t c d) = table_indexes d" "table_indexes (fold (add_col t) cs d) = table_indexes d"
proof -
  show one: "table_indexes (add_col t c d) = table_indexes d" for c d
    by (simp add: add_col_def fill_column_def split: option.splits)
  show "table_indexes (fold (add_col t) cs d) = table_indexes d" by (induction cs arbitrary: d) (simp_all add: one)
qed

definition payments_started :: "database \<Rightarrow> bool" where
  "payments_started d \<longleftrightarrow>
     (\<forall>x \<in> set (tables payments_schema). has_table d x) \<and> set (indexes payments_schema) \<subseteq> set (table_indexes d) \<and>
     list_ex (\<lambda>(v, _). v = 1) (payments_schema_migrations d)"

lemma NewPayments_run:
  assumes "\<not> list_ex invalid_item catalog" "faults w = []" "script_db payments_schema (db w) = Some d1"
  shows "NewPayments True (Some l) catalog w =
    (Inr \<lparr>ps_ledger = l, ps_catalog = catalog\<rparr>,
     w\<lparr>db := snd (projr (insert_payments_version (pnow w) (fold (add_col ''payment_subscriptions'') new_columns d1)))\<rparr>)"
proof -
  have sc: "exec_script payments_schema w = (Inr (), w\<lparr>db := d1\<rparr>)" by (rule exec_script_ok [OF assms(2,3)])
  let ?d2 = "fold (add_col ''payment_subscriptions'') new_columns d1"
  have bf: "exec_quietly backfill (w\<lparr>db := d1\<rparr>) = (Inr (), w\<lparr>db := ?d2\<rparr>)"
    unfolding backfill_def using exec_quietly_ok [of "w\<lparr>db := d1\<rparr>" "''payment_subscriptions''" new_columns] assms(2) by (simp del: exec_quietly.simps fold_simps list.map)
  have "\<exists>d3. insert_payments_version (pnow w) ?d2 = Inr ((), d3)" by (simp add: insert_payments_version_def del: fold_simps)
  then obtain d3 where "insert_payments_version (pnow w) ?d2 = Inr ((), d3)" by blast
  then show ?thesis
    unfolding NewPayments_def using assms(1,2) sc bf by (simp add: io_ok del: fold_simps)
qed

lemma payments_restarted:
  assumes "payments_started (db w)" "\<not> list_ex invalid_item catalog" "faults w = []"
  shows "NewPayments True (Some l) catalog w = (Inr \<lparr>ps_ledger = l, ps_catalog = catalog\<rparr>, w)"
proof -
  have t: "\<forall>x \<in> set (tables payments_schema). has_table (db w) x" and i: "set (indexes payments_schema) \<subseteq> set (table_indexes (db w))"
    and v: "list_ex (\<lambda>(v, _). v = 1) (payments_schema_migrations (db w))" using assms(1) by (simp_all add: payments_started_def)
  have "\<forall>x \<in> set (tables payments_schema). columns_of (db w) (fst x) \<noteq> None" using t by (fastforce simp: has_table_def split: option.splits)
  then have idle: "script_db payments_schema (db w) = Some (db w)" by (rule script_idle [OF payments_script_facts(2) _ i])
  have "(''payment_subscriptions'', snd first_subscriptions @ new_columns) \<in> set (tables payments_schema)"
    by (subst payments_script_facts(5)) (simp add: tables_snoc)
  then have "has_table (db w) (''payment_subscriptions'', new_columns)" using t has_table_append by blast
  then have "fold (add_col ''payment_subscriptions'') new_columns (db w) = db w" by (rule fold_add_col_id)
  then show ?thesis using NewPayments_run [OF assms(2,3) idle, of l] v by (simp add: insert_payments_version_def del: fold_simps)
qed

text \<open>Starting the payment service on an existing database completes its tables without touching its data. Without faults and with a
  valid catalog \<open>New\<close> succeeds on an empty database and on one whose \<open>payment_subscriptions\<close> lacks the newer columns; afterwards every table,
  column and index of the schema exists, no row is lost or changed except that the missing columns of subscriptions are 0, columns that were
  there keep their values, and starting again changes nothing.\<close>

theorem NewPayments_restart:
  assumes "payments_ready (db w)" "\<not> list_ex invalid_item catalog" "faults w = []"
  shows "\<exists>d. NewPayments True (Some l) catalog w = (Inr \<lparr>ps_ledger = l, ps_catalog = catalog\<rparr>, w\<lparr>db := d\<rparr>) \<and>
     payments_started d \<and> payment_data d = payment_data (db w) \<and>
     (has_table (db w) (''payment_subscriptions'', new_columns) \<longrightarrow> payment_subscriptions d = payment_subscriptions (db w)) \<and>
     NewPayments True (Some l) catalog (w\<lparr>db := d\<rparr>) = (Inr \<lparr>ps_ledger = l, ps_catalog = catalog\<rparr>, w\<lparr>db := d\<rparr>)"
proof -
  obtain d1 where d1: "script_db payments_schema (db w) = Some d1" and x: "extended (tables payments_schema) (indexes payments_schema) (db w) d1"
    and front: "\<forall>x \<in> set (tables (butlast payments_schema)). has_table d1 x" and fs: "has_table d1 first_subscriptions"
    using payments_script_ok [OF assms(1)] by blast
  let ?t = "''payment_subscriptions''"
  define d2 where "d2 = fold (add_col ?t) new_columns d1"
  define d where "d = snd (projr (insert_payments_version (pnow w) d2))"
  have d: "columns_of d = columns_of d2" "table_indexes d = table_indexes d2" "payment_data d = payment_data d2" "payment_subscriptions d = payment_subscriptions d2"
    "list_ex (\<lambda>(v, _). v = 1) (payments_schema_migrations d)"
    by (simp_all add: d_def insert_payments_version_def columns_of_def payment_data_def fun_eq_iff)
  have sub: "columns_of d1 ?t \<noteq> None" using fs by (auto simp: first_subscriptions_def has_table_def split: option.splits)
  note grown = fold_add_col_tables [OF sub, of new_columns, folded d2_def]
  have "has_table d2 (?t, new_columns)" using grown by (intro has_table_each) blast+
  moreover have "has_table d2 (?t, snd first_subscriptions)" using grown fs by (simp add: first_subscriptions_def)
  ultimately have "has_table d2 (?t, snd first_subscriptions @ new_columns)" using has_table_append by blast
  moreover have "\<forall>x \<in> set (tables (butlast payments_schema)). has_table d2 x" using front grown by blast
  moreover have "tables payments_schema = tables (butlast payments_schema) @ [(?t, snd first_subscriptions @ new_columns)]"
    using arg_cong [OF payments_script_facts(5), of tables] by (simp only: tables_snoc)
  ultimately have "\<forall>x \<in> set (tables payments_schema). has_table d x" unfolding has_table_columns [OF d(1)] by (simp only: set_append list.set ball_Un ball_simps)
  moreover have "set (indexes payments_schema) \<subseteq> set (table_indexes d)" using x by (simp add: d(2) d2_def add_col_indexes extended_def del: fold_simps)
  ultimately have started: "payments_started d" using d(5) by (simp add: payments_started_def)
  have same: "payment_data d1 = payment_data (db w)" "payment_subscriptions d1 = payment_subscriptions (db w)"
  proof -
    let ?e = "\<lambda>d. d\<lparr>table_columns := [], table_indexes := []\<rparr>"
    have e: "?e d1 = ?e (db w)" using x by (simp add: extended_def same_but_catalogue_def)
    have p: "payment_data y = payment_data (?e y)" "payment_subscriptions y = payment_subscriptions (?e y)" for y by (simp_all add: payment_data_def)
    show "payment_data d1 = payment_data (db w)" by (subst (1 2) p(1)) (simp only: e)
    show "payment_subscriptions d1 = payment_subscriptions (db w)" by (subst (1 2) p(2)) (simp only: e)
  qed
  have "payment_data d2 = payment_data d1" unfolding d2_def by (rule fold_add_col_payment_data) simp
  moreover have "d2 = d1" if "has_table (db w) (?t, new_columns)" using fold_add_col_id [OF has_table_extended [OF x that]] by (simp add: d2_def)
  moreover have "NewPayments True (Some l) catalog w = (Inr \<lparr>ps_ledger = l, ps_catalog = catalog\<rparr>, w\<lparr>db := d\<rparr>)"
    using NewPayments_run [OF assms(2,3) d1] by (simp only: d_def d2_def)
  moreover have "NewPayments True (Some l) catalog (w\<lparr>db := d\<rparr>) = (Inr \<lparr>ps_ledger = l, ps_catalog = catalog\<rparr>, w\<lparr>db := d\<rparr>)"
    by (rule payments_restarted) (use started assms in simp_all)
  ultimately show ?thesis using started d(3,4) same by auto
qed

theorem NewPayments_restart_witness:
  "\<exists>d. NewPayments True (Some CreditsService) [(''topup'', \<lparr>ci_Credits = 100, ci_Currency = ''usd'', ci_AmountMinor = 999\<rparr>)] (sample_world empty_db) =
     (Inr \<lparr>ps_ledger = CreditsService, ps_catalog = [(''topup'', \<lparr>ci_Credits = 100, ci_Currency = ''usd'', ci_AmountMinor = 999\<rparr>)]\<rparr>, (sample_world empty_db)\<lparr>db := d\<rparr>) \<and>
     payments_started d"
proof -
  have "payments_ready empty_db" by (simp add: payments_ready_def compatible_def columns_of_def empty_db_def)
  moreover have "\<not> list_ex invalid_item [(''topup'', \<lparr>ci_Credits = 100, ci_Currency = ''usd'', ci_AmountMinor = 999\<rparr>)]" by code_simp
  ultimately show ?thesis using NewPayments_restart [of "sample_world empty_db" "[(''topup'', \<lparr>ci_Credits = 100, ci_Currency = ''usd'', ci_AmountMinor = 999\<rparr>)]" CreditsService]
    by auto
qed

end
