(* ===== verification/Spec2Isabelle.thy ===== *)
theory Spec2Isabelle
  imports Whole_System Concurrent_Workers Startup
begin

text \<open>
  \<^bold>\<open>A verification of the credits library\<close>

  The program is a Go library that keeps prepaid credits for users of language models: package \<open>credits\<close>
  (\<open>src/credits\<close>) with the ledger, the reservations and everything around them, package \<open>payments\<close> (\<open>src/payments\<close>) that
  turns provider payments into credits, and the adapter \<open>stripe\<close> (\<open>src/stripe\<close>). All of them act on one SQLite database, which
  is the only state they share.

  \<^bold>\<open>The parts and how they interact.\<close> A client of the service prices a call (\<open>pricing.go\<close>), reserves the estimate
  (\<open>reservation.go\<close>), settles the actual cost or releases the reservation, directly or through the outbox
  (\<open>settlement.go\<close>), and logs the usage (\<open>usage.go\<close>). Credits come in by \<open>Grant\<close> (\<open>ledger.go\<close>): from the monthly grant of a
  subscription (\<open>monthly.go\<close>, \<open>subscription.go\<close>), from purchases and paid invoices (\<open>payments.go\<close>, driven by webhooks in
  \<open>stripe.go\<close> and by the worker of \<open>worker.go\<close>), or from the application. \<open>Reconcile\<close> (\<open>reconcile.go\<close>) expires what was left
  open and reports drift. Users with a key of their own bypass the ledger: the key is sealed in the credential store
  (\<open>byokstore.go\<close>), and the relay (\<open>byokrelay.go\<close>, \<open>byokcapture.go\<close>) forwards the call and meters it. At start
  \<open>EnsureSchema\<close> (\<open>migrations.go\<close>) and \<open>payments.New\<close> bring the schema up to date.

  \<^bold>\<open>Theories.\<close>
  \<^item> \<open>Go_Prelude\<close>: 64-bit arithmetic, Go strings, selections and updates of rows; the generic lemmas and the named collections.
  \<^item> \<open>Credit_Types\<close>: the errors, \<open>Usage\<close>, validation (\<open>types.go\<close>, \<open>validate.go\<close>).
  \<^item> \<open>Pricing\<close>: \<open>pricing.go\<close> and \<open>EstimateTokens\<close>. The integer cost is the exact cost rounded up or an error, the credits
    are the least that cover it. The estimate covers a usage within its token counts if the cached and reasoning tokens,
    which it leaves out, cost at most a fifth of the call, and falls short when they cost more.
  \<^item> \<open>Store\<close>: the tables, the world an operation runs in, statements, transactions; \<open>preserves\<close> and its rules.
  \<^item> \<open>Ledger\<close>, \<open>Reservations\<close>, \<open>Reconcile\<close>, \<open>Monthly\<close>, \<open>Usages\<close>, \<open>Settlement\<close>: one theory per part of the service, each with its
    operations in the order of the code, their effect on every branch, at-most-once and all-or-nothing under faults.
  \<^item> \<open>Credits_System\<close>: all operations of the service as a transition system, the invariant \<open>credits_inv\<close> in every reachable
    database, and the refinement of the abstract account book. The locales \<open>table_law_on\<close> and \<open>table_law\<close> are the
    interface between the operations and properties that every single statement keeps.
  \<^item> \<open>Payments\<close>, \<open>Fulfilment\<close>, \<open>Payment_Runs\<close>, \<open>Entitlements\<close>, \<open>Worker\<close>: the payment service, the invariant \<open>pay_inv\<close> that ties
    purchases, events and ledger together, redelivery and order of events, the queue, and the worker's loop.
  \<^item> \<open>Reversals\<close>: the invariant \<open>rev_inv\<close>, that what was taken back of a purchase is the largest share its applied reversals ask
    for, and that every operation which processes the log keeps it.
  \<^item> \<open>Concurrent_Workers\<close>: the pieces of \<open>processOne\<close> as single steps of any number of workers, interleaved with everything else.
    The whole operations are runs of these steps; what stays true in every interleaving is shown.
  \<^item> \<open>Stripe\<close>, \<open>Webhooks\<close>: the adapter. Every webhook is a step of the payment service; invoices are credited at most once and
    exactly when due; a checkout sells the catalog item.
  \<^item> \<open>Byok_Store\<close>, \<open>Byok_Relay\<close>: sealing and opening of keys, isolation of users, and the relay: what it sends, what it hands back,
    what it records, that it never charges, and when the chunks of a response matter.
  \<^item> \<open>Migrations\<close>, \<open>Schema_Upgrade\<close>, \<open>Startup\<close>: the schema, its migrations, and starts on a database of any earlier version,
    complete or cut short anywhere.
  \<^item> \<open>Whole_System\<close>: the components side by side on one database. Each step is a run of the payment service (the steps of the
    others are \<open>foreign\<close> to it); a balance is explained down to the purchases; reversals are cumulative; no component
    rewrites history. The uniqueness constraints of the schema are part of the statements; \<open>tables_keep_keys\<close> says that
    no sequence of statements gets around them. The locale \<open>system_law\<close> extends \<open>table_law\<close> by the statements of the other components and is
    interpreted by the history, by the keys of the credits tables and by those of the payment tables.

  \<^bold>\<open>How state and operations correspond to the code.\<close> A table is a list of records, one field per column; a statement is a
  function from the database to an error or the affected rows and the new database, with the checks and unique indexes of
  the schema. An operation is a function from a \<open>world\<close> to a result and a world. The world holds the database, the random
  bytes still to be drawn, the two clocks (\<open>cfg.Now\<close> and \<open>time.Now\<close>, in nanoseconds), the faults that the next statements meet
  (so every error path of \<open>database/sql\<close> is a branch), and the choice that stands for the order of a Go map. \<open>int64\<close> is a HOL
  integer with \<open>wrap64\<close> at every operation that may overflow; strings are lists of bytes. Go errors are values of
  \<open>error\<close>, a failing call returns \<open>Inl\<close>. A transaction that ends in an error or is abandoned leaves the database as it
  found it. Structures that an operation updates through a pointer are an extra field of the world (\<open>arg\<close>).

  \<^bold>\<open>Bounds and termination.\<close> Every loop of the model is a total function: over the rows it selected, over the attempts of a
  retry (three), over the lines of a chunk (with a measure), over the ticks of the worker. The worker's own loop is
  endless by design; \<open>Run\<close> follows it over any finite number of ticks. SQL integers carry no width in the model;
  \<open>balance_bounded\<close> bounds balances by the turnover of the ledger. The theorems on purchases assume catalog prices whose
  product fits an \<open>int64\<close> (\<open>small_catalog\<close>) and providers without a colon in their name (\<open>plain\<close>), and that the application's own
  grants do not use the keys and reasons of the payment service (\<open>outside\<close>).

  \<^bold>\<open>Parameters.\<close> Code outside the repository is an argument: the cipher (\<open>aead\<close>), JSON decoding and URL parsing of the relay
  (\<open>codec\<close>), the reverse proxy and the upstream (\<open>br_proxied\<close>, \<open>br_forwarded\<close>, \<open>br_upstream\<close>), the Stripe library with its signature
  check, SHA-256 and JSON decoding (\<open>StripeLib\<close>), any other implementation of the interface \<open>Ledger\<close> (\<open>OtherLedger\<close>), the opening
  of a database handle. The assumptions about them are hypotheses of the theorems (\<open>aead_correct\<close>, \<open>aead_binding\<close>).

  \<^bold>\<open>Not modelled, and why.\<close> Waiting, timeouts and logging, which do not show in the tables or the results. HTTP transport beyond
  the calls on the response writer. An error that a driver reports only at the end of a row iteration (\<open>rows.Err\<close>), which
  truncates a listing. In \<open>Whole_System\<close> one step is a whole operation (for the longer operations of package \<open>credits\<close>
  also each of their transactions): the agreement of purchases and ledger does not survive two workers that interleave
  inside \<open>processOne\<close>, nor do cumulative reversals, as \<open>stale_purchase_over_refunds\<close> shows, and \<open>Concurrent_Workers\<close> has what does. The struct \<open>Result\<close> of \<open>types.go\<close>, which nothing uses. The promotion of SQLite integers to \<open>REAL\<close> on
  overflow.
\<close>

end
